(* ===== verification/Vfs_Path.thy ===== *)
theory Vfs_Path
  imports Bloom_Prelude
begin

text \<open>
  Virtual file system paths and pages: \<open>crates/bloom-vfs/src/path.rs\<close> and \<open>paginate.rs\<close>. A path is
  the list of its segments; percent-decoding works on bytes and checks UTF-8 as
  \<open>String::from_utf8\<close> does. The lemmas show that a parsed path never contains a dot segment, a
  separator or a NUL, that printing and parsing are inverse on such paths, that an escape above the
  root is always refused, and that the pages of a listing partition it.
\<close>

section \<open>Percent decoding\<close>

datatype percent_decode_error = Truncated | BadHex | NotUtf8

definition hex_nibble :: "char \<Rightarrow> nat option" where
  "hex_nibble c =
     (let b = byte c in
      if 48 \<le> b \<and> b \<le> 57 then Some (b - 48)
      else if 97 \<le> b \<and> b \<le> 102 then Some (b - 97 + 10)
      else if 65 \<le> b \<and> b \<le> 70 then Some (b - 65 + 10)
      else None)"

text \<open>Well-formed UTF-8, by the first byte of each character.\<close>

definition cont :: "nat \<Rightarrow> bool" where "cont b \<longleftrightarrow> 128 \<le> b \<and> b \<le> 191"

fun utf8_bytes :: "nat list \<Rightarrow> bool" where
  "utf8_bytes [] = True"
| "utf8_bytes (a # s) =
     (if a < 128 then utf8_bytes s
      else if 194 \<le> a \<and> a \<le> 223 then
        (case s of b # t \<Rightarrow> cont b \<and> utf8_bytes t | _ \<Rightarrow> False)
      else if 224 \<le> a \<and> a \<le> 239 then
        (case s of b # c # t \<Rightarrow>
           (if a = 224 then 160 \<le> b \<and> b \<le> 191 else if a = 237 then 128 \<le> b \<and> b \<le> 159 else cont b) \<and>
           cont c \<and> utf8_bytes t | _ \<Rightarrow> False)
      else if 240 \<le> a \<and> a \<le> 244 then
        (case s of b # c # d # t \<Rightarrow>
           (if a = 240 then 144 \<le> b \<and> b \<le> 191 else if a = 244 then 128 \<le> b \<and> b \<le> 143 else cont b) \<and>
           cont c \<and> cont d \<and> utf8_bytes t | _ \<Rightarrow> False)
      else False)"

definition utf8_valid :: "string \<Rightarrow> bool" where
  "utf8_valid s = utf8_bytes (map byte s)"

fun percent_bytes :: "string \<Rightarrow> (percent_decode_error, string) result" where
  "percent_bytes [] = Ok []"
| "percent_bytes (c # s) =
     (if c = CHR ''%'' then
        (case s of
           x # y # t \<Rightarrow>
             and_then (ok_or (hex_nibble x) BadHex) (\<lambda>h.
             and_then (ok_or (hex_nibble y) BadHex) (\<lambda>l.
             map_sum id (Cons (char_of (16 * h + l))) (percent_bytes t)))
         | _ \<Rightarrow> Err Truncated)
      else map_sum id (Cons c) (percent_bytes s))"

definition percent_decode_segment :: "string \<Rightarrow> (percent_decode_error, string) result" where
  "percent_decode_segment s =
     and_then (percent_bytes s) (\<lambda>out. if utf8_valid out then Ok out else Err NotUtf8)"

section \<open>Paths\<close>

datatype path_error = Escape | InvalidSegment string

type_synonym vfs_path = "string list"

definition vfs_root :: vfs_path where "vfs_root = []"

definition backslash :: char where "backslash = CHR 0x5C"
definition nul :: char where "nul = CHR 0x00"

text \<open>One component against the segments pushed so far (the last one first).\<close>

fun parse_segments :: "string list \<Rightarrow> vfs_path \<Rightarrow> (path_error, vfs_path) result" where
  "parse_segments [] out = Ok (rev out)"
| "parse_segments (raw # rest) out =
     (if raw = [] \<or> raw = ''.'' then parse_segments rest out
      else if raw = ''..'' then
        (case out of [] \<Rightarrow> Err Escape | _ # out' \<Rightarrow> parse_segments rest out')
      else if backslash \<in> set raw \<or> nul \<in> set raw then Err (InvalidSegment raw)
      else parse_segments rest (raw # out))"

definition vfs_parse :: "string \<Rightarrow> (path_error, vfs_path) result" where
  "vfs_parse input = parse_segments (split_on CHR ''/'' input) []"

definition is_root :: "vfs_path \<Rightarrow> bool" where "is_root p \<longleftrightarrow> p = []"

definition vfs_first :: "vfs_path \<Rightarrow> string option" where
  "vfs_first p = (case p of [] \<Rightarrow> None | s # _ \<Rightarrow> Some s)"

definition shift :: "vfs_path \<Rightarrow> vfs_path" where
  "shift p = (case p of [] \<Rightarrow> [] | _ # r \<Rightarrow> r)"

definition prepend :: "vfs_path \<Rightarrow> string \<Rightarrow> vfs_path" where
  "prepend p seg = seg # p"

definition vfs_join :: "vfs_path \<Rightarrow> string \<Rightarrow> vfs_path" where
  "vfs_join p seg = p @ [seg]"

definition to_string_path :: "vfs_path \<Rightarrow> string" where
  "to_string_path p = (if p = [] then ''/'' else ''/'' @ join ''/'' p)"

section \<open>Pages\<close>

definition PAGE_SIZE :: nat where "PAGE_SIZE = 256"
definition PAGE_INDEX_WIDTH :: nat where "PAGE_INDEX_WIDTH = 6"

definition page_name :: "nat \<Rightarrow> string" where
  "page_name i = replicate (PAGE_INDEX_WIDTH - length (show_nat i)) CHR ''0'' @ show_nat i"

definition parse_page_name :: "string \<Rightarrow> nat option" where
  "parse_page_name name =
     (if length name \<noteq> PAGE_INDEX_WIDTH \<or> \<not> all_digits name then None
      else if dec_val name < 2 ^ 64 then Some (dec_val name) else None)"

definition page_count :: "nat \<Rightarrow> nat" where
  "page_count total_entries = (total_entries + PAGE_SIZE - 1) div PAGE_SIZE"

definition is_paged :: "nat \<Rightarrow> bool" where
  "is_paged total_entries \<longleftrightarrow> total_entries > PAGE_SIZE"

datatype 'e projection = Direct "'e list" | Paged nat

definition project :: "'e list \<Rightarrow> 'e projection" where
  "project entries = (if is_paged (length entries) then Paged (page_count (length entries)) else Direct entries)"

definition page_indices :: "nat \<Rightarrow> string list" where
  "page_indices total_entries = map page_name [0..<page_count total_entries]"

definition page_slice :: "'e list \<Rightarrow> nat \<Rightarrow> 'e list" where
  "page_slice entries index =
     (let start = u_sat_mul 64 index PAGE_SIZE in
      if start \<ge> length entries then []
      else let stop = min (start + PAGE_SIZE) (length entries) in take (stop - start) (drop start entries))"

section \<open>What a parsed path is\<close>

definition good_segment :: "string \<Rightarrow> bool" where
  "good_segment s \<longleftrightarrow> s \<noteq> [] \<and> s \<noteq> ''.'' \<and> s \<noteq> ''..'' \<and> CHR ''/'' \<notin> set s \<and> backslash \<notin> set s \<and> nul \<notin> set s"

lemma parse_segments_simps:
  "raw = [] \<or> raw = ''.'' \<Longrightarrow> parse_segments (raw # rest) out = parse_segments rest out"
  "parse_segments (''..'' # rest) [] = Err Escape"
  "parse_segments (''..'' # rest) (x # out) = parse_segments rest out"
  "raw \<noteq> [] \<Longrightarrow> raw \<noteq> ''.'' \<Longrightarrow> raw \<noteq> ''..'' \<Longrightarrow> backslash \<in> set raw \<or> nul \<in> set raw \<Longrightarrow>
     parse_segments (raw # rest) out = Err (InvalidSegment raw)"
  "raw \<noteq> [] \<Longrightarrow> raw \<noteq> ''.'' \<Longrightarrow> raw \<noteq> ''..'' \<Longrightarrow> \<not> (backslash \<in> set raw \<or> nul \<in> set raw) \<Longrightarrow>
     parse_segments (raw # rest) out = parse_segments rest (raw # out)"
  by (simp_all only: parse_segments.simps if_True if_False list.case simp_thms list.distinct list.inject
      char.inject disj_not1)

lemma parse_segments_good:
  assumes "parse_segments raws out = Ok p" "list_all good_segment out"
    and "\<And>r. r \<in> set raws \<Longrightarrow> CHR ''/'' \<notin> set r"
  shows "list_all good_segment p"
  using assms
proof (induction raws arbitrary: out)
  case (Cons raw rest)
  note rest = Cons.IH[OF _ _ Cons.prems(3)]
  consider (skip) "raw = [] \<or> raw = ''.''" | (up) "raw = ''..''"
    | (bad) "raw \<noteq> []" "raw \<noteq> ''.''" "raw \<noteq> ''..''" "backslash \<in> set raw \<or> nul \<in> set raw"
    | (push) "raw \<noteq> []" "raw \<noteq> ''.''" "raw \<noteq> ''..''" "\<not> (backslash \<in> set raw \<or> nul \<in> set raw)"
    by blast
  then show ?case
  proof cases
    case skip
    then show ?thesis using Cons.prems rest by (simp add: parse_segments_simps(1))
  next
    case up
    then obtain x out' where o: "out = x # out'"
      using Cons.prems(1) by (cases out) (simp_all add: parse_segments_simps(2))
    then show ?thesis
      using Cons.prems rest[of out'] parse_segments_simps(3)[of rest x out'] up by simp
  next
    case bad
    then show ?thesis using Cons.prems(1) parse_segments_simps(4)[OF bad] by simp
  next
    case push
    then have "good_segment raw" using Cons.prems(3)[of raw] by (simp add: good_segment_def)
    then show ?thesis
      using Cons.prems(1,2) rest[of "raw # out"] parse_segments_simps(5)[OF push] by simp
  qed
qed (auto simp: list_all_iff)

lemma parse_segments_append:
  assumes "list_all good_segment p"
  shows "parse_segments p out = Ok (rev out @ p)"
  using assms by (induction p arbitrary: out) (auto simp: good_segment_def)

lemma split_on_join:
  assumes "p \<noteq> []" "list_all good_segment p"
  shows "split_on CHR ''/'' (join ''/'' p) = p"
  using assms
proof (induction p rule: induct_list012)
  case (2 x)
  then show ?case by (simp add: good_segment_def split_on_no_sep)
next
  case (3 x y zs)
  then have "CHR ''/'' \<notin> set x" by (simp add: good_segment_def)
  then have "split_on CHR ''/'' (x @ CHR ''/'' # join ''/'' (y # zs)) =
      x # split_on CHR ''/'' (join ''/'' (y # zs))" by (rule split_on_append)
  then show ?case using 3 by simp
qed simp

text \<open>
  C32: paths are normalised and never leave the root. Every parsed path consists of non-empty
  segments that are neither dot nor dot-dot and contain no slash, backslash or NUL; printing such a
  path and parsing the result gives the path back.
\<close>

theorem parsed_path_normal:
  assumes "vfs_parse s = Ok p"
  shows "list_all good_segment p \<and> vfs_parse (to_string_path p) = Ok p"
proof -
  have g: "list_all good_segment p"
    using parse_segments_good[OF assms[unfolded vfs_parse_def]] split_on_no_sep_in by simp
  have "vfs_parse (to_string_path p) = Ok p"
  proof (cases "p = []")
    case False
    have "split_on CHR ''/'' (to_string_path p) = [] # split_on CHR ''/'' (join ''/'' p)"
      using False by (simp add: to_string_path_def)
    then show ?thesis
      using split_on_join[OF False g] parse_segments_append[OF g] by (simp add: vfs_parse_def)
  qed (simp add: vfs_parse_def to_string_path_def)
  then show ?thesis using g by blast
qed

theorem parsed_path_normal_witness:
  "vfs_parse ''/wallets//./alice/../bob'' = Ok [''wallets'', ''bob''] \<and>
   vfs_parse (to_string_path [''wallets'', ''bob'']) = Ok [''wallets'', ''bob'']"
proof -
  have "vfs_parse ''/wallets//./alice/../bob'' = Ok [''wallets'', ''bob'']" by code_simp
  then show ?thesis using parsed_path_normal by blast
qed

section \<open>Escapes\<close>

text \<open>The depth after each component; a dot-dot at depth 0 is an escape.\<close>

fun escapes :: "string list \<Rightarrow> nat \<Rightarrow> bool" where
  "escapes [] d = False"
| "escapes (raw # rest) d =
     (if raw = [] \<or> raw = ''.'' then escapes rest d
      else if raw = ''..'' then d = 0 \<or> escapes rest (d - 1)
      else escapes rest (d + 1))"

lemma parse_segments_escape:
  assumes "\<And>r. r \<in> set raws \<Longrightarrow> backslash \<notin> set r \<and> nul \<notin> set r"
  shows "if escapes raws (length out) then parse_segments raws out = Err Escape
    else \<exists>p. parse_segments raws out = Ok p"
  using assms
proof (induction raws arbitrary: out)
  case (Cons raw rest)
  note rest = Cons.IH[OF Cons.prems]
  consider (skip) "raw = [] \<or> raw = ''.''" | (up) "raw = ''..''"
    | (push) "raw \<noteq> []" "raw \<noteq> ''.''" "raw \<noteq> ''..''" by blast
  then show ?case
  proof cases
    case skip
    then show ?thesis using rest[of out] by (simp only: parse_segments_simps(1) escapes.simps if_True) simp
  next
    case up
    then show ?thesis
    proof (cases out)
      case Nil
      then show ?thesis using up by (simp add: parse_segments_simps(2))
    next
      case (Cons x out')
      then show ?thesis using up rest[of out'] parse_segments_simps(3)[of rest x out'] by simp
    qed
  next
    case push
    then show ?thesis
      using rest[of "raw # out"] parse_segments_simps(5)[OF push] Cons.prems[of raw] by simp
  qed
qed simp

text \<open>
  for an input without backslash and NUL, parsing fails exactly when some dot-dot component
  would leave the root, and then with the escape error; every other such input parses.
\<close>

theorem parse_refuses_escape:
  assumes "backslash \<notin> set s" "nul \<notin> set s"
  shows "if escapes (split_on CHR ''/'' s) 0 then vfs_parse s = Err Escape
    else \<exists>p. vfs_parse s = Ok p"
proof -
  have "t \<in> set (split_on CHR ''/'' s) \<Longrightarrow> set t \<subseteq> set s" for t
    by (induction s arbitrary: t) (fastforce split: if_splits list.splits)+
  then have "r \<in> set (split_on CHR ''/'' s) \<Longrightarrow> backslash \<notin> set r \<and> nul \<notin> set r" for r
    using assms by blast
  then have "if escapes (split_on CHR ''/'' s) (length ([] :: vfs_path))
      then parse_segments (split_on CHR ''/'' s) [] = Err Escape
      else \<exists>p. parse_segments (split_on CHR ''/'' s) [] = Ok p"
    by (rule parse_segments_escape)
  then show ?thesis by (simp only: vfs_parse_def list.size)
qed

theorem parse_refuses_escape_witness: "vfs_parse ''a/../../etc'' = Err Escape"
proof -
  have "escapes (split_on CHR ''/'' ''a/../../etc'') 0" "backslash \<notin> set ''a/../../etc''"
    "nul \<notin> set ''a/../../etc''" by code_simp+
  then show ?thesis using parse_refuses_escape by presburger
qed

section \<open>Decoding an encoded segment\<close>

text \<open>The canonical encoder: every byte as an upper-case escape.\<close>

definition hex_digit :: "nat \<Rightarrow> char" where
  "hex_digit n = (if n < 10 then char_of (48 + n) else char_of (55 + n))"

definition percent_encode :: "string \<Rightarrow> string" where
  "percent_encode s = concat (map (\<lambda>c. [CHR ''%'', hex_digit (byte c div 16), hex_digit (byte c mod 16)]) s)"

lemma hex_nibble_digit: "n < 16 \<Longrightarrow> hex_nibble (hex_digit n) = Some n"
  by (auto simp: hex_nibble_def hex_digit_def Let_def)

lemma percent_bytes_encode: "percent_bytes (percent_encode s) = Ok s"
proof (induction s)
  case (Cons c s)
  have "hex_nibble (hex_digit (byte c div 16)) = Some (byte c div 16)"
    "hex_nibble (hex_digit (byte c mod 16)) = Some (byte c mod 16)"
    by (rule hex_nibble_digit, simp add: less_mult_imp_div_less)+
  then show ?case using Cons by (simp add: percent_encode_def)
qed (simp add: percent_encode_def)

lemma percent_bytes_plain: "CHR ''%'' \<notin> set s \<Longrightarrow> percent_bytes s = Ok s"
  by (induction s) auto

text \<open>
  every valid UTF-8 segment can be named: decoding its percent-encoding gives it back, also
  when it contains a slash or a percent sign; a segment without percent sign decodes to itself;
  and whatever decodes is valid UTF-8.
\<close>

theorem percent_decode_roundtrip:
  assumes "utf8_valid s"
  shows "percent_decode_segment (percent_encode s) = Ok s \<and>
    (CHR ''%'' \<notin> set s \<longrightarrow> percent_decode_segment s = Ok s) \<and>
    (percent_decode_segment t = Ok u \<longrightarrow> utf8_valid u)"
  using assms
  by (auto simp: percent_decode_segment_def percent_bytes_encode percent_bytes_plain and_then_Ok_iff
      split: if_splits)

theorem percent_decode_roundtrip_witness:
  "utf8_valid ''a/b c'' \<and> percent_decode_segment (percent_encode ''a/b c'') = Ok ''a/b c''"
proof -
  have "utf8_valid ''a/b c''" by code_simp
  then show ?thesis using percent_decode_roundtrip by blast
qed

section \<open>Pages partition a listing\<close>

lemma page_slice_eq:
  assumes "i * PAGE_SIZE \<le> u_max 64"
  shows "page_slice xs i = take PAGE_SIZE (drop (i * PAGE_SIZE) xs)"
  using assms by (auto simp: page_slice_def u_sat_mul_def Let_def min_def)

lemma take_pages: "concat (map (\<lambda>i. take n (drop (i * n) xs)) [0..<k]) = take (k * n) xs"
proof (induction k)
  case (Suc k)
  have "take (Suc k * n) xs = take (k * n) xs @ take n (drop (k * n) xs)"
    using take_add[of "k * n" n xs] by (simp add: add.commute)
  then show ?case using Suc by simp
qed simp

lemma page_count_bounds:
  "n \<le> page_count n * PAGE_SIZE" "i < page_count n \<Longrightarrow> i * PAGE_SIZE < n"
  unfolding page_count_def PAGE_SIZE_def by linarith+

text \<open>
  the pages of a listing partition it. Concatenated in order they give exactly the entries of
  the listing, no page is empty or has more than \<open>PAGE_SIZE\<close> entries, a page past the end is empty,
  and below a million pages each name parses back to its index.
\<close>

theorem pages_partition:
  assumes "length xs < 2 ^ 63"
  shows "concat (map (page_slice xs) [0..<page_count (length xs)]) = xs \<and>
    (\<forall>i < page_count (length xs). page_slice xs i \<noteq> [] \<and> length (page_slice xs i) \<le> PAGE_SIZE) \<and>
    (\<forall>i \<ge> page_count (length xs). page_slice xs i = []) \<and>
    (\<forall>i < 10 ^ 6. parse_page_name (page_name i) = Some i)"
proof -
  have small: "page_slice xs i = take PAGE_SIZE (drop (i * PAGE_SIZE) xs)" if "i < page_count (length xs)" for i
    using page_count_bounds(2)[OF that] assms by (intro page_slice_eq) (simp add: u_max_def)
  have "map (page_slice xs) [0..<page_count (length xs)] =
      map (\<lambda>i. take PAGE_SIZE (drop (i * PAGE_SIZE) xs)) [0..<page_count (length xs)]"
    using small by simp
  then have cat: "concat (map (page_slice xs) [0..<page_count (length xs)]) = xs"
    using page_count_bounds(1)[of "length xs"] by (simp only: take_pages take_all)
  have past: "page_slice xs i = []" if "page_count (length xs) \<le> i" for i
  proof -
    have "length xs \<le> i * PAGE_SIZE"
      using page_count_bounds(1)[of "length xs"] mult_le_mono1[OF that, of PAGE_SIZE] by linarith
    then show ?thesis using assms by (simp add: page_slice_def u_sat_mul_def u_max_def Let_def)
  qed
  have "length (show_nat i) \<le> 6" if "i < 10 ^ 6" for i
    using show_nat_length[OF that] by simp
  then have "parse_page_name (page_name i) = Some i" if "i < 10 ^ 6" for i
    using that by (simp add: parse_page_name_def page_name_def PAGE_INDEX_WIDTH_def dec_val_append)
  moreover have "page_slice xs i \<noteq> [] \<and> length (page_slice xs i) \<le> PAGE_SIZE"
    if "i < page_count (length xs)" for i
    using small[OF that] page_count_bounds(2)[OF that] by (simp add: PAGE_SIZE_def)
  ultimately show ?thesis using cat past by blast
qed

theorem pages_partition_witness:
  "concat (map (page_slice (replicate 600 True)) [0..<page_count 600]) = replicate 600 True"
proof -
  have "length (replicate 600 True) < 2 ^ 63" by simp
  from pages_partition[OF this] show ?thesis by (simp only: length_replicate)
qed

end
