(* ===== verification/Audit_Log.thy ===== *)
theory Audit_Log
  imports Vfs_Path "HOL-Library.Countable"
begin

text \<open>
  The hash-chained audit journal: \<open>crates/bloom-proto/src/audit.rs\<close>. A journal file is its bytes
  together with the metadata snapshot the file system reports for it. Each line is the JSON form of a
  record, signed by the service identity in production. The JSON encoder and decoder, the digest, the
  hexadecimal codec and the signature scheme are third-party code: the fields of \<open>audit_lib\<close>, with
  their documented behaviour in \<open>audit_lib_ok\<close>. The clock, the outcome of a write and the
  metadata after it are arguments. The rotation of the signing key is not modelled; the outcomes of
  its two checks at opening are arguments of \<open>open_inner\<close>.
\<close>

section \<open>JSON values\<close>

text \<open>Objects keep the order of their members; numbers are the integers.\<close>

datatype json = JNull | JBool bool | JInt int | JStr string | JArr "json list" | JObj "(string \<times> json) list"

fun json_get :: "json \<Rightarrow> string \<Rightarrow> json option" where
  "json_get (JObj kvs) k = map_of kvs k"
| "json_get _ k = None"

fun json_str :: "json \<Rightarrow> string option" where
  "json_str (JStr s) = Some s"
| "json_str _ = None"

fun json_u64 :: "json \<Rightarrow> nat option" where
  "json_u64 (JInt i) = (if 0 \<le> i \<and> i < 2 ^ 64 then Some (nat i) else None)"
| "json_u64 _ = None"

definition json_index :: "json \<Rightarrow> string \<Rightarrow> json" where
  "json_index j k = (case json_get j k of Some v \<Rightarrow> v | None \<Rightarrow> JNull)"

section \<open>Records, lines, identities\<close>

record audit_record =
  ar_ts_ms :: nat
  ar_kind :: string
  ar_wallet :: "string option"
  ar_chain :: "string option"
  ar_data :: json
  ar_prev :: string
  ar_digest :: string

record signed_audit_line =
  sl_record :: audit_record
  sl_sequence :: nat
  sl_service_id :: string
  sl_key_id :: string
  sl_public_key_hex :: string
  sl_signature_hex :: string

record 'k audit_identity =
  ai_service_id :: string
  ai_key_id :: string
  ai_signing_key :: 'k

record verifier_identity =
  vi_service_id :: string
  vi_key_id :: string
  vi_public_key :: string

record 'k audit_lib =
  al_parse :: "string \<Rightarrow> (string, json) result"
  al_signed :: "string \<Rightarrow> (string, signed_audit_line) result"
  al_plain :: "string \<Rightarrow> (string, audit_record) result"
  al_record_json :: "audit_record \<Rightarrow> string"
  al_line_json :: "signed_audit_line \<Rightarrow> string"
  al_value_json :: "json \<Rightarrow> string"
  al_b3 :: "string \<Rightarrow> string"
  al_hex_encode :: "string \<Rightarrow> string"
  al_hex_decode :: "string \<Rightarrow> string option"
  al_public_key :: "'k \<Rightarrow> string"
  al_sign :: "'k \<Rightarrow> string \<Rightarrow> string"
  al_key_ok :: "string \<Rightarrow> bool"
  al_verify :: "string \<Rightarrow> string \<Rightarrow> string \<Rightarrow> bool"

text \<open>
  A degradation reason is a message whose argument is the set of unresolved effects; \<open>V2\<close> of a set
  with one text is the quoted text.
\<close>

type_synonym reason = "string set msg"

datatype audit_error =
  A_Io string | A_Json string | Broken nat | Degraded reason | SignatureErr nat | IdentityErr nat
  | SequenceErr nat

definition MAX_PENDING_MACHINE_EFFECTS :: nat where "MAX_PENDING_MACHINE_EFFECTS = 64"

definition verifier :: "'k audit_lib \<Rightarrow> 'k audit_identity \<Rightarrow> verifier_identity" where
  "verifier L a = \<lparr>vi_service_id = ai_service_id a, vi_key_id = ai_key_id a,
     vi_public_key = al_public_key L (ai_signing_key a)\<rparr>"

definition audit_signature_bytes ::
  "'k audit_lib \<Rightarrow> nat \<Rightarrow> string \<Rightarrow> string \<Rightarrow> string \<Rightarrow> audit_record \<Rightarrow> string" where
  "audit_signature_bytes L sequence service key pk r =
     ''bloom-service-audit/v1'' @ [nul] @ show_nat sequence @ [nul] @ service @ [nul] @ key @ [nul] @
     pk @ [nul] @ al_record_json L r"

section \<open>Effects\<close>

definition effect_correlation :: "audit_record \<Rightarrow> string option" where
  "effect_correlation r =
     Option.bind
       (case json_get (ar_data r) ''correlation_id'' of
          Some v \<Rightarrow> Some v
        | None \<Rightarrow> Option.bind (json_get (ar_data r) ''details'') (\<lambda>d. json_get d ''correlation_id''))
       json_str"

definition apply_effect_transition :: "string set \<Rightarrow> audit_record \<Rightarrow> string set option" where
  "apply_effect_transition pending r =
     (if ar_kind r = ''machine.effect.intent'' then
        (case effect_correlation r of
           Some c \<Rightarrow>
             if card pending < MAX_PENDING_MACHINE_EFFECTS \<and> c \<notin> pending then Some (insert c pending) else None
         | None \<Rightarrow> None)
      else if ar_kind r = ''machine.effect.result'' then
        (case effect_correlation r of
           Some c \<Rightarrow> if c \<in> pending then Some (pending - {c}) else None
         | None \<Rightarrow> None)
      else Some pending)"

definition pending_effect_degradation :: "string set \<Rightarrow> reason option" where
  "pending_effect_degradation pending =
     (if pending = {} then None
      else Some [S ''external effects '', V pending,
        S '' have durable intents but no results; explicit reconciliation is required''])"

section \<open>Inspecting a journal\<close>

record inspect_state =
  in_prev :: string
  in_sequence :: nat
  in_pending :: "string set"
  in_identity :: "(string \<times> string \<times> string) option"

record verified_tail =
  vt_sequence :: nat
  vt_pending :: "string set"

definition newline :: char where "newline = CHR 0x0A"

text \<open>\<open>BufRead::lines\<close>: a terminator is a line feed with an optional carriage return before it.\<close>

definition strip_cr :: "string \<Rightarrow> string" where
  "strip_cr s = (if s \<noteq> [] \<and> last s = CHR 0x0D then butlast s else s)"

definition buf_lines :: "string \<Rightarrow> string list" where
  "buf_lines s =
     (let ts = split_on newline s; body = map strip_cr (butlast ts)
      in if last ts = [] then body else body @ [last ts])"

definition checked_succ :: "nat \<Rightarrow> nat option" where
  "checked_succ n = (if n + 1 < 2 ^ 64 then Some (n + 1) else None)"

definition hex_array :: "'k audit_lib \<Rightarrow> nat \<Rightarrow> string \<Rightarrow> string option" where
  "hex_array L n s = Option.bind (al_hex_decode L s) (\<lambda>b. if length b = n then Some b else None)"

definition GENESIS :: string where "GENESIS = ''machine.audit.key_rotation.genesis''"

definition verify_rotation_genesis ::
  "'k audit_lib \<Rightarrow> signed_audit_line \<Rightarrow> nat \<Rightarrow> (audit_error, unit) result" where
  "verify_rotation_genesis L l i =
     (case json_get (ar_data (sl_record l)) ''authorization'' of
        None \<Rightarrow> Err (SignatureErr i)
      | Some authorization \<Rightarrow>
          let field = (\<lambda>k. Option.bind (json_get authorization k) json_str);
              bytes = (\<lambda>k n. Option.bind (Option.bind (json_get (ar_data (sl_record l)) k) json_str) (hex_array L n))
          in if field ''domain'' \<noteq> Some ''bloom-audit-key-rotation/v1'' \<or>
                field ''service_id'' \<noteq> Some (sl_service_id l) \<or>
                field ''new_key_id'' \<noteq> Some (sl_key_id l) \<or>
                field ''new_public_key_hex'' \<noteq> Some (sl_public_key_hex l)
             then Err (IdentityErr i)
             else
               and_then (ok_or (bytes ''old_public_key_hex'' 32) (SignatureErr i)) (\<lambda>old_public.
               and_then (ok_or (bytes ''old_authorization_hex'' 64) (SignatureErr i)) (\<lambda>old_signature.
                 if al_key_ok L old_public \<and> al_verify L old_public (al_value_json L authorization) old_signature
                 then Ok () else Err (SignatureErr i))))"

definition expected_sequence :: "inspect_state \<Rightarrow> audit_record \<Rightarrow> nat option" where
  "expected_sequence st r =
     (if in_sequence st = 0 \<and> ar_kind r = GENESIS
      then Option.bind (json_u64 (json_index (json_index (ar_data r) ''authorization'') ''old_sequence'')) checked_succ
      else checked_succ (in_sequence st))"

definition inspect_signed ::
  "'k audit_lib \<Rightarrow> verifier_identity option \<Rightarrow> nat \<Rightarrow> signed_audit_line \<Rightarrow> inspect_state \<Rightarrow>
   (audit_error, inspect_state) result" where
  "inspect_signed L ident i l st =
     and_then (ok_or (expected_sequence st (sl_record l)) (SequenceErr i)) (\<lambda>expected.
     if sl_sequence l \<noteq> expected then Err (SequenceErr i) else
     and_then (ok_or (hex_array L 32 (sl_public_key_hex l)) (SignatureErr i)) (\<lambda>key.
     if (case ident of
           Some v \<Rightarrow> sl_service_id l \<noteq> vi_service_id v \<or> sl_key_id l \<noteq> vi_key_id v \<or> key \<noteq> vi_public_key v
         | None \<Rightarrow> False) then Err (IdentityErr i) else
     if (case in_identity st of
           Some (service, key_id, public) \<Rightarrow> service \<noteq> sl_service_id l \<or> key_id \<noteq> sl_key_id l \<or> public \<noteq> key
         | None \<Rightarrow> False) then Err (IdentityErr i) else
     and_then (ok_or (hex_array L 64 (sl_signature_hex l)) (SignatureErr i)) (\<lambda>signature.
     if \<not> al_key_ok L key then Err (SignatureErr i) else
     if \<not> al_verify L key (audit_signature_bytes L (sl_sequence l) (sl_service_id l) (sl_key_id l)
            (sl_public_key_hex l) (sl_record l)) signature then Err (SignatureErr i) else
     and_then (if ar_kind (sl_record l) = GENESIS then verify_rotation_genesis L l i else Ok ()) (\<lambda>_.
     Ok (st\<lparr>in_sequence := sl_sequence l,
            in_identity := Some (sl_service_id l, sl_key_id l, key)\<rparr>)))))"

definition inspect_effect :: "nat \<Rightarrow> audit_record \<Rightarrow> string set \<Rightarrow> (audit_error, string set) result" where
  "inspect_effect i r pending =
     (if ar_kind r = ''machine.effect.intent'' then
        and_then (ok_or (effect_correlation r) (Broken i)) (\<lambda>c.
          if card pending \<ge> MAX_PENDING_MACHINE_EFFECTS \<or> c \<in> pending then Err (Broken i)
          else Ok (insert c pending))
      else if ar_kind r = ''machine.effect.result'' then
        and_then (ok_or (effect_correlation r) (Broken i)) (\<lambda>c.
          if c \<notin> pending then Err (Broken i) else Ok (pending - {c}))
      else Ok pending)"

definition record_digest :: "'k audit_lib \<Rightarrow> audit_record \<Rightarrow> string" where
  "record_digest L r = al_b3 L (al_record_json L (r\<lparr>ar_digest := []\<rparr>))"

definition inspect_record ::
  "'k audit_lib \<Rightarrow> nat \<Rightarrow> audit_record \<Rightarrow> inspect_state \<Rightarrow> (audit_error, inspect_state) result" where
  "inspect_record L i r st =
     (if ar_prev r \<noteq> in_prev st then Err (Broken i)
      else if record_digest L r \<noteq> ar_digest r then Err (Broken i)
      else and_then (inspect_effect i r (in_pending st)) (\<lambda>pending.
        Ok (st\<lparr>in_prev := ar_digest r, in_pending := pending\<rparr>)))"

definition inspect_line ::
  "'k audit_lib \<Rightarrow> verifier_identity option \<Rightarrow> nat \<Rightarrow> string \<Rightarrow> inspect_state \<Rightarrow>
   (audit_error, inspect_state) result" where
  "inspect_line L ident i raw st =
     (if \<not> utf8_valid raw then Err (A_Io ''stream did not contain valid UTF-8'')
      else if raw = [] then Ok st
      else and_then (map_err A_Json (al_parse L raw)) (\<lambda>v.
        if json_get v ''sequence'' = None then
          if ident \<noteq> None then Err (SignatureErr i)
          else and_then (map_err A_Json (al_plain L raw)) (\<lambda>r. inspect_record L i r st)
        else
          and_then (map_err A_Json (al_signed L raw)) (\<lambda>l.
          and_then (inspect_signed L ident i l st) (\<lambda>st'. inspect_record L i (sl_record l) st'))))"

fun inspect_lines ::
  "'k audit_lib \<Rightarrow> verifier_identity option \<Rightarrow> nat \<Rightarrow> string list \<Rightarrow> inspect_state \<Rightarrow>
   (audit_error, inspect_state) result" where
  "inspect_lines L ident i [] st = Ok st"
| "inspect_lines L ident i (raw # raws) st =
     and_then (inspect_line L ident i raw st) (inspect_lines L ident (i + 1) raws)"

definition inspect_init :: inspect_state where
  "inspect_init = \<lparr>in_prev = [], in_sequence = 0, in_pending = {}, in_identity = None\<rparr>"

definition inspect ::
  "'k audit_lib \<Rightarrow> verifier_identity option \<Rightarrow> string option \<Rightarrow> (audit_error, string \<times> verified_tail) result" where
  "inspect L ident content =
     (case content of
        None \<Rightarrow> Ok ([], \<lparr>vt_sequence = 0, vt_pending = {}\<rparr>)
      | Some c \<Rightarrow>
          if c \<noteq> [] \<and> last c \<noteq> newline
          then Err (Degraded [S ''audit journal is not newline-terminated''])
          else and_then (inspect_lines L ident 1 (buf_lines c) inspect_init) (\<lambda>st.
            Ok (in_prev st, \<lparr>vt_sequence = in_sequence st, vt_pending = in_pending st\<rparr>)))"

section \<open>The open log\<close>

text \<open>A journal on disk: the metadata snapshot of the file and its bytes, or no file.\<close>

type_synonym 's journal = "('s \<times> string) option"

record ('k, 's) audit_inner =
  last_digest :: string
  ag_sequence :: nat
  pending_effects :: "string set"
  ag_snapshot :: "'s option"
  ag_identity :: "'k audit_identity option"
  degraded :: "reason option"
  degradation_latched :: bool

definition journal_snapshot :: "'s journal \<Rightarrow> 's option" where
  "journal_snapshot d = map_option fst d"

definition journal_bytes :: "'s journal \<Rightarrow> string option" where
  "journal_bytes d = map_option snd d"

definition latch_degradation :: "reason \<Rightarrow> ('k, 's) audit_inner \<Rightarrow> ('k, 's) audit_inner" where
  "latch_degradation why g =
     g\<lparr>degradation_latched := True,
       degraded := (case degraded g of None \<Rightarrow> Some why | Some w \<Rightarrow> Some w)\<rparr>"

text \<open>
  What the environment does during one append: the clock, a failure to read the metadata, the outcome
  of the write (the metadata after it, or an error and whatever the file then holds), and a failure to
  sync the directory of a new file.
\<close>

datatype 's write_outcome = Committed 's | WriteFailed string "'s journal"

record 's append_env =
  env_now :: nat
  env_stat_error :: "string option"
  env_write :: "'s write_outcome"
  env_parent_error :: "string option"

definition chained :: "'k audit_lib \<Rightarrow> nat \<Rightarrow> ('k, 's) audit_inner \<Rightarrow> audit_record \<Rightarrow> audit_record" where
  "chained L now g r =
     (let r1 = r\<lparr>ar_prev := last_digest g, ar_ts_ms := now, ar_digest := []\<rparr>
      in r1\<lparr>ar_digest := al_b3 L (al_record_json L r1)\<rparr>)"

definition sign_line ::
  "'k audit_lib \<Rightarrow> 'k audit_identity \<Rightarrow> nat \<Rightarrow> audit_record \<Rightarrow> signed_audit_line" where
  "sign_line L a sequence r =
     (let pk = al_hex_encode L (al_public_key L (ai_signing_key a))
      in \<lparr>sl_record = r, sl_sequence = sequence, sl_service_id = ai_service_id a, sl_key_id = ai_key_id a,
          sl_public_key_hex = pk,
          sl_signature_hex = al_hex_encode L (al_sign L (ai_signing_key a)
            (audit_signature_bytes L sequence (ai_service_id a) (ai_key_id a) pk r))\<rparr>)"

definition journal_line ::
  "'k audit_lib \<Rightarrow> ('k, 's) audit_inner \<Rightarrow> audit_record \<Rightarrow> (audit_error, string) result" where
  "journal_line L g r =
     (case ag_identity g of
        None \<Rightarrow> Ok (al_record_json L r)
      | Some a \<Rightarrow>
          and_then (ok_or (checked_succ (ag_sequence g)) (Degraded [S ''audit sequence exhausted''])) (\<lambda>n.
            Ok (al_line_json L (sign_line L a n r))))"

definition appended :: "'s journal \<Rightarrow> string \<Rightarrow> string" where
  "appended d line = (case d of Some (_, c) \<Rightarrow> c | None \<Rightarrow> []) @ line @ [newline]"

definition append_locked ::
  "'k audit_lib \<Rightarrow> 's append_env \<Rightarrow> bool \<Rightarrow> audit_record \<Rightarrow> ('k, 's) audit_inner \<times> 's journal \<Rightarrow>
   (audit_error, audit_record) result \<times> ('k, 's) audit_inner \<times> 's journal" where
  "append_locked L env allow r s =
     (let (g, d) = s;
          refuse = (\<lambda>why. (Err (Degraded why), latch_degradation why g, d))
      in case (if allow then None else degraded g) of
        Some why \<Rightarrow> (Err (Degraded why), g, d)
      | None \<Rightarrow>
        (case env_stat_error env of
           Some e \<Rightarrow> refuse [S e]
         | None \<Rightarrow>
           if journal_snapshot d \<noteq> ag_snapshot g
           then refuse [S ''journal changed since its last verified mutation'']
           else case apply_effect_transition (pending_effects g) r of
             None \<Rightarrow> refuse [S ''audit effect transition is invalid'']
           | Some pending \<Rightarrow>
             (let r' = chained L (env_now env) g r
              in case journal_line L g r' of
                Inl e \<Rightarrow> (Err e, g, d)
              | Inr line \<Rightarrow>
                (case env_write env of
                   WriteFailed e d' \<Rightarrow> (Err (A_Io e), latch_degradation [S e] g, d')
                 | Committed snap \<Rightarrow>
                   (case (if d = None then env_parent_error env else None) of
                      Some e \<Rightarrow>
                        (Err (A_Io e), latch_degradation [S ''io error: '', S e] g,
                         Some (snap, appended d line))
                    | None \<Rightarrow>
                      (Ok r',
                       g\<lparr>last_digest := ar_digest r', pending_effects := pending, ag_snapshot := Some snap,
                         ag_sequence := (if ag_identity g = None then ag_sequence g else ag_sequence g + 1)\<rparr>,
                       Some (snap, appended d line)))))))"

definition audit_append ::
  "'k audit_lib \<Rightarrow> 's append_env \<Rightarrow> audit_record \<Rightarrow> ('k, 's) audit_inner \<times> 's journal \<Rightarrow>
   (audit_error, audit_record) result \<times> ('k, 's) audit_inner \<times> 's journal" where
  "audit_append L env r s = append_locked L env False r s"

definition latch_mutations :: "string \<Rightarrow> ('k, 's) audit_inner \<Rightarrow> ('k, 's) audit_inner" where
  "latch_mutations why g = latch_degradation [S why] g"

definition ident_of :: "'k audit_lib \<Rightarrow> ('k, 's) audit_inner \<Rightarrow> verifier_identity option" where
  "ident_of L g = map_option (verifier L) (ag_identity g)"

definition pending_effect_correlations ::
  "'k audit_lib \<Rightarrow> ('k, 's) audit_inner \<times> 's journal \<Rightarrow> (audit_error, string set) result" where
  "pending_effect_correlations L s =
     (let (g, d) = s
      in if \<not> degradation_latched g \<and> journal_snapshot d = ag_snapshot g then Ok (pending_effects g)
         else and_then (inspect L (ident_of L g) (journal_bytes d)) (\<lambda>(_, tail). Ok (vt_pending tail)))"

definition reconcile_record :: "string \<Rightarrow> string \<Rightarrow> audit_record" where
  "reconcile_record correlation outcome =
     \<lparr>ar_ts_ms = 0, ar_kind = ''machine.effect.result'', ar_wallet = None, ar_chain = None,
      ar_data = JObj [(''operation'', JStr ''operator.reconcile''), (''correlation_id'', JStr correlation),
        (''outcome'', JStr outcome),
        (''result'', JObj [(''source'', JStr ''explicit_local_operator_reconciliation''),
                           (''redispatched'', JBool False)])],
      ar_prev = [], ar_digest = []\<rparr>"

definition reconcile_refusal :: "string \<Rightarrow> string \<Rightarrow> string \<Rightarrow> ('k, 's) audit_inner \<Rightarrow> reason option" where
  "reconcile_refusal correlation outcome confirmation g =
     (let expected = ''RECONCILE MACHINE AUDIT '' @ correlation @ '' AS '' @ to_ascii_uppercase outcome
      in if outcome \<notin> {''committed'', ''aborted''} then
           Some [S ''reconciliation outcome must be committed or aborted'']
         else if confirmation \<noteq> expected then
           Some [S ''confirmation must exactly equal '', V2 {expected}]
         else if ag_identity g = None then
           Some [S ''unsigned test journals cannot use production reconciliation'']
         else None)"

definition unresolved_refusal :: "string \<Rightarrow> ('k, 's) audit_inner \<Rightarrow> string set \<Rightarrow> reason option" where
  "unresolved_refusal correlation g pending =
     (if correlation \<notin> pending then
        Some [S ''requested correlation is not the journal's unresolved effect'']
      else if degradation_latched g \<or> degraded g \<noteq> pending_effect_degradation pending then
        (case degraded g of Some why \<Rightarrow> Some why
         | None \<Rightarrow> Some [S ''audit reconciliation refused because the active degradation is not solely an unresolved effect''])
      else None)"

definition reconcile_close ::
  "'k audit_lib \<Rightarrow> 's append_env \<Rightarrow> audit_record \<Rightarrow> ('k, 's) audit_inner \<times> 's journal \<Rightarrow>
   (audit_error, audit_record) result \<times> ('k, 's) audit_inner \<times> 's journal" where
  "reconcile_close L env r s =
     (case append_locked L env True r s of
        (Inl e, s') \<Rightarrow> (Err e, s')
      | (Inr r', g, d) \<Rightarrow>
          (case inspect L (ident_of L g) (journal_bytes d) of
             Inl e \<Rightarrow> (Err e, g, d)
           | Inr (_, tail) \<Rightarrow>
               (Ok r',
                g\<lparr>pending_effects := vt_pending tail, ag_snapshot := journal_snapshot d,
                  degraded := pending_effect_degradation (vt_pending tail)\<rparr>,
                d)))"

definition reconcile_pending_effect ::
  "'k audit_lib \<Rightarrow> 's append_env \<Rightarrow> string \<Rightarrow> string \<Rightarrow> string \<Rightarrow> ('k, 's) audit_inner \<times> 's journal \<Rightarrow>
   (audit_error, audit_record) result \<times> ('k, 's) audit_inner \<times> 's journal" where
  "reconcile_pending_effect L env correlation outcome confirmation s =
     (let (g, d) = s
      in case reconcile_refusal correlation outcome confirmation g of
        Some why \<Rightarrow> (Err (Degraded why), s)
      | None \<Rightarrow>
        (case inspect L (ident_of L g) (journal_bytes d) of
           Inl e \<Rightarrow> (Err e, s)
         | Inr (digest, tail) \<Rightarrow>
           (case unresolved_refusal correlation g (vt_pending tail) of
              Some why \<Rightarrow> (Err (Degraded why), s)
            | None \<Rightarrow>
              reconcile_close L env (reconcile_record correlation outcome)
                (g\<lparr>last_digest := digest, ag_sequence := vt_sequence tail,
                   pending_effects := vt_pending tail, ag_snapshot := journal_snapshot d\<rparr>, d))))"

text \<open>
  Opening. The bytes are those read between the two metadata snapshots; a different snapshot at the
  end means the journal changed meanwhile. The outcomes of the rotation recovery and of the rotation
  history check are arguments.
\<close>

record open_checks =
  rotation_recovery_error :: "string option"
  history_error :: "string option"

definition or_else :: "'a option \<Rightarrow> 'a option \<Rightarrow> 'a option" where
  "or_else a b = (case a of Some x \<Rightarrow> Some x | None \<Rightarrow> b)"

definition audit_error_text :: "audit_error \<Rightarrow> reason" where
  "audit_error_text e =
     (case e of
        A_Io m \<Rightarrow> [S ''io error: '', S m]
      | A_Json m \<Rightarrow> [S ''json error: '', S m]
      | Broken i \<Rightarrow> [S ''audit chain broken at line '', S (show_nat i), S '': prev hash mismatch'']
      | Degraded w \<Rightarrow> S ''audit journal is degraded: '' # w
      | SignatureErr i \<Rightarrow> [S ''audit signature invalid at line '', S (show_nat i)]
      | IdentityErr i \<Rightarrow> [S ''audit identity mismatch at line '', S (show_nat i)]
      | SequenceErr i \<Rightarrow> [S ''audit sequence invalid at line '', S (show_nat i)])"

fun first_nonempty_line_is_signed :: "'k audit_lib \<Rightarrow> string list \<Rightarrow> (audit_error, bool) result" where
  "first_nonempty_line_is_signed L [] = Ok False"
| "first_nonempty_line_is_signed L (raw # raws) =
     (if \<not> utf8_valid raw then Err (A_Io ''stream did not contain valid UTF-8'')
      else if raw = [] then first_nonempty_line_is_signed L raws
      else and_then (map_err A_Json (al_parse L raw)) (\<lambda>v. Ok (json_get v ''sequence'' \<noteq> None)))"

definition journal_is_signed :: "'k audit_lib \<Rightarrow> 's journal \<Rightarrow> (audit_error, bool) result" where
  "journal_is_signed L d =
     (case d of None \<Rightarrow> Ok False | Some (_, c) \<Rightarrow> first_nonempty_line_is_signed L (buf_lines c))"

text \<open>
  An unsigned predecessor is verified and moved aside before the first signed record binds it. The
  journal and the preserved file are the two arguments; the texts are the two displayed paths and the
  file name of the preserved one.
\<close>

record legacy_binding =
  lb_head :: string
  lb_count :: nat
  lb_source_blake3 :: string
  lb_preserved_name :: string

definition legacy_values ::
  "'k audit_lib \<Rightarrow> string \<Rightarrow> string \<Rightarrow> (audit_error, legacy_binding option) result" where
  "legacy_values L name c =
     and_then (inspect L None (Some c)) (\<lambda>(head, tail).
       if \<not> utf8_valid c then Err (Degraded [S ''legacy audit is not UTF-8''])
       else if vt_sequence tail \<noteq> 0 \<or> vt_pending tail \<noteq> {}
       then Err (Degraded [S ''legacy predecessor is not an unsigned v0 journal''])
       else Ok (Some \<lparr>lb_head = head, lb_count = length (filter (\<lambda>l. l \<noteq> []) (buf_lines c)),
                      lb_source_blake3 = al_b3 L c, lb_preserved_name = name\<rparr>))"

definition prepare_legacy_migration ::
  "'k audit_lib \<Rightarrow> string \<Rightarrow> string \<Rightarrow> string \<Rightarrow> 's journal \<times> 's journal \<Rightarrow>
   (audit_error, legacy_binding option) result \<times> 's journal \<times> 's journal" where
  "prepare_legacy_migration L path preserved_path name files =
     (let (d, preserved) = files
      in case d of
        Some (snap, c) \<Rightarrow>
          (case journal_is_signed L d of
             Inl e \<Rightarrow> (Err e, files)
           | Inr True \<Rightarrow> (Ok None, files)
           | Inr False \<Rightarrow>
               if preserved \<noteq> None then
                 (Err (Degraded [S ''both unsigned journal '', S path, S '' and preserved predecessor '',
                    S preserved_path, S '' exist'']), files)
               else (case inspect L None (Some c) of
                   Inl e \<Rightarrow> (Err e, files)
                 | Inr _ \<Rightarrow> (legacy_values L name c, None, Some (snap, c))))
      | None \<Rightarrow>
          (case preserved of
             None \<Rightarrow> (Ok None, files)
           | Some (_, c) \<Rightarrow> (legacy_values L name c, files)))"

definition legacy_genesis :: "legacy_binding \<Rightarrow> audit_record" where
  "legacy_genesis b =
     \<lparr>ar_ts_ms = 0, ar_kind = ''machine.audit.legacy_genesis'', ar_wallet = None, ar_chain = None,
      ar_data = JObj [(''legacy_schema'', JStr ''bloom-unsigned-audit/v0''),
        (''legacy_head'', JStr (lb_head b)), (''legacy_count'', JInt (int (lb_count b))),
        (''legacy_source_blake3'', JStr (lb_source_blake3 b)),
        (''preserved_as'', JStr (lb_preserved_name b))],
      ar_prev = [], ar_digest = []\<rparr>"

record ('k, 's) open_args =
  oa_identity :: "'k audit_identity option"
  oa_checks :: open_checks
  oa_paths :: "string \<times> string \<times> string"
  oa_meanwhile :: "'s journal option"
  oa_env :: "'s append_env"

definition open_log ::
  "'k audit_lib \<Rightarrow> ('k, 's) open_args \<Rightarrow> reason option \<Rightarrow> 's journal \<Rightarrow> 's journal \<Rightarrow>
   (audit_error, ('k, 's) audit_inner) result" where
  "open_log L oa legacy d d_end =
     (let ident = map_option (verifier L) (oa_identity oa);
          text = map_option (\<lambda>e. [S e]);
          changed = (if journal_snapshot d_end \<noteq> journal_snapshot d
                     then Some [S ''journal changed while it was being verified''] else None);
          rotation = text (rotation_recovery_error (oa_checks oa));
          history = text (history_error (oa_checks oa));
          build = (\<lambda>digest tail why latched.
            \<lparr>last_digest = digest, ag_sequence = vt_sequence tail, pending_effects = vt_pending tail,
             ag_snapshot = journal_snapshot d_end, ag_identity = oa_identity oa,
             degraded = or_else changed (or_else legacy (or_else why (or_else rotation history))),
             degradation_latched = (latched \<or> changed \<noteq> None \<or> legacy \<noteq> None \<or> rotation \<noteq> None \<or> history \<noteq> None)\<rparr>)
      in case inspect L ident (journal_bytes d) of
           Inr (digest, tail) \<Rightarrow> Ok (build digest tail (pending_effect_degradation (vt_pending tail)) False)
         | Inl e \<Rightarrow>
             if oa_identity oa = None then Err e
             else Ok (build [] \<lparr>vt_sequence = 0, vt_pending = {}\<rparr> (Some (audit_error_text e)) True))"

definition open_inner ::
  "'k audit_lib \<Rightarrow> ('k, 's) open_args \<Rightarrow> 's journal \<times> 's journal \<Rightarrow>
   (audit_error, ('k, 's) audit_inner) result \<times> 's journal \<times> 's journal" where
  "open_inner L oa files =
     (case (if oa_identity oa = None then journal_is_signed L (fst files) else Ok False) of
        Inl e \<Rightarrow> (Err e, files)
      | Inr True \<Rightarrow>
          (Err (Degraded [S ''refusing to reopen a signed audit journal without its application identity'']), files)
      | Inr False \<Rightarrow>
          (let (path, preserved_path, name) = oa_paths oa;
               (migrated, d, preserved) =
                 (if oa_identity oa = None then (Ok None, files)
                  else prepare_legacy_migration L path preserved_path name files);
               (binding, migration_error) =
                 (case migrated of Inr b \<Rightarrow> (b, None) | Inl e \<Rightarrow> (None, Some (audit_error_text e)));
               d_end = (case oa_meanwhile oa of
                   Some d' \<Rightarrow> if journal_snapshot d' = journal_snapshot d then d else d'
                 | None \<Rightarrow> d)
           in case open_log L oa migration_error d d_end of
                Inl e \<Rightarrow> (Err e, d_end, preserved)
              | Inr g \<Rightarrow>
                (case binding of
                   None \<Rightarrow> (Ok g, d_end, preserved)
                 | Some b \<Rightarrow>
                   (case audit_append L (oa_env oa) (legacy_genesis b) (g, d_end) of
                      (Inl e, _, d') \<Rightarrow> (Err e, d', preserved)
                    | (Inr _, g', d') \<Rightarrow> (Ok g', d', preserved)))))"

text \<open>Reading records back: \<open>count\<close> and \<open>tail\<close>, the latter over a window of at most \<open>n\<close> records.\<close>

definition lines_io :: "string list \<Rightarrow> (audit_error, string list) result" where
  "lines_io raws = (if list_all utf8_valid raws then Ok raws else Err (A_Io ''stream did not contain valid UTF-8''))"

definition audit_count :: "'s journal \<Rightarrow> (audit_error, nat) result" where
  "audit_count d =
     (case d of
        None \<Rightarrow> Ok 0
      | Some (_, c) \<Rightarrow> and_then (lines_io (buf_lines c)) (\<lambda>raws. Ok (length (filter (\<lambda>l. l \<noteq> []) raws))))"

definition decode_record :: "'k audit_lib \<Rightarrow> string \<Rightarrow> (string, audit_record) result" where
  "decode_record L raw =
     and_then (al_parse L raw) (\<lambda>v.
       if json_get v ''sequence'' \<noteq> None then and_then (al_signed L raw) (\<lambda>l. Ok (sl_record l))
       else al_plain L raw)"

fun tail_window :: "'k audit_lib \<Rightarrow> nat \<Rightarrow> string list \<Rightarrow> audit_record list \<Rightarrow> audit_record list" where
  "tail_window L n [] buf = buf"
| "tail_window L n (raw # raws) buf =
     (if raw = [] then tail_window L n raws buf
      else case decode_record L raw of
        Inl _ \<Rightarrow> tail_window L n raws buf
      | Inr r \<Rightarrow> tail_window L n raws ((if length buf = n then tl buf else buf) @ [r]))"

definition audit_tail :: "'k audit_lib \<Rightarrow> nat \<Rightarrow> 's journal \<Rightarrow> (audit_error, audit_record list) result" where
  "audit_tail L n d =
     (case d of
        None \<Rightarrow> Ok []
      | Some (_, c) \<Rightarrow>
          if n = 0 then Ok [] else and_then (lines_io (buf_lines c)) (\<lambda>raws. Ok (tail_window L n raws [])))"

section \<open>What the library promises\<close>

text \<open>
  A JSON object has distinct keys; compact JSON text has no control characters. Encoding and decoding
  are inverse on records and lines within the machine integers, decoding gives such records, only lines of the signed form have a
  \<open>sequence\<close> member, hexadecimal text decodes to what it encodes, and a signature verifies under the
  public key of its signing key. The digest text is not empty.
\<close>

fun json_ok :: "json \<Rightarrow> bool" where
  "json_ok (JObj kvs) \<longleftrightarrow> distinct (map fst kvs) \<and> list_all (\<lambda>(k, v). json_ok v) kvs"
| "json_ok (JArr vs) \<longleftrightarrow> list_all json_ok vs"
| "json_ok _ \<longleftrightarrow> True"

definition audit_record_ok :: "audit_record \<Rightarrow> bool" where
  "audit_record_ok r \<longleftrightarrow> json_ok (ar_data r) \<and> ar_ts_ms r < 2 ^ 64"

definition compact_text :: "string \<Rightarrow> bool" where
  "compact_text s \<longleftrightarrow> s \<noteq> [] \<and> utf8_valid s \<and> list_all (\<lambda>c. 32 \<le> byte c) s"

definition audit_lib_ok :: "'k audit_lib \<Rightarrow> bool" where
  "audit_lib_ok L \<longleftrightarrow>
     (\<forall>r. audit_record_ok r \<longrightarrow>
        (\<exists>v. al_parse L (al_record_json L r) = Ok v \<and> json_get v ''sequence'' = None) \<and>
        al_plain L (al_record_json L r) = Ok r \<and> compact_text (al_record_json L r)) \<and>
     (\<forall>l. audit_record_ok (sl_record l) \<and> sl_sequence l < 2 ^ 64 \<longrightarrow>
        (\<exists>v. al_parse L (al_line_json L l) = Ok v \<and> json_get v ''sequence'' \<noteq> None) \<and>
        al_signed L (al_line_json L l) = Ok l \<and> compact_text (al_line_json L l)) \<and>
     (\<forall>raw r. al_plain L raw = Ok r \<longrightarrow> audit_record_ok r) \<and>
     (\<forall>raw l. al_signed L raw = Ok l \<longrightarrow> audit_record_ok (sl_record l)) \<and>
     (\<forall>b. al_hex_decode L (al_hex_encode L b) = Some b) \<and>
     (\<forall>k m. length (al_public_key L k) = 32 \<and> al_key_ok L (al_public_key L k) \<and>
        length (al_sign L k m) = 64 \<and> al_verify L (al_public_key L k) m (al_sign L k m)) \<and>
     (\<forall>x. al_b3 L x \<noteq> [])"

lemma audit_lib_okD:
  assumes "audit_lib_ok L"
  shows "audit_record_ok r \<Longrightarrow> \<exists>v. al_parse L (al_record_json L r) = Ok v \<and> json_get v ''sequence'' = None"
    "audit_record_ok r \<Longrightarrow> al_plain L (al_record_json L r) = Ok r"
    "audit_record_ok r \<Longrightarrow> compact_text (al_record_json L r)"
    "audit_record_ok (sl_record l) \<Longrightarrow> sl_sequence l < 2 ^ 64 \<Longrightarrow>
       \<exists>v. al_parse L (al_line_json L l) = Ok v \<and> json_get v ''sequence'' \<noteq> None"
    "audit_record_ok (sl_record l) \<Longrightarrow> sl_sequence l < 2 ^ 64 \<Longrightarrow> al_signed L (al_line_json L l) = Ok l"
    "audit_record_ok (sl_record l) \<Longrightarrow> sl_sequence l < 2 ^ 64 \<Longrightarrow> compact_text (al_line_json L l)"
    "hex_array L 32 (al_hex_encode L (al_public_key L k)) = Some (al_public_key L k)"
    "hex_array L 64 (al_hex_encode L (al_sign L k m)) = Some (al_sign L k m)"
    "al_key_ok L (al_public_key L k)" "al_verify L (al_public_key L k) m (al_sign L k m)"
    "al_b3 L x \<noteq> []" "al_plain L raw = Ok r \<Longrightarrow> audit_record_ok r" "al_signed L raw = Ok l \<Longrightarrow> audit_record_ok (sl_record l)"
  using assms unfolding audit_lib_ok_def hex_array_def by auto

section \<open>Appending to a verified journal\<close>

lemma compact_line: "compact_text s \<Longrightarrow> newline \<notin> set s" "compact_text s \<Longrightarrow> strip_cr s = s"
  by (auto simp: compact_text_def newline_def strip_cr_def list_all_iff byte_def dest!: last_in_set)

lemma split_on_last: "s = [] \<or> last s = d \<Longrightarrow> last (split_on d s) = []"
proof (cases "s = []")
  case False
  assume "s = [] \<or> last s = d"
  then have "s = butlast s @ d # []" using False by (metis append_butlast_last_id)
  then show ?thesis using split_on_snoc[of d "[]" "butlast s"] by (metis last_snoc empty_iff empty_set)
qed simp

lemma buf_lines_append:
  assumes "c = [] \<or> last c = newline" "compact_text line"
  shows "buf_lines (c @ line @ [newline]) = buf_lines c @ [line]"
proof -
  have "split_on newline (c @ line @ newline # []) = butlast (split_on newline c) @ [line, []]"
  proof (cases "c = []")
    case True
    then show ?thesis using split_on_append[OF compact_line(1)[OF assms(2)], of "[]"] by simp
  next
    case False
    then have c: "c = butlast c @ [newline]" using assms(1) by (metis append_butlast_last_id)
    have "split_on newline (butlast c @ newline # []) = split_on newline (butlast c) @ [[]]"
      by (rule split_on_snoc) simp
    then have "butlast (split_on newline c) = split_on newline (butlast c)" using c by (metis butlast_snoc append.assoc append_Cons append_Nil)
    moreover have "split_on newline (butlast c @ newline # line @ newline # []) =
        split_on newline (butlast c @ newline # line) @ [[]]"
      using split_on_snoc[of newline "[]" "butlast c @ newline # line"] by simp
    ultimately show ?thesis
      using c split_on_snoc[OF compact_line(1)[OF assms(2)], of "butlast c"]
      by (metis append.assoc append_Cons append_Nil)
  qed
  then show ?thesis
    using split_on_last[OF assms(1)] compact_line(2)[OF assms(2)]
    by (simp add: buf_lines_def Let_def butlast_append)
qed

lemma inspect_lines_append:
  "inspect_lines L ident i (xs @ ys) st =
     and_then (inspect_lines L ident i xs st) (inspect_lines L ident (i + length xs) ys)"
proof (induction xs arbitrary: i st)
  case (Cons x xs)
  then show ?case by (cases "inspect_line L ident i x st") simp_all
qed simp

lemma inspect_effect_eq:
  "inspect_effect i r pending = ok_or (apply_effect_transition pending r) (Broken i)"
  by (auto simp: inspect_effect_def apply_effect_transition_def ok_or_def split: option.splits)

text \<open>Under an expected identity, every inspected line carries that identity.\<close>

definition same_identity :: "verifier_identity option \<Rightarrow> inspect_state \<Rightarrow> bool" where
  "same_identity ident st \<longleftrightarrow>
     (case ident of
        None \<Rightarrow> True
      | Some v \<Rightarrow> in_identity st \<in> {None, Some (vi_service_id v, vi_key_id v, vi_public_key v)})"

lemma inspect_signed_identity: "inspect_signed L ident i l st = Ok st' \<Longrightarrow> same_identity ident st'"
  by (auto simp: inspect_signed_def and_then_Ok_iff same_identity_def split: if_splits option.splits)

lemma inspect_line_identity:
  assumes "inspect_line L ident i raw st = Ok st'" "same_identity ident st"
  shows "same_identity ident st'"
  using assms inspect_signed_identity[of L ident i _ st]
  by (fastforce simp: inspect_line_def inspect_record_def and_then_Ok_iff same_identity_def
      split: if_splits option.splits)

lemma inspect_lines_identity:
  "inspect_lines L ident i raws st = Ok st' \<Longrightarrow> same_identity ident st \<Longrightarrow> same_identity ident st'"
proof (induction raws arbitrary: i st)
  case (Cons raw raws)
  then show ?case using inspect_line_identity by (fastforce simp: and_then_Ok_iff)
qed simp

lemma inspect_Ok:
  "inspect L ident (Some c) = Ok (digest, tail) \<longleftrightarrow>
     (c = [] \<or> last c = newline) \<and>
     (\<exists>st. inspect_lines L ident 1 (buf_lines c) inspect_init = Ok st \<and> in_prev st = digest \<and>
           tail = \<lparr>vt_sequence = in_sequence st, vt_pending = in_pending st\<rparr>)"
  by (auto simp: inspect_def and_then_Ok_iff)

lemma inspect_missing: "inspect L ident None = inspect L ident (Some [])"
  by (simp add: inspect_def buf_lines_def inspect_init_def)

definition bytes_of :: "'s journal \<Rightarrow> string" where
  "bytes_of d = (case d of Some (_, c) \<Rightarrow> c | None \<Rightarrow> [])"

lemma inspect_journal: "inspect L ident (journal_bytes d) = inspect L ident (Some (bytes_of d))"
  by (cases d) (auto simp: journal_bytes_def bytes_of_def inspect_missing)

lemma appended_bytes: "appended d line = bytes_of d @ line @ [newline]"
  by (simp add: appended_def bytes_of_def)

lemma chained_fields [simp]:
  "ar_kind (chained L now g r) = ar_kind r" "ar_data (chained L now g r) = ar_data r"
  "ar_prev (chained L now g r) = last_digest g" "ar_ts_ms (chained L now g r) = now"
  "record_digest L (chained L now g r) = ar_digest (chained L now g r)"
  by (simp_all add: chained_def record_digest_def Let_def)

lemma transition_chained [simp]:
  "apply_effect_transition pending (chained L now g r) = apply_effect_transition pending r"
  unfolding apply_effect_transition_def effect_correlation_def chained_fields ..

lemma inspect_record_chained:
  assumes "in_prev st = last_digest g" "apply_effect_transition (in_pending st) r = Some pending"
  shows "inspect_record L i (chained L now g r) st =
    Ok (st\<lparr>in_prev := ar_digest (chained L now g r), in_pending := pending\<rparr>)"
  using assms by (simp add: inspect_record_def inspect_effect_eq)

lemma inspect_signed_line:
  assumes "audit_lib_ok L" "same_identity (Some (verifier L a)) st" "checked_succ (in_sequence st) = Some n"
    and "ar_kind r \<noteq> GENESIS"
  shows "\<exists>who. inspect_signed L (Some (verifier L a)) i (sign_line L a n r) st =
    Ok (st\<lparr>in_sequence := n, in_identity := who\<rparr>)"
  using assms audit_lib_okD(7-10)[OF assms(1)]
  by (auto simp: inspect_signed_def sign_line_def verifier_def same_identity_def expected_sequence_def Let_def
      split: option.splits)

lemma new_line_inspects:
  assumes "audit_lib_ok L" "audit_record_ok r'" "ar_kind r' \<noteq> GENESIS" "journal_line L g r' = Ok line"
    and "in_sequence st = ag_sequence g" "same_identity (ident_of L g) st"
    and "\<And>st'. in_prev st' = in_prev st \<Longrightarrow> in_pending st' = in_pending st \<Longrightarrow>
      inspect_record L i r' st' = Ok (st'\<lparr>in_prev := digest, in_pending := pending\<rparr>)"
  shows "compact_text line \<and> (\<exists>st'. inspect_line L (ident_of L g) i line st = Ok st' \<and> in_prev st' = digest \<and>
    in_pending st' = pending \<and>
    in_sequence st' = (if ag_identity g = None then ag_sequence g else ag_sequence g + 1))"
proof (cases "ag_identity g")
  case None
  then have l: "line = al_record_json L r'" using assms(4) by (simp add: journal_line_def)
  then show ?thesis
    using audit_lib_okD(1-3)[OF assms(1,2)] None assms(5) assms(7)[of st]
    by (auto simp: inspect_line_def ident_of_def compact_text_def)
next
  case (Some a)
  then obtain n where n: "checked_succ (ag_sequence g) = Some n" "line = al_line_json L (sign_line L a n r')"
    using assms(4) by (auto simp: journal_line_def and_then_Ok_iff ok_or_def split: option.splits)
  have f: "sl_record (sign_line L a n r') = r'" "sl_sequence (sign_line L a n r') < 2 ^ 64" "n = ag_sequence g + 1"
    using n(1) by (auto simp: sign_line_def checked_succ_def Let_def split: if_splits)
  obtain who where w: "inspect_signed L (Some (verifier L a)) i (sign_line L a n r') st =
      Ok (st\<lparr>in_sequence := n, in_identity := who\<rparr>)"
    using inspect_signed_line[OF assms(1), of a st n r' i] assms(3,5,6) n(1) Some by (auto simp: ident_of_def)
  obtain v where v: "al_parse L line = Ok v" "json_get v ''sequence'' \<noteq> None" "al_signed L line = Ok (sign_line L a n r')"
    and c: "compact_text line"
    using audit_lib_okD(4-6)[OF assms(1), of "sign_line L a n r'"] assms(2) f(1,2) n(2) by auto
  show ?thesis
    using c v w f assms(7)[of "st\<lparr>in_sequence := n, in_identity := who\<rparr>"] Some
    by (auto simp: inspect_line_def ident_of_def compact_text_def)
qed

text \<open>
  The journal of a log that is not latched and whose file is the one it last verified: it verifies,
  and its head, sequence number and unresolved effects are those in memory.
\<close>

definition verified :: "'k audit_lib \<Rightarrow> ('k, 's) audit_inner \<Rightarrow> string \<Rightarrow> bool" where
  "verified L g c \<longleftrightarrow>
     inspect L (ident_of L g) (Some c) =
       Ok (last_digest g, \<lparr>vt_sequence = ag_sequence g, vt_pending = pending_effects g\<rparr>)"

lemma append_verifies:
  assumes "audit_lib_ok L" "verified L g c"
    and "apply_effect_transition (pending_effects g) r = Some pending"
    and "r' = chained L now g r" "journal_line L g r' = Ok line"
    and "json_ok (ar_data r)" "now < 2 ^ 64" "ar_kind r \<noteq> GENESIS"
  shows "inspect L (ident_of L g) (Some (c @ line @ [newline])) =
    Ok (ar_digest r', \<lparr>vt_sequence = (if ag_identity g = None then ag_sequence g else ag_sequence g + 1),
                       vt_pending = pending\<rparr>)"
proof -
  obtain st where c: "c = [] \<or> last c = newline"
    and st: "inspect_lines L (ident_of L g) 1 (buf_lines c) inspect_init = Ok st" "in_prev st = last_digest g"
      "in_sequence st = ag_sequence g" "in_pending st = pending_effects g"
    using assms(2) by (auto simp: verified_def inspect_Ok)
  have i: "same_identity (ident_of L g) st"
    by (rule inspect_lines_identity[OF st(1)]) (simp add: same_identity_def inspect_init_def split: option.splits)
  have "audit_record_ok r'" using assms(4,6,7) by (simp add: audit_record_ok_def)
  moreover have "inspect_record L j r' st' = Ok (st'\<lparr>in_prev := ar_digest r', in_pending := pending\<rparr>)"
    if "in_prev st' = in_prev st" "in_pending st' = in_pending st" for st' j
    using that inspect_record_chained[of st' g r pending L j now] assms(3,4) st(2,4) by simp
  ultimately have n: "compact_text line \<and> (\<exists>st'. inspect_line L (ident_of L g) j line st = Ok st' \<and>
      in_prev st' = ar_digest r' \<and> in_pending st' = pending \<and>
      in_sequence st' = (if ag_identity g = None then ag_sequence g else ag_sequence g + 1))" for j
    using assms(8) new_line_inspects[OF assms(1) _ _ assms(5) st(3) i] assms(4) by simp
  then obtain st' where n: "compact_text line" "inspect_line L (ident_of L g) (1 + length (buf_lines c)) line st = Ok st'"
      "in_prev st' = ar_digest r'" "in_pending st' = pending"
      "in_sequence st' = (if ag_identity g = None then ag_sequence g else ag_sequence g + 1)" by blast
  have "inspect_lines L (ident_of L g) 1 (buf_lines c @ [line]) inspect_init = Ok st'"
    using st(1) n(2) by (simp add: inspect_lines_append)
  then show ?thesis using buf_lines_append[OF c n(1)] n(3-5) by (simp add: inspect_Ok)
qed

definition log_inv :: "'k audit_lib \<Rightarrow> ('k, 's) audit_inner \<times> 's journal \<Rightarrow> bool" where
  "log_inv L = (\<lambda>(g, d).
     (degradation_latched g \<longrightarrow> degraded g \<noteq> None) \<and>
     (\<not> degradation_latched g \<and> journal_snapshot d = ag_snapshot g \<longrightarrow> verified L g (bytes_of d)) \<and>
     (\<not> degradation_latched g \<longrightarrow> degraded g \<in> {None, pending_effect_degradation (pending_effects g)}))"

lemma latch_fields [simp]:
  "degradation_latched (latch_degradation why g)" "degraded (latch_degradation why g) \<noteq> None"
  "last_digest (latch_degradation why g) = last_digest g" "ag_identity (latch_degradation why g) = ag_identity g"
  "degraded g = Some w \<Longrightarrow> degraded (latch_degradation why g) = Some w"
  by (auto simp: latch_degradation_def split: option.splits)

lemma log_inv_latch [simp]: "log_inv L (latch_degradation why g, d)"
  by (auto simp: log_inv_def latch_degradation_def split: option.splits)

text \<open>The outcomes of an append: refused or failed (nothing or an unverified file left), or committed.\<close>

lemma append_cases:
  assumes "append_locked L env allow r (g, d) = (res, g', d')"
  obtains (refused) e where "res = Err e" "g' = g" "d' = d"
  | (latched) e why where "res = Err e" "g' = latch_degradation why g"
  | (committed) r' snap line pending where "res = Ok r'" "r' = chained L (env_now env) g r"
      "allow \<or> degraded g = None" "journal_snapshot d = ag_snapshot g"
      "apply_effect_transition (pending_effects g) r = Some pending" "journal_line L g r' = Ok line"
      "d' = Some (snap, appended d line)"
      "g' = g\<lparr>last_digest := ar_digest r', pending_effects := pending, ag_snapshot := Some snap,
              ag_sequence := (if ag_identity g = None then ag_sequence g else ag_sequence g + 1)\<rparr>"
proof -
  let ?r = "chained L (env_now env) g r"
  note d = assms[unfolded append_locked_def Let_def prod.case]
  consider (a) why where "(if allow then None else degraded g) = Some why"
    | (b) e where "(if allow then None else degraded g) = None" "env_stat_error env = Some e"
    | (c) "(if allow then None else degraded g) = None" "env_stat_error env = None"
    by (cases "if allow then None else degraded g"; cases "env_stat_error env") auto
  then show thesis
  proof cases
    case c
    consider (c1) "journal_snapshot d \<noteq> ag_snapshot g"
      | (c2) "journal_snapshot d = ag_snapshot g" "apply_effect_transition (pending_effects g) r = None"
      | (c3) pending where "journal_snapshot d = ag_snapshot g"
          "apply_effect_transition (pending_effects g) r = Some pending"
      by (cases "apply_effect_transition (pending_effects g) r") auto
    then show thesis
    proof cases
      case c3
      note d = d[unfolded c c3, simplified]
      show thesis
      proof (cases "journal_line L g ?r")
        case (Inl e)
        then show thesis using d refused by auto
      next
        case (Inr line)
        note d = d[unfolded Inr, simplified]
        show thesis
        proof (cases "env_write env")
          case (WriteFailed e d'')
          then show thesis using d latched by auto
        next
          case (Committed snap)
          note d = d[unfolded Committed, simplified]
          have "allow \<or> degraded g = None" using c(1) by (auto split: if_splits)
          then show thesis
            using d latched committed[of ?r pending line snap] c3 Inr
            by (cases "if d = None then env_parent_error env else None") auto
        qed
      qed
    qed (use d c latched in \<open>auto split del: if_split\<close>)
  qed (use d refused latched in \<open>auto split del: if_split\<close>)
qed

lemma ident_of_update [simp]:
  "ident_of L (g\<lparr>last_digest := a\<rparr>) = ident_of L g" "ident_of L (g\<lparr>pending_effects := b\<rparr>) = ident_of L g"
  "ident_of L (g\<lparr>ag_snapshot := c\<rparr>) = ident_of L g" "ident_of L (g\<lparr>ag_sequence := n\<rparr>) = ident_of L g"
  "ident_of L (g\<lparr>degraded := w\<rparr>) = ident_of L g"
  by (simp_all add: ident_of_def)

lemma append_committed:
  assumes "audit_lib_ok L" "log_inv L (g, d)" "\<not> degradation_latched g"
    and "append_locked L env allow r (g, d) = (Ok r', g', d')"
    and "json_ok (ar_data r)" "env_now env < 2 ^ 64" "ar_kind r \<noteq> GENESIS"
  shows "verified L g (bytes_of d) \<and> verified L g' (bytes_of d') \<and> journal_snapshot d' = ag_snapshot g' \<and>
    degraded g' = degraded g \<and> degradation_latched g' = degradation_latched g \<and>
    last_digest g' = ar_digest r' \<and>
    apply_effect_transition (pending_effects g) r = Some (pending_effects g') \<and>
    (\<exists>line. bytes_of d' = bytes_of d @ line @ [newline])"
  using assms(4)
proof (cases rule: append_cases)
  case (committed r'' snap line pending)
  have v: "verified L g (bytes_of d)" using assms(2,3) committed(4) by (simp add: log_inv_def)
  have "inspect L (ident_of L g) (Some (bytes_of d @ line @ [newline])) =
    Ok (ar_digest r', \<lparr>vt_sequence = (if ag_identity g = None then ag_sequence g else ag_sequence g + 1),
                       vt_pending = pending\<rparr>)"
    using append_verifies[OF assms(1) v committed(5) _ _ assms(5,6,7)] committed(1,2,6) by simp
  then show ?thesis
    using v committed by (simp add: verified_def journal_snapshot_def appended_bytes bytes_of_def)
qed auto

lemma log_inv_append:
  assumes "audit_lib_ok L" "log_inv L (g, d)" "allow \<longrightarrow> \<not> degradation_latched g"
    and "json_ok (ar_data r)" "env_now env < 2 ^ 64" "ar_kind r \<noteq> GENESIS"
    and "append_locked L env allow r (g, d) = (res, g', d')"
    and "degraded g \<noteq> None \<longrightarrow> \<not> is_ok res"
  shows "log_inv L (g', d')"
  using assms(7)
proof (cases rule: append_cases)
  case (committed r' snap line pending)
  then have n: "degraded g = None" using assms(8) by auto
  then have l: "\<not> degradation_latched g" using assms(2) by (auto simp: log_inv_def)
  then show ?thesis
    using append_committed[OF assms(1,2) l _ assms(4-6)] committed(1) assms(7) n by (auto simp: log_inv_def)
qed (use assms(2) in simp_all)

definition log_ready :: "nat \<Rightarrow> audit_record \<Rightarrow> bool" where
  "log_ready now r \<longleftrightarrow> json_ok (ar_data r) \<and> now < 2 ^ 64 \<and> ar_kind r \<noteq> GENESIS"

lemma reconcile_ready: "now < 2 ^ 64 \<Longrightarrow> log_ready now (reconcile_record c o')"
  by (simp add: log_ready_def reconcile_record_def GENESIS_def)

lemma log_inv_audit_append:
  assumes "audit_lib_ok L" "log_inv L s" "log_ready (env_now env) r" "audit_append L env r s = (res, s')"
  shows "log_inv L s'"
proof -
  obtain g d g' d' where e: "s = (g, d)" "s' = (g', d')" by fastforce
  have "degraded g \<noteq> None \<longrightarrow> \<not> is_ok res"
    using assms(4) by (auto simp: audit_append_def append_locked_def e Let_def)
  then show ?thesis
    using log_inv_append[OF assms(1), of g d False r env res g' d'] assms(2-4)
    by (auto simp: e audit_append_def log_ready_def)
qed

text \<open>The outcomes of a reconciliation.\<close>

lemma unresolved_refusal_None:
  "unresolved_refusal c g pending = None \<longleftrightarrow>
     c \<in> pending \<and> \<not> degradation_latched g \<and> degraded g = pending_effect_degradation pending"
  by (auto simp: unresolved_refusal_def split: option.splits)

lemma reconcile_cases:
  assumes "reconcile_pending_effect L env c outcome conf (g, d) = (res, g', d')"
  obtains (refused) e where "res = Err e" "g' = g" "d' = d"
  | (attempted) digest tail g1 where "reconcile_refusal c outcome conf g = None"
      "inspect L (ident_of L g) (journal_bytes d) = Ok (digest, tail)"
      "unresolved_refusal c g (vt_pending tail) = None"
      "g1 = g\<lparr>last_digest := digest, ag_sequence := vt_sequence tail, pending_effects := vt_pending tail,
              ag_snapshot := journal_snapshot d\<rparr>"
      "reconcile_close L env (reconcile_record c outcome) (g1, d) = (res, g', d')"
proof -
  note a = assms[unfolded reconcile_pending_effect_def Let_def prod.case]
  show thesis
  proof (cases "reconcile_refusal c outcome conf g")
    case (Some why)
    then show thesis using a refused by auto
  next
    case open': None
    show thesis
    proof (cases "inspect L (ident_of L g) (journal_bytes d)")
      case (Inl e)
      then show thesis using a open' refused by auto
    next
      case (Inr dt)
      obtain digest tail where dt: "dt = (digest, tail)" by fastforce
      show thesis
      proof (cases "unresolved_refusal c g (vt_pending tail)")
        case (Some why)
        then show thesis using a open' Inr dt refused by auto
      next
        case None
        show thesis by (rule attempted[OF open' Inr[unfolded dt] None refl]) (use a open' Inr dt None in simp)
      qed
    qed
  qed
qed

text \<open>Closing an effect on a verified journal: it is committed and the latch follows what is left.\<close>

lemma reconcile_close_verified:
  assumes "audit_lib_ok L" "log_inv L (g, d)" "\<not> degradation_latched g" "log_ready (env_now env) r"
    and "reconcile_close L env r (g, d) = (res, g', d')"
  shows "log_inv L (g', d') \<and>
    (is_ok res \<longrightarrow> apply_effect_transition (pending_effects g) r = Some (pending_effects g') \<and>
       degraded g' = pending_effect_degradation (pending_effects g') \<and> \<not> degradation_latched g' \<and>
       (\<exists>line. bytes_of d' = bytes_of d @ line @ [newline]))"
proof -
  obtain res1 g2 d2 where ap: "append_locked L env True r (g, d) = (res1, g2, d2)"
    using prod_cases3 by blast
  show ?thesis
    using ap
  proof (cases rule: append_cases)
    case (committed r' snap line pending)
    have c: "verified L g2 (bytes_of d2)" "journal_snapshot d2 = ag_snapshot g2" "\<not> degradation_latched g2"
        "apply_effect_transition (pending_effects g) r = Some (pending_effects g2)"
        "\<exists>line. bytes_of d2 = bytes_of d @ line @ [newline]"
      using append_committed[OF assms(1-3) ap[unfolded committed(1)]] assms(3,4) by (auto simp: log_ready_def)
    then have "inspect L (ident_of L g2) (journal_bytes d2) =
        Ok (last_digest g2, \<lparr>vt_sequence = ag_sequence g2, vt_pending = pending_effects g2\<rparr>)"
      by (simp add: inspect_journal verified_def)
    then have r: "res = Ok r'" "d' = d2"
        "g' = g2\<lparr>pending_effects := pending_effects g2, ag_snapshot := journal_snapshot d2,
                 degraded := pending_effect_degradation (pending_effects g2)\<rparr>"
      using assms(5) by (auto simp: reconcile_close_def ap committed(1))
    have "verified L g' (bytes_of d')" using c(1) by (simp add: r verified_def)
    then show ?thesis using c(3-5) by (simp add: r log_inv_def)
  next
    case (refused e)
    then have "res = Err e" "g' = g" "d' = d" using assms(5) by (simp_all add: reconcile_close_def ap)
    then show ?thesis using assms(2) by simp
  next
    case (latched e why)
    then have "res = Err e" "g' = latch_degradation why g" using assms(5) by (simp_all add: reconcile_close_def ap)
    then show ?thesis by simp
  qed
qed

lemma log_inv_reconcile:
  assumes "audit_lib_ok L" "log_inv L (g, d)" "env_now env < 2 ^ 64"
    and "reconcile_pending_effect L env c outcome conf (g, d) = (res, g', d')"
  shows "log_inv L (g', d')"
  using assms(4)
proof (cases rule: reconcile_cases)
  case (attempted digest tail g1)
  have "log_inv L (g1, d)" "\<not> degradation_latched g1"
    using attempted(2-4) by (auto simp: log_inv_def verified_def inspect_journal unresolved_refusal_None)
  then show ?thesis
    using reconcile_close_verified[OF assms(1) _ _ reconcile_ready[OF assms(3)] attempted(5)] by blast
qed (use assms(2) in simp)

section \<open>Runs of a log\<close>

text \<open>
  A log in use: appends, reconciliations, latches, and changes of the file by others. A change by
  another process gives the file metadata that differs from the metadata the log remembers.
\<close>

datatype 's log_op =
    AppendOp "'s append_env" audit_record
  | ReconcileOp "'s append_env" string string string
  | LatchOp string
  | OutsideOp "'s journal"

fun log_step ::
  "'k audit_lib \<Rightarrow> 's log_op \<Rightarrow> ('k, 's) audit_inner \<times> 's journal \<Rightarrow> ('k, 's) audit_inner \<times> 's journal" where
  "log_step L (AppendOp env r) s = snd (audit_append L env r s)"
| "log_step L (ReconcileOp env c outcome conf) s = snd (reconcile_pending_effect L env c outcome conf s)"
| "log_step L (LatchOp why) (g, d) = (latch_mutations why g, d)"
| "log_step L (OutsideOp d') (g, d) = (g, if journal_snapshot d' = ag_snapshot g then d else d')"

fun log_pre :: "'s log_op \<Rightarrow> bool" where
  "log_pre (AppendOp env r) \<longleftrightarrow> log_ready (env_now env) r"
| "log_pre (ReconcileOp env _ _ _) \<longleftrightarrow> env_now env < 2 ^ 64"
| "log_pre _ \<longleftrightarrow> True"

lemma log_step_inv:
  assumes "audit_lib_ok L" "log_inv L s" "log_pre op"
  shows "log_inv L (log_step L op s)"
proof (cases op)
  case (AppendOp env r)
  then show ?thesis using assms by (cases "audit_append L env r s") (auto intro: log_inv_audit_append)
next
  case (ReconcileOp env c outcome conf)
  obtain g d where s: "s = (g, d)" by fastforce
  obtain res g' d' where r: "reconcile_pending_effect L env c outcome conf (g, d) = (res, g', d')"
    using prod_cases3 by blast
  show ?thesis using log_inv_reconcile[OF assms(1) _ _ r] assms(2,3) by (simp add: ReconcileOp s r)
next
  case (LatchOp why)
  then show ?thesis by (cases s) (simp add: latch_mutations_def)
next
  case (OutsideOp d')
  then show ?thesis using assms(2) by (cases s) (auto simp: log_inv_def)
qed

interpretation log_runs: op_machine "log_step L" "log_inv L" "\<lambda>op. audit_lib_ok L \<and> log_pre op" for L
  by unfold_locales (simp add: log_step_inv)

lemma log_run:
  "audit_lib_ok L \<Longrightarrow> log_inv L s \<Longrightarrow> list_all log_pre ops \<Longrightarrow> log_inv L (fold (log_step L) ops s)"
  by (rule log_runs.run_inv) (simp_all add: list_all_iff)

text \<open>A committed append extends a journal that verifies to one that verifies.\<close>

lemma committed_extends:
  assumes "audit_lib_ok L" "log_inv L (g, d)" "log_ready (env_now env) r"
    and "audit_append L env r (g, d) = (Ok r', g', d')"
  shows "verified L g (bytes_of d) \<and> verified L g' (bytes_of d') \<and> last_digest g' = ar_digest r' \<and>
    apply_effect_transition (pending_effects g) r = Some (pending_effects g') \<and>
    (\<exists>line. bytes_of d' = bytes_of d @ line @ [newline])"
proof -
  have "degraded g = None"
    using assms(4) by (cases "degraded g") (auto simp: audit_append_def append_locked_def)
  then have "\<not> degradation_latched g" using assms(2) by (auto simp: log_inv_def)
  then show ?thesis
    using append_committed[OF assms(1,2) _ assms(4)[unfolded audit_append_def]] assms(3)
    by (auto simp: log_ready_def)
qed

text \<open>Opening establishes the invariant.\<close>

lemma or_else_simps [simp]: "or_else None b = b" "or_else (Some x) b = Some x"
  by (simp_all add: or_else_def)

lemma open_log_inv:
  assumes "open_log L oa legacy d d_end = Ok g" "journal_snapshot d_end = journal_snapshot d \<longrightarrow> d_end = d"
  shows "log_inv L (g, d_end)"
proof (cases "inspect L (map_option (verifier L) (oa_identity oa)) (journal_bytes d)")
  case (Inl e)
  then have "degradation_latched g" "degraded g \<noteq> None"
    using assms(1) by (auto simp: open_log_def Let_def or_else_def split: if_splits option.splits)
  then show ?thesis by (simp add: log_inv_def)
next
  case (Inr dt)
  obtain digest tail where dt: "dt = (digest, tail)" by fastforce
  have g: "last_digest g = digest" "ag_sequence g = vt_sequence tail" "pending_effects g = vt_pending tail"
      "ag_identity g = oa_identity oa"
    using assms(1) Inr by (auto simp: open_log_def Let_def dt)
  have l: "\<not> degradation_latched g \<Longrightarrow> d_end = d \<and> degraded g = pending_effect_degradation (vt_pending tail)"
    "degradation_latched g \<Longrightarrow> degraded g \<noteq> None"
    using assms Inr by (auto simp: open_log_def Let_def dt or_else_def split: if_splits option.splits)
  show ?thesis
    using Inr l by (auto simp: log_inv_def verified_def g ident_of_def inspect_journal[symmetric] dt)
qed

lemma legacy_ready: "now < 2 ^ 64 \<Longrightarrow> log_ready now (legacy_genesis b)"
  by (simp add: log_ready_def legacy_genesis_def GENESIS_def)

lemma open_inner_inv:
  assumes "audit_lib_ok L" "env_now (oa_env oa) < 2 ^ 64" "open_inner L oa files = (Ok g, d, p)"
  shows "log_inv L (g, d)"
proof -
  obtain path preserved name where n: "oa_paths oa = (path, preserved, name)" using prod_cases3 by blast
  obtain migrated d1 p1 where m: "(if oa_identity oa = None then (Ok None, files)
      else prepare_legacy_migration L path preserved name files) = (migrated, d1, p1)"
    using prod_cases3 by blast
  define why where "why = (case migrated of Inr b \<Rightarrow> (b, None) | Inl e \<Rightarrow> (None, Some (audit_error_text e)))"
  define d2 where "d2 = (case oa_meanwhile oa of
      Some d' \<Rightarrow> if journal_snapshot d' = journal_snapshot d1 then d1 else d' | None \<Rightarrow> d1)"
  have d2: "journal_snapshot d2 = journal_snapshot d1 \<longrightarrow> d2 = d1" by (simp add: d2_def split: option.splits)
  have signed: "(if oa_identity oa = None then journal_is_signed L (fst files) else Ok False) = Ok False"
    using assms(3) by (auto simp: open_inner_def split: sum.splits bool.splits)
  note o = assms(3)[unfolded open_inner_def signed n Let_def prod.case m, folded why_def d2_def, simplified]
  obtain g0 where g0: "open_log L oa (snd why) d1 d2 = Ok g0"
    using o by (cases "open_log L oa (snd why) d1 d2") (auto simp: case_prod_unfold)
  have inv: "log_inv L (g0, d2)" by (rule open_log_inv[OF g0 d2])
  show ?thesis
  proof (cases "fst why")
    case None
    then show ?thesis using o g0 inv by (auto simp: case_prod_unfold)
  next
    case (Some b)
    obtain res g' d' where a: "audit_append L (oa_env oa) (legacy_genesis b) (g0, d2) = (res, g', d')"
      using prod_cases3 by blast
    have "log_inv L (g', d')" by (rule log_inv_audit_append[OF assms(1) inv legacy_ready[OF assms(2)] a])
    then show ?thesis using o g0 Some a by (cases res) (auto simp: case_prod_unfold)
  qed
qed

text \<open>
  C10: the journal always verifies. Open a log (signed or not, after any migration), let it be used by
  any sequence of appends, operator reconciliations, latches and changes of the file by others, and let
  an append succeed: then the bytes before it verify with the head, the sequence number and the set of
  unresolved effects that the log remembers, it adds exactly one line at the end, and the file after it
  verifies with the digest of the new record as its head.
\<close>

theorem committed_journal_verifies:
  assumes "audit_lib_ok L" "open_inner L oa files = (Ok g0, d0, p)" "env_now (oa_env oa) < 2 ^ 64"
    and "list_all log_pre ops" "fold (log_step L) ops (g0, d0) = (g, d)"
    and "log_ready (env_now env) r" "audit_append L env r (g, d) = (Ok r', g', d')"
  shows "inspect L (ident_of L g) (Some (bytes_of d)) =
      Ok (last_digest g, \<lparr>vt_sequence = ag_sequence g, vt_pending = pending_effects g\<rparr>) \<and>
    (\<exists>line. bytes_of d' = bytes_of d @ line @ [newline]) \<and>
    inspect L (ident_of L g) (Some (bytes_of d')) =
      Ok (ar_digest r', \<lparr>vt_sequence = ag_sequence g', vt_pending = pending_effects g'\<rparr>) \<and>
    apply_effect_transition (pending_effects g) r = Some (pending_effects g')"
proof -
  have "log_inv L (g, d)"
    using log_run[OF assms(1) open_inner_inv[OF assms(1,3,2)] assms(4)] assms(5) by simp
  from committed_extends[OF assms(1) this assms(6,7)] show ?thesis
    using assms(7) by (auto simp: verified_def audit_append_def elim: append_cases)
qed

lemma latched_step:
  assumes "log_inv L (g, d)" "degradation_latched g" "log_step L op (g, d) = (g', d')"
  shows "degradation_latched g' \<and> log_inv L (g', d') \<and> ((\<forall>x. op \<noteq> OutsideOp x) \<longrightarrow> d' = d)"
proof -
  obtain why where w: "degraded g = Some why" using assms(1,2) by (auto simp: log_inv_def)
  show ?thesis
  proof (cases op)
    case (AppendOp env r)
    then show ?thesis using assms w by (auto simp: audit_append_def append_locked_def)
  next
    case (ReconcileOp env c outcome conf)
    obtain res where r: "reconcile_pending_effect L env c outcome conf (g, d) = (res, g', d')"
      using assms(3) ReconcileOp by (cases "reconcile_pending_effect L env c outcome conf (g, d)") auto
    then show ?thesis
      using assms(1,2) by (cases rule: reconcile_cases) (auto simp: unresolved_refusal_None)
  next
    case (LatchOp why')
    then show ?thesis using assms by (auto simp: latch_mutations_def)
  next
    case (OutsideOp x)
    then show ?thesis using assms by (auto simp: log_inv_def split: if_splits)
  qed
qed

lemma latched_run:
  assumes "log_inv L s" "degradation_latched (fst s)" "list_all (\<lambda>op. \<forall>x. op \<noteq> OutsideOp x) ops"
  shows "degradation_latched (fst (fold (log_step L) ops s)) \<and> snd (fold (log_step L) ops s) = snd s \<and>
    log_inv L (fold (log_step L) ops s)"
  using assms
proof (induction ops arbitrary: s)
  case (Cons op ops)
  obtain g d g' d' where e: "s = (g, d)" "log_step L op (g, d) = (g', d')" by fastforce
  show ?case
    using latched_step[OF Cons.prems(1)[unfolded e] _ e(2)] Cons.IH[of "(g', d')"] Cons.prems
    by (auto simp: e)
qed simp

text \<open>
  a latched log is frozen. Once a degradation is latched, no append and no reconciliation succeeds
  any more, and the log writes nothing: the file only changes when another process changes it.
\<close>

theorem latched_log_frozen:
  assumes "audit_lib_ok L" "open_inner L oa files = (Ok g0, d0, p)" "env_now (oa_env oa) < 2 ^ 64"
    and "list_all log_pre ops" "fold (log_step L) ops (g0, d0) = (g, d)" "degradation_latched g"
    and "list_all (\<lambda>op. \<forall>x. op \<noteq> OutsideOp x) later" "fold (log_step L) later (g, d) = (g', d')"
  shows "d' = d \<and> degradation_latched g' \<and> \<not> is_ok (fst (audit_append L env r (g', d'))) \<and>
    \<not> is_ok (fst (reconcile_pending_effect L env c outcome conf (g', d')))"
proof -
  have "log_inv L (g, d)"
    using log_run[OF assms(1) open_inner_inv[OF assms(1,3,2)] assms(4)]
      assms(5) by simp
  then have l: "d' = d" "degradation_latched g'" "log_inv L (g', d')"
    using latched_run[of L "(g, d)" later] assms(6-8) by auto
  then obtain why where w: "degraded g' = Some why" by (auto simp: log_inv_def)
  have "\<not> is_ok (fst (reconcile_pending_effect L env c outcome conf (g', d')))"
  proof (cases "reconcile_pending_effect L env c outcome conf (g', d')" rule: prod_cases3)
    case (fields res g2 d2)
    from fields show ?thesis using l(2) by (cases rule: reconcile_cases) (auto simp: fields unresolved_refusal_None)
  qed
  then show ?thesis using l w by (auto simp: audit_append_def append_locked_def)
qed

text \<open>
  C25: an operator reconciliation closes exactly one effect. It succeeds only with the exact
  confirmation text for a correlation whose intent is in the journal without a result, when unresolved
  effects are the only degradation. Afterwards that correlation alone is resolved, and mutations are
  enabled again exactly when no other effect is unresolved.
\<close>

theorem reconcile_closes_one_effect:
  assumes "audit_lib_ok L" "env_now env < 2 ^ 64"
    and "reconcile_pending_effect L env c outcome conf (g, d) = (Ok r, g', d')"
  shows "outcome \<in> {''committed'', ''aborted''} \<and>
    conf = ''RECONCILE MACHINE AUDIT '' @ c @ '' AS '' @ to_ascii_uppercase outcome \<and>
    (\<exists>digest tail. inspect L (ident_of L g) (Some (bytes_of d)) = Ok (digest, tail) \<and> c \<in> vt_pending tail \<and>
       degraded g = pending_effect_degradation (vt_pending tail) \<and> \<not> degradation_latched g \<and>
       pending_effects g' = vt_pending tail - {c} \<and> (degraded g' = None \<longleftrightarrow> vt_pending tail = {c})) \<and>
    (\<exists>line. bytes_of d' = bytes_of d @ line @ [newline])"
  using assms(3)
proof (cases rule: reconcile_cases)
  case (attempted digest tail g1)
  have g1: "log_inv L (g1, d)" "\<not> degradation_latched g1"
    using attempted(2-4) by (auto simp: log_inv_def verified_def inspect_journal unresolved_refusal_None)
  have t: "apply_effect_transition (vt_pending tail) (reconcile_record c outcome) = Some (vt_pending tail - {c})"
    using attempted(3) by (auto simp: apply_effect_transition_def effect_correlation_def reconcile_record_def
        unresolved_refusal_None)
  have c: "pending_effects g' = vt_pending tail - {c}" "degraded g' = pending_effect_degradation (pending_effects g')"
      "\<exists>line. bytes_of d' = bytes_of d @ line @ [newline]"
    using reconcile_close_verified[OF assms(1) g1 reconcile_ready[OF assms(2)] attempted(5)] t
    by (auto simp: attempted(4))
  have r: "outcome \<in> {''committed'', ''aborted''}" "conf = ''RECONCILE MACHINE AUDIT '' @ c @ '' AS '' @ to_ascii_uppercase outcome"
    using attempted(1) by (auto simp: reconcile_refusal_def Let_def split: if_splits)
  have "degraded g' = None \<longleftrightarrow> vt_pending tail = {c}"
    using c(1,2) attempted(3) by (auto simp: pending_effect_degradation_def unresolved_refusal_None)
  then show ?thesis
    using r c(1,3) attempted(2,3) by (auto simp: inspect_journal unresolved_refusal_None)
qed simp

section \<open>Tampering\<close>

definition journal_records :: "'k audit_lib \<Rightarrow> string \<Rightarrow> audit_record list" where
  "journal_records L c = [r. raw \<leftarrow> buf_lines c, raw \<noteq> [], Inr r \<leftarrow> [decode_record L raw]]"

text \<open>\<open>tail\<close> returns the last \<open>n\<close> records, oldest first.\<close>

definition last_n :: "nat \<Rightarrow> 'a list \<Rightarrow> 'a list" where
  "last_n n xs = drop (length xs - n) xs"

lemma last_n_append: "0 < n \<Longrightarrow> last_n n (last_n n xs @ ys) = last_n n (xs @ ys)"
  by (cases "n \<le> length xs") (simp_all add: last_n_def add.commute)

lemma tail_window_last:
  assumes "0 < n" "length buf \<le> n"
  shows "tail_window L n raws buf = last_n n (buf @ [r. raw \<leftarrow> raws, raw \<noteq> [], Inr r \<leftarrow> [decode_record L raw]])"
  using assms(2)
proof (induction raws arbitrary: buf)
  case (Cons raw raws)
  show ?case
  proof (cases "decode_record L raw")
    case (Inr r)
    let ?b = "(if length buf = n then tl buf else buf) @ [r]"
    have b: "?b = last_n n (buf @ [r])" "length ?b \<le> n"
      using Cons.prems assms(1) by (auto simp: last_n_def drop_Suc tl_append split: list.split)
    show ?thesis
      using Cons.IH[OF b(2)] Cons.IH[OF Cons.prems] last_n_append[OF assms(1), of "buf @ [r]"]
      by (simp add: Inr b(1))
  qed (use Cons in simp)
qed (simp add: last_n_def)

lemma audit_tail_last:
  "0 < n \<Longrightarrow> list_all utf8_valid (buf_lines c) \<Longrightarrow>
     audit_tail L n (Some (snap, c)) = Ok (last_n n (journal_records L c))"
  by (simp add: audit_tail_def lines_io_def tail_window_last journal_records_def)

text \<open>A chain: every record names the digest of the one before it and carries its own.\<close>

fun chain_from :: "'k audit_lib \<Rightarrow> string \<Rightarrow> audit_record list \<Rightarrow> string \<Rightarrow> bool" where
  "chain_from L prev [] head \<longleftrightarrow> head = prev"
| "chain_from L prev (r # rs) head \<longleftrightarrow>
     ar_prev r = prev \<and> record_digest L r = ar_digest r \<and> audit_record_ok r \<and> chain_from L (ar_digest r) rs head"

lemma chain_snoc:
  "chain_from L prev (rs @ [r]) head \<longleftrightarrow>
     chain_from L prev rs (ar_prev r) \<and> record_digest L r = ar_digest r \<and> audit_record_ok r \<and> head = ar_digest r"
  by (induction rs arbitrary: prev) auto

lemma inspect_record_Ok:
  assumes "inspect_record L i r st = Ok st'"
  shows "ar_prev r = in_prev st \<and> record_digest L r = ar_digest r \<and> in_prev st' = ar_digest r"
  using assms by (auto simp: inspect_record_def and_then_Ok_iff split: if_splits)

lemma inspect_signed_prev: "inspect_signed L ident i l st = Ok st' \<Longrightarrow> in_prev st' = in_prev st"
  by (auto simp: inspect_signed_def and_then_Ok_iff split: if_splits)

lemma inspect_line_Ok:
  assumes "audit_lib_ok L" "inspect_line L ident i raw st = Ok st'" "raw \<noteq> []"
  obtains r where "decode_record L raw = Ok r" "audit_record_ok r" "ar_prev r = in_prev st"
    "record_digest L r = ar_digest r" "in_prev st' = ar_digest r"
proof -
  obtain v where v: "al_parse L raw = Ok v"
    using assms(2,3) by (auto simp: inspect_line_def and_then_Ok_iff split: if_splits)
  show thesis
  proof (cases "json_get v ''sequence'' = None")
    case True
    then obtain r where r: "al_plain L raw = Ok r" "inspect_record L i r st = Ok st'"
      using assms(2,3) v by (auto simp: inspect_line_def and_then_Ok_iff split: if_splits)
    then show thesis
      using inspect_record_Ok[OF r(2)] audit_lib_okD(12)[OF assms(1) r(1)] v True that
      by (simp add: decode_record_def)
  next
    case False
    then obtain l st1 where r: "al_signed L raw = Ok l" "inspect_signed L ident i l st = Ok st1"
        "inspect_record L i (sl_record l) st1 = Ok st'"
      using assms(2,3) v by (auto simp: inspect_line_def and_then_Ok_iff split: if_splits)
    then show thesis
      using inspect_record_Ok[OF r(3)] inspect_signed_prev[OF r(2)] audit_lib_okD(13)[OF assms(1) r(1)] v False that
      by (simp add: decode_record_def)
  qed
qed

lemma inspect_lines_chain:
  assumes "audit_lib_ok L" "inspect_lines L ident i raws st = Ok st'"
  shows "chain_from L (in_prev st) [r. raw \<leftarrow> raws, raw \<noteq> [], Inr r \<leftarrow> [decode_record L raw]] (in_prev st')"
  using assms(2)
proof (induction raws arbitrary: i st)
  case (Cons raw raws)
  then obtain st1 where s: "inspect_line L ident i raw st = Ok st1" "inspect_lines L ident (i + 1) raws st1 = Ok st'"
    by (auto simp: and_then_Ok_iff)
  show ?case
  proof (cases "raw = []")
    case True
    then have "st1 = st" using s(1) by (auto simp: inspect_line_def split: if_splits)
    then show ?thesis using Cons.IH[OF s(2)] True by simp
  next
    case False
    obtain r where "decode_record L raw = Ok r" "audit_record_ok r" "ar_prev r = in_prev st"
      "record_digest L r = ar_digest r" "in_prev st1 = ar_digest r"
      using inspect_line_Ok[OF assms(1) s(1) False] by blast
    then show ?thesis using Cons.IH[OF s(2)] False by simp
  qed
qed simp

lemma verified_chain:
  "audit_lib_ok L \<Longrightarrow> inspect L ident (Some c) = Ok (head, tail) \<Longrightarrow> chain_from L [] (journal_records L c) head"
  using inspect_lines_chain[of L ident 1 "buf_lines c" inspect_init]
  by (auto simp: inspect_Ok journal_records_def inspect_init_def)

lemma record_json_inj:
  "audit_lib_ok L \<Longrightarrow> audit_record_ok r \<Longrightarrow> audit_record_ok r' \<Longrightarrow> al_record_json L r = al_record_json L r' \<Longrightarrow> r = r'"
  by (metis audit_lib_okD(2) sum.inject(2))

text \<open>What the digest of a record is taken of.\<close>

definition record_text :: "'k audit_lib \<Rightarrow> audit_record \<Rightarrow> string" where
  "record_text L r = al_record_json L (r\<lparr>ar_digest := []\<rparr>)"

lemma same_digest:
  assumes "audit_lib_ok L" "audit_record_ok r" "audit_record_ok r'" "record_digest L r = ar_digest r"
    and "record_digest L r' = ar_digest r'" "ar_digest r = ar_digest r'"
    and "inj_on (al_b3 L) {record_text L r, record_text L r'}"
  shows "r = r'"
proof -
  have "record_text L r = record_text L r'"
    by (rule inj_onD[OF assms(7)]) (use assms(4-6) in \<open>simp_all add: record_digest_def record_text_def\<close>)
  then have "r\<lparr>ar_digest := []\<rparr> = r'\<lparr>ar_digest := []\<rparr>"
    unfolding record_text_def
    by (intro record_json_inj[OF assms(1)]) (use assms(2,3) in \<open>simp_all add: audit_record_ok_def\<close>)
  then show ?thesis using assms(6) by (cases r; cases r') simp
qed

lemma chain_unique:
  assumes "audit_lib_ok L"
  shows "chain_from L [] rs head \<Longrightarrow> chain_from L [] rs' head \<Longrightarrow>
    inj_on (al_b3 L) (record_text L ` (set rs \<union> set rs')) \<Longrightarrow> rs = rs'"
proof (induction rs arbitrary: rs' head rule: rev_induct)
  case Nil
  then show ?case
    using audit_lib_okD(11)[OF assms(1)]
    by (cases rs' rule: rev_cases) (auto simp: chain_snoc record_digest_def)
next
  case (snoc r rs)
  note prems = snoc.prems and IH = snoc.IH
  show ?case
  proof (cases rs' rule: rev_cases)
    case Nil
    then show ?thesis
      using prems audit_lib_okD(11)[OF assms(1)] by (auto simp: chain_snoc record_digest_def)
  next
    case (snoc rs2 r2)
    have "inj_on (al_b3 L) {record_text L r, record_text L r2}"
      "inj_on (al_b3 L) (record_text L ` (set rs \<union> set rs2))"
      by (rule inj_on_subset[OF prems(3)]; use snoc in auto)+
    then show ?thesis
      using IH[of "ar_prev r" rs2] prems(1,2) same_digest[OF assms(1), of r r2]
      by (auto simp: chain_snoc snoc)
  qed
qed

text \<open>
  C23: tampering is evident. Two journals that verify with the same head digest hold the same records,
  unless the texts of two of their records collide under the digest: no line of a journal with a known
  head can be changed, removed, added or moved without a collision or a refusal.
\<close>

theorem tampering_evident:
  assumes "audit_lib_ok L"
    and "inspect L ident (Some c) = Ok (head, tail)" "inspect L ident' (Some c') = Ok (head, tail')"
  shows "journal_records L c = journal_records L c' \<or>
    (\<exists>r \<in> set (journal_records L c @ journal_records L c'). \<exists>r' \<in> set (journal_records L c @ journal_records L c').
       record_text L r \<noteq> record_text L r' \<and> al_b3 L (record_text L r) = al_b3 L (record_text L r'))"
proof (cases "inj_on (al_b3 L) (record_text L ` (set (journal_records L c) \<union> set (journal_records L c')))")
  case True
  then show ?thesis
    using chain_unique[OF assms(1) verified_chain[OF assms(1,2)] verified_chain[OF assms(1,3)]] by blast
qed (auto simp: inj_on_def)

section \<open>A library that meets the contract\<close>

instance char :: countable
  by (rule countable_classI[of of_char]) simp

instance json :: countable
  by countable_datatype

type_synonym record_key = "nat \<times> string \<times> string option \<times> string option \<times> json \<times> string \<times> string"

definition record_key :: "audit_record \<Rightarrow> record_key" where
  "record_key r = (ar_ts_ms r, ar_kind r, ar_wallet r, ar_chain r, ar_data r, ar_prev r, ar_digest r)"

definition key_record :: "record_key \<Rightarrow> audit_record" where
  "key_record k = (case k of (t, kind, w, c, data, prev, digest) \<Rightarrow>
     \<lparr>ar_ts_ms = t, ar_kind = kind, ar_wallet = w, ar_chain = c, ar_data = data, ar_prev = prev, ar_digest = digest\<rparr>)"

type_synonym line_key = "record_key \<times> nat \<times> string \<times> string \<times> string \<times> string"

definition line_key :: "signed_audit_line \<Rightarrow> line_key" where
  "line_key l = (record_key (sl_record l), sl_sequence l, sl_service_id l, sl_key_id l, sl_public_key_hex l,
     sl_signature_hex l)"

definition key_line :: "line_key \<Rightarrow> signed_audit_line" where
  "key_line k = (case k of (r, n, service, key, pk, sig) \<Rightarrow>
     \<lparr>sl_record = key_record r, sl_sequence = n, sl_service_id = service, sl_key_id = key,
      sl_public_key_hex = pk, sl_signature_hex = sig\<rparr>)"

lemma key_inverse [simp]: "key_record (record_key r) = r" "key_line (line_key l) = l"
  by (simp_all add: key_record_def record_key_def key_line_def line_key_def)

definition number_text :: "char \<Rightarrow> nat \<Rightarrow> string" where
  "number_text c n = c # show_nat n"

definition audit_ref :: "string audit_lib" where
  "audit_ref =
     \<lparr>al_parse = (\<lambda>raw. Ok (if raw \<noteq> [] \<and> hd raw = CHR ''s'' then JObj [(''sequence'', JNull)] else JNull)),
      al_signed = (\<lambda>raw. let l = key_line (from_nat (dec_val (tl raw)))
        in if audit_record_ok (sl_record l) then Ok l else Err ''invalid''),
      al_plain = (\<lambda>raw. let r = key_record (from_nat (dec_val (tl raw))) in if audit_record_ok r then Ok r else Err ''invalid''),
      al_record_json = (\<lambda>r. number_text CHR ''r'' (to_nat (record_key r))),
      al_line_json = (\<lambda>l. number_text CHR ''s'' (to_nat (line_key l))),
      al_value_json = (\<lambda>_. []), al_b3 = (\<lambda>x. ''b'' @ x), al_hex_encode = (\<lambda>x. x), al_hex_decode = Some,
      al_public_key = (\<lambda>k. take 32 (k @ replicate 32 CHR ''0'')), al_sign = (\<lambda>_ _. replicate 64 CHR ''0''),
      al_key_ok = (\<lambda>_. True), al_verify = (\<lambda>_ _ _. True)\<rparr>"

lemma utf8_ascii: "list_all (\<lambda>c. byte c < 128) s \<Longrightarrow> utf8_valid s"
  unfolding utf8_valid_def by (induction s) auto

lemma number_text_compact: "c \<in> {CHR ''r'', CHR ''s''} \<Longrightarrow> compact_text (c # show_nat n)"
  using show_nat_digits[of n]
  by (fastforce simp: compact_text_def all_digits_def list_all_iff is_ascii_digit_def byte_def
      intro!: utf8_ascii)

lemma audit_ref_ok: "audit_lib_ok audit_ref"
  by (auto simp: audit_lib_ok_def audit_ref_def number_text_compact Let_def number_text_def)

definition sample_env :: "nat append_env" where
  "sample_env = \<lparr>env_now = 5, env_stat_error = None, env_write = Committed 1, env_parent_error = None\<rparr>"

definition sample_open :: "(string, nat) open_args" where
  "sample_open = \<lparr>oa_identity = Some \<lparr>ai_service_id = ''machine'', ai_key_id = ''k1'', ai_signing_key = ''key''\<rparr>,
     oa_checks = \<lparr>rotation_recovery_error = None, history_error = None\<rparr>,
     oa_paths = (''audit.jsonl'', ''audit.legacy'', ''audit.legacy''), oa_meanwhile = None, oa_env = sample_env\<rparr>"

definition sample_intent :: audit_record where
  "sample_intent = \<lparr>ar_ts_ms = 0, ar_kind = ''machine.effect.intent'', ar_wallet = None, ar_chain = None,
     ar_data = JObj [(''correlation_id'', JStr ''c1'')], ar_prev = [], ar_digest = []\<rparr>"

definition sample_log :: "(string, nat) audit_inner" where
  "sample_log = \<lparr>last_digest = [], ag_sequence = 0, pending_effects = {}, ag_snapshot = None,
     ag_identity = oa_identity sample_open, degraded = None, degradation_latched = False\<rparr>"

lemma sample_opened: "open_inner audit_ref sample_open (None, None) = (Ok sample_log, None, None)"
  by (simp add: open_inner_def sample_open_def prepare_legacy_migration_def open_log_def Let_def
      journal_bytes_def journal_snapshot_def inspect_def pending_effect_degradation_def sample_log_def)

lemma append_commits:
  assumes "allow \<or> degraded g = None" "env_stat_error env = None" "journal_snapshot d = ag_snapshot g"
    and "apply_effect_transition (pending_effects g) r = Some pending"
    and "journal_line L g (chained L (env_now env) g r) = Ok line"
    and "env_write env = Committed snap" "env_parent_error env = None"
  shows "append_locked L env allow r (g, d) =
    (Ok (chained L (env_now env) g r),
     g\<lparr>last_digest := ar_digest (chained L (env_now env) g r), pending_effects := pending, ag_snapshot := Some snap,
       ag_sequence := (if ag_identity g = None then ag_sequence g else ag_sequence g + 1)\<rparr>,
     Some (snap, appended d line))"
  using assms by (cases allow) (simp_all add: append_locked_def Let_def)

lemma sample_append:
  obtains r g d where "audit_append audit_ref sample_env sample_intent (sample_log, None) = (Ok r, g, d)"
    "ag_sequence g = 1" "pending_effects g = {''c1''}" "degraded g = None" "\<not> degradation_latched g"
    "ag_identity g = ag_identity sample_log"
proof -
  obtain line where l: "journal_line audit_ref sample_log
      (chained audit_ref (env_now sample_env) sample_log sample_intent) = Ok line"
    by (simp add: journal_line_def sample_log_def sample_open_def checked_succ_def)
  have e: "env_stat_error sample_env = None" "env_write sample_env = Committed 1" "env_parent_error sample_env = None"
    by (simp_all add: sample_env_def)
  have t: "apply_effect_transition (pending_effects sample_log) sample_intent = Some {''c1''}"
    by (simp add: apply_effect_transition_def effect_correlation_def sample_intent_def sample_log_def
        MAX_PENDING_MACHINE_EFFECTS_def)
  have g: "degraded sample_log = None" "journal_snapshot None = ag_snapshot sample_log"
      "ag_identity sample_log \<noteq> None" "ag_sequence sample_log = 0" "\<not> degradation_latched sample_log"
    by (simp_all add: sample_log_def sample_open_def journal_snapshot_def)
  show thesis
    by (rule that[unfolded audit_append_def, OF append_commits[OF _ e(1) g(2) t l e(2,3)]]) (use g in simp_all)
qed

lemma sample_ready: "log_ready (env_now sample_env) sample_intent"
  by (simp add: log_ready_def sample_env_def sample_intent_def GENESIS_def)

theorem committed_journal_verifies_witness:
  "\<exists>r g d. open_inner audit_ref sample_open (None, None) = (Ok sample_log, None, None) \<and>
     audit_append audit_ref sample_env sample_intent (sample_log, None) = (Ok r, g, d) \<and>
     inspect audit_ref (ident_of audit_ref sample_log) (Some (bytes_of d)) =
       Ok (ar_digest r, \<lparr>vt_sequence = 1, vt_pending = {''c1''}\<rparr>)"
proof -
  obtain r g d where a: "audit_append audit_ref sample_env sample_intent (sample_log, None) = (Ok r, g, d)"
    "ag_sequence g = 1" "pending_effects g = {''c1''}" using sample_append by metis
  have "env_now (oa_env sample_open) < 2 ^ 64" by (simp add: sample_open_def sample_env_def)
  from committed_journal_verifies[OF audit_ref_ok sample_opened this _ _ sample_ready a(1), of "[]"]
  show ?thesis using a sample_opened by auto
qed

theorem latched_log_frozen_witness:
  "\<exists>g. fold (log_step audit_ref) [LatchOp ''history''] (sample_log, None) = (g, None) \<and> degradation_latched g \<and>
     \<not> is_ok (fst (audit_append audit_ref sample_env sample_intent (g, None)))"
proof -
  let ?g = "latch_mutations ''history'' sample_log"
  have "env_now (oa_env sample_open) < 2 ^ 64" by (simp add: sample_open_def sample_env_def)
  from latched_log_frozen[OF audit_ref_ok sample_opened this, of "[LatchOp ''history'']" ?g None "[]" ?g None]
  show ?thesis by (auto simp: latch_mutations_def)
qed

lemma sample_journal:
  obtains g :: "(string, nat) audit_inner" and d :: "nat journal" where "verified audit_ref g (bytes_of d)" "pending_effects g = {''c1''}" "ag_sequence g = 1"
    "ag_identity g = ag_identity sample_log"
proof (rule sample_append)
  fix r g d
  assume a: "audit_append audit_ref sample_env sample_intent (sample_log, None) = (Ok r, g, d)"
    "ag_sequence g = 1" "pending_effects g = {''c1''}" "ag_identity g = ag_identity sample_log"
  have "log_inv audit_ref (sample_log, None)"
    by (rule open_inner_inv[OF audit_ref_ok _ sample_opened]) (simp add: sample_open_def sample_env_def)
  from committed_extends[OF audit_ref_ok this sample_ready a(1)] have "verified audit_ref g (bytes_of d)"
    by (rule conjunct1[OF conjunct2])
  then show thesis by (rule that[OF _ a(3,2,4)])
qed

lemma close_commits:
  assumes "audit_lib_ok L" "verified L g (bytes_of d)" "journal_snapshot d = ag_snapshot g" "log_ready (env_now env) r"
    and "apply_effect_transition (pending_effects g) r = Some pending"
    and "journal_line L g (chained L (env_now env) g r) = Ok line"
    and "env_stat_error env = None" "env_write env = Committed snap" "env_parent_error env = None"
  shows "is_ok (fst (reconcile_close L env r (g, d)))"
proof -
  have "inspect L (ident_of L g) (Some (appended d line)) =
    Ok (ar_digest (chained L (env_now env) g r),
        \<lparr>vt_sequence = (if ag_identity g = None then ag_sequence g else ag_sequence g + 1), vt_pending = pending\<rparr>)"
    using append_verifies[OF assms(1,2,5) refl assms(6)] assms(4) by (simp add: log_ready_def appended_bytes)
  moreover have "append_locked L env True r (g, d) =
    (Ok (chained L (env_now env) g r),
     g\<lparr>last_digest := ar_digest (chained L (env_now env) g r), pending_effects := pending, ag_snapshot := Some snap,
       ag_sequence := (if ag_identity g = None then ag_sequence g else ag_sequence g + 1)\<rparr>,
     Some (snap, appended d line))"
    by (rule append_commits[OF _ assms(7,3,5,6,8,9)]) simp
  ultimately show ?thesis by (simp add: reconcile_close_def journal_bytes_def)
qed

theorem reconcile_closes_one_effect_witness:
  "\<exists>(g :: (string, nat) audit_inner) d r g' d'.
     reconcile_pending_effect audit_ref sample_env ''c1'' ''committed''
       ''RECONCILE MACHINE AUDIT c1 AS COMMITTED'' (g, d) = (Ok r, g', d') \<and>
     degraded g \<noteq> None \<and> pending_effects g' = {} \<and> degraded g' = None"
proof (rule sample_journal)
  fix g0 :: "(string, nat) audit_inner" and d0 :: "nat journal"
  assume v: "verified audit_ref g0 (bytes_of d0)" "pending_effects g0 = {''c1''}" "ag_sequence g0 = 1"
    "ag_identity g0 = ag_identity sample_log"
  let ?d = "Some (7, bytes_of d0) :: nat journal"
  let ?r = "reconcile_record ''c1'' ''committed''"
  define g where "g = g0\<lparr>ag_snapshot := Some 7, degraded := pending_effect_degradation {''c1''},
    degradation_latched := False\<rparr>"
  have g: "pending_effects g = {''c1''}" "ag_sequence g = 1" "ag_identity g \<noteq> None" "ident_of audit_ref g = ident_of audit_ref g0"
    "degraded g = pending_effect_degradation {''c1''}" "\<not> degradation_latched g" "journal_snapshot ?d = ag_snapshot g"
    using v by (simp_all add: g_def sample_log_def sample_open_def ident_of_def journal_snapshot_def)
  have vg: "verified audit_ref g (bytes_of ?d)" using v(1) by (simp add: g_def verified_def bytes_of_def ident_of_def)
  obtain line where l: "journal_line audit_ref g (chained audit_ref (env_now sample_env) g ?r) = Ok line"
    using g(2,3) by (auto simp: journal_line_def checked_succ_def)
  have t: "apply_effect_transition (pending_effects g) ?r = Some {}"
    by (simp add: g apply_effect_transition_def effect_correlation_def reconcile_record_def)
  have upper: "to_ascii_uppercase ''committed'' = ''COMMITTED''" by code_simp
  have "is_ok (fst (reconcile_close audit_ref sample_env ?r (g, ?d)))"
    by (rule close_commits[OF audit_ref_ok vg g(7) _ t l])
      (simp_all add: sample_env_def reconcile_ready)
  moreover have "reconcile_refusal ''c1'' ''committed'' ''RECONCILE MACHINE AUDIT c1 AS COMMITTED'' g = None"
    using g(3) upper by (simp add: reconcile_refusal_def)
  moreover have "unresolved_refusal ''c1'' g {''c1''} = None" using g by (simp add: unresolved_refusal_None)
  moreover have "g\<lparr>last_digest := last_digest g, ag_sequence := ag_sequence g, pending_effects := pending_effects g,
      ag_snapshot := journal_snapshot ?d\<rparr> = g" using g(7) by simp
  ultimately have "is_ok (fst (reconcile_pending_effect audit_ref sample_env ''c1'' ''committed''
      ''RECONCILE MACHINE AUDIT c1 AS COMMITTED'' (g, ?d)))"
    using vg g(1) by (simp add: reconcile_pending_effect_def verified_def inspect_journal)
  then obtain r g' d' where k: "reconcile_pending_effect audit_ref sample_env ''c1'' ''committed''
      ''RECONCILE MACHINE AUDIT c1 AS COMMITTED'' (g, ?d) = (Ok r, g', d')"
    by (auto simp: is_ok_iff fst_def split: prod.splits)
  have now: "env_now sample_env < 2 ^ 64" by (simp add: sample_env_def)
  have "inspect audit_ref (ident_of audit_ref g) (Some (bytes_of ?d)) =
      Ok (last_digest g, \<lparr>vt_sequence = 1, vt_pending = {''c1''}\<rparr>)" using vg g(1,2) by (simp add: verified_def)
  with reconcile_closes_one_effect[OF audit_ref_ok now k] have "pending_effects g' = {}" "degraded g' = None" by auto
  moreover have "degraded g \<noteq> None" using g(5) by (simp add: pending_effect_degradation_def)
  ultimately show ?thesis using k by blast
qed

lemma buf_lines_blank: "c = [] \<or> last c = newline \<Longrightarrow> buf_lines (c @ [newline]) = buf_lines c @ [[]]"
  using split_on_last[of c newline] split_on_snoc[of newline "[]" c]
  by (simp add: buf_lines_def Let_def strip_cr_def butlast_append)
    (metis (no_types) append_butlast_last_id list.simps(8,9) map_append split_on_nonempty strip_cr_def)

lemma inspect_blank:
  assumes "inspect L ident (Some c) = Ok (head, tail)"
  shows "inspect L ident (Some (c @ [newline])) = Ok (head, tail)"
  using assms buf_lines_blank[of c]
  by (auto simp: inspect_Ok inspect_lines_append inspect_line_def utf8_valid_def)

theorem tampering_evident_witness:
  "\<exists>ident c head tail. inspect audit_ref ident (Some c) = Ok (head, tail) \<and>
     inspect audit_ref ident (Some (c @ [newline])) = Ok (head, tail) \<and> vt_pending tail = {''c1''} \<and>
     journal_records audit_ref c = journal_records audit_ref (c @ [newline])"
proof (rule sample_journal)
  fix g :: "(string, nat) audit_inner" and d :: "nat journal"
  assume v: "verified audit_ref g (bytes_of d)" "pending_effects g = {''c1''}"
  note i = v(1)[unfolded verified_def] and j = inspect_blank[OF v(1)[unfolded verified_def]]
  have "al_b3 audit_ref x = al_b3 audit_ref y \<Longrightarrow> x = y" for x y by (simp add: audit_ref_def)
  with tampering_evident[OF audit_ref_ok i j]
  have "journal_records audit_ref (bytes_of d) = journal_records audit_ref (bytes_of d @ [newline])" by blast
  then show ?thesis
    by (intro exI[of _ "ident_of audit_ref g"] exI[of _ "bytes_of d"] exI[of _ "last_digest g"]
        exI[of _ "\<lparr>vt_sequence = ag_sequence g, vt_pending = pending_effects g\<rparr>"] conjI i j)
      (simp_all only: v(2) verified_tail.select_convs)
qed

end
