(* ===== verification/Units.thy ===== *)
theory Units
  imports Bloom_Prelude
begin

text \<open>
  Amounts: \<open>crates/bloom-proto/src/units.rs\<close> and the micro-USD helpers of
  \<open>serde_micro.rs\<close>. The 256-bit integer type \<open>U256\<close> is a third-party type; its decimal
  printer and parser are the two fields of \<open>u256_lib\<close>, and \<open>u256_lib_ok\<close> states their
  documented behaviour. The lemmas show what a parsed amount denotes, which inputs are refused,
  and that printing an amount and parsing it again returns it.
\<close>

section \<open>The 256-bit integers\<close>

record u256_lib =
  u256_to_string :: "nat \<Rightarrow> string"
  u256_from_str_radix10 :: "string \<Rightarrow> nat option"

abbreviation u256_bound :: nat where "u256_bound \<equiv> 2 ^ 256"

definition u256_lib_ok :: "u256_lib \<Rightarrow> bool" where
  "u256_lib_ok L \<longleftrightarrow>
     (\<forall>v < u256_bound. u256_to_string L v = show_nat v) \<and>
     (\<forall>s. s \<noteq> [] \<and> all_digits s \<longrightarrow>
        u256_from_str_radix10 L s = (if dec_val s < u256_bound then Some (dec_val s) else None))"

text \<open>A concrete library that meets the contract.\<close>

definition u256_ref :: u256_lib where
  "u256_ref = \<lparr> u256_to_string = show_nat,
     u256_from_str_radix10 =
       (\<lambda>s. if s \<noteq> [] \<and> all_digits s \<and> dec_val s < u256_bound then Some (dec_val s) else None) \<rparr>"

lemma u256_ref_ok: "u256_lib_ok u256_ref"
  by (simp add: u256_lib_ok_def u256_ref_def)

section \<open>Parsing\<close>

datatype unit_error = Empty | Parse string | UnknownUnit string

record parsed_amount =
  pa_raw :: "nat option"
  pa_unit :: string
  pa_number :: string
  pa_explicit_unit :: bool

definition is_native :: "parsed_amount \<Rightarrow> bool" where
  "is_native p \<longleftrightarrow> pa_unit p \<in> {''wei'', ''gwei'', ''eth'', ''ether''}"

definition pad_zeros :: "string \<Rightarrow> nat \<Rightarrow> string" where
  "pad_zeros s n = s @ replicate (n - length s) CHR ''0''"

definition parse_decimal :: "u256_lib \<Rightarrow> string \<Rightarrow> nat \<Rightarrow> (unit_error, nat) result" where
  "parse_decimal L s0 decimals =
    (let s = trim s0 in
     if s = [] then Err (Parse s)
     else if starts_with s ''-'' then Err (Parse s)
     else
       let body = (case strip_prefix ''+'' s of Some b \<Rightarrow> b | None \<Rightarrow> s);
           (whole_str, frac_str) =
             (case split_once CHR ''.'' body of Some (a, b) \<Rightarrow> (a, b) | None \<Rightarrow> (body, []))
       in
       if (\<exists>c \<in> set whole_str. \<not> is_ascii_digit c) \<and> whole_str \<noteq> [] then Err (Parse s)
       else if (\<exists>c \<in> set frac_str. \<not> is_ascii_digit c) then Err (Parse s)
       else if length frac_str > decimals then
         Err (Parse (s @ '' has more than '' @ show_nat decimals @ '' fractional digits''))
       else
         let padded_frac = pad_zeros frac_str decimals;
             combined = (if whole_str = [] \<and> padded_frac = [] then ''0''
                         else if whole_str = [] then padded_frac
                         else whole_str @ padded_frac)
         in ok_or (u256_from_str_radix10 L combined) (Parse s))"

text \<open>The index of the first ASCII letter.\<close>

fun first_alpha :: "string \<Rightarrow> nat option" where
  "first_alpha [] = None"
| "first_alpha (c # s) =
     (if is_ascii_alphabetic c then Some 0 else map_option Suc (first_alpha s))"

definition parse_amount :: "u256_lib \<Rightarrow> string \<Rightarrow> (unit_error, parsed_amount) result" where
  "parse_amount L s0 =
    (let s = trim s0 in
     if s = [] then Err Empty
     else
       let (num_part, unit_part) =
             (case first_alpha s of
                Some i \<Rightarrow> (trim (take i s), to_ascii_lowercase (trim (drop i s)))
              | None \<Rightarrow> (s, ''wei''))
       in
       if num_part = [] then Err (Parse s)
       else
         let explicit_unit = (first_alpha s \<noteq> None) in
         and_then
           (if \<not> explicit_unit then Ok None
            else if unit_part = ''wei'' then and_then (parse_decimal L num_part 0) (Ok \<circ> Some)
            else if unit_part = ''gwei'' then and_then (parse_decimal L num_part 9) (Ok \<circ> Some)
            else if unit_part = ''eth'' \<or> unit_part = ''ether'' then
              and_then (parse_decimal L num_part 18) (Ok \<circ> Some)
            else Ok None)
           (\<lambda>raw. Ok \<lparr> pa_raw = raw, pa_unit = unit_part, pa_number = num_part,
                        pa_explicit_unit = explicit_unit \<rparr>))"

definition parse_units :: "u256_lib \<Rightarrow> string \<Rightarrow> nat \<Rightarrow> (unit_error, nat) result" where
  "parse_units L s decimals = parse_decimal L (trim s) decimals"

definition parse_eth :: "u256_lib \<Rightarrow> string \<Rightarrow> (unit_error, nat) result" where
  "parse_eth L s =
     and_then (parse_amount L s)
       (\<lambda>p. if \<not> pa_explicit_unit p then parse_decimal L (pa_number p) 0
             else ok_or (pa_raw p) (UnknownUnit (pa_unit p)))"

section \<open>Printing\<close>

definition trim_end_matches :: "char \<Rightarrow> string \<Rightarrow> string" where
  "trim_end_matches c s = rev (dropWhile (\<lambda>x. x = c) (rev s))"

definition trim_trailing :: "string \<Rightarrow> string" where
  "trim_trailing s =
    (if CHR ''.'' \<notin> set s then s
     else let trimmed = trim_end_matches CHR ''.'' (trim_end_matches CHR ''0'' s)
          in if trimmed = [] then ''0'' else trimmed)"

definition format_units :: "u256_lib \<Rightarrow> nat \<Rightarrow> nat \<Rightarrow> string" where
  "format_units L v decimals =
    (if decimals = 0 then u256_to_string L v
     else let s = u256_to_string L v; dec = decimals in
       if length s \<le> dec then
         trim_trailing (''0.'' @ replicate (dec - length s) CHR ''0'' @ s)
       else trim_trailing (take (length s - dec) s @ ''.'' @ drop (length s - dec) s))"

section \<open>Micro-USD\<close>

definition quote :: string where "quote = [CHR 0x27]"

fun unit_error_to_string :: "unit_error \<Rightarrow> string" where
  "unit_error_to_string Empty = ''empty amount''"
| "unit_error_to_string (Parse t) = ''could not parse amount '' @ quote @ t @ quote"
| "unit_error_to_string (UnknownUnit t) = ''unknown unit '' @ quote @ t @ quote"

definition MICRO_USD :: nat where "MICRO_USD = 1000000"

definition serde_parse_decimal_micro :: "u256_lib \<Rightarrow> string \<Rightarrow> (string, nat) result" where
  "serde_parse_decimal_micro L s =
     and_then
       (map_err (\<lambda>e. ''bad USD amount '' @ quote @ s @ quote @ '': '' @ unit_error_to_string e)
          (parse_units L (trim s) 6))
       (\<lambda>v. if v < 2 ^ 64 then Ok v
             else Err (''USD amount '' @ quote @ s @ quote @ '' too large''))"

definition fmt_usd :: "u256_lib \<Rightarrow> nat \<Rightarrow> string" where
  "fmt_usd L micro = format_units L micro 6"

section \<open>What a decimal denotes\<close>

text \<open>The value of \<open>W.F\<close> scaled by \<open>10 ^ decimals\<close>, exact when \<open>F\<close> fits.\<close>

definition scaled :: "string \<Rightarrow> string \<Rightarrow> nat \<Rightarrow> nat" where
  "scaled W F d = dec_val W * 10 ^ d + dec_val F * 10 ^ (d - length F)"

lemma dec_val_pad: "length F \<le> d \<Longrightarrow> dec_val (W @ pad_zeros F d) = scaled W F d"
  by (simp add: pad_zeros_def scaled_def dec_val_append algebra_simps flip: power_add)

lemma pad_zeros_digits [simp]: "all_digits (pad_zeros F d) \<longleftrightarrow> all_digits F"
  by (simp add: pad_zeros_def)

text \<open>A numeral as the parser sees it: digits with at most one point between them.\<close>

definition numeral_of :: "string \<Rightarrow> string \<Rightarrow> bool \<Rightarrow> string" where
  "numeral_of W F point = (if point then W @ ''.'' @ F else W)"

lemma starts_with_Cons [simp]: "starts_with (c # s) [d] \<longleftrightarrow> c = d"
  by (simp add: starts_with_def)

lemma strip_prefix_Cons [simp]: "strip_prefix [d] (c # s) = (if c = d then Some s else None)"
  by (simp add: strip_prefix_def)

lemma digit_sign: "is_ascii_digit c \<Longrightarrow> c \<noteq> CHR ''-'' \<and> c \<noteq> CHR ''+''"
  by (auto simp: is_ascii_digit_def byte_def)

lemma solid_dot [simp]: "solid CHR ''.''"
  by (simp add: solid_def ws1_def byte_def)

lemma solid_numeral:
  assumes "all_digits W" "all_digits F"
  shows "trim (numeral_of W F p) = numeral_of W F p"
  by (rule trim_all_solid) (use assms in \<open>auto simp: numeral_of_def all_digits_def split: if_splits\<close>)

lemma parse_decimal_numeral:
  assumes "u256_lib_ok L" "all_digits W" "all_digits F" "W \<noteq> []" "\<not> p \<Longrightarrow> F = []"
  shows "parse_decimal L (numeral_of W F p) d =
    (if length F > d
     then Err (Parse (numeral_of W F p @ '' has more than '' @ show_nat d @ '' fractional digits''))
     else if scaled W F d < u256_bound then Ok (scaled W F d)
     else Err (Parse (numeral_of W F p)))"
proof -
  obtain c w where W: "W = c # w" using assms(4) by (cases W) auto
  have c: "is_ascii_digit c" using assms(2) W by simp
  let ?s = "numeral_of W F p"
  have ne: "?s \<noteq> []" and hd: "?s = c # tl ?s" by (auto simp: numeral_of_def W)
  have neg: "\<not> starts_with ?s ''-''"
    by (subst hd) (use digit_sign[OF c] in simp)
  have plus: "strip_prefix ''+'' ?s = None"
    by (subst hd) (use digit_sign[OF c] in simp)
  have split: "(case split_once CHR ''.'' ?s of Some (a, b) \<Rightarrow> (a, b) | None \<Rightarrow> (?s, [])) = (W, F)"
  proof (cases p)
    case True
    then show ?thesis
      using split_once_append[OF all_digits_no_dot[OF assms(2)], of F] by (simp add: numeral_of_def)
  next
    case False
    then have "split_once CHR ''.'' ?s = None"
      using all_digits_no_dot[OF assms(2)] by (simp add: split_once_None numeral_of_def)
    then show ?thesis using False assms(5) by (simp add: numeral_of_def)
  qed
  have digs: "\<forall>c \<in> set W. is_ascii_digit c" "\<forall>c \<in> set F. is_ascii_digit c"
    using assms(2,3) by (auto simp: all_digits_def)
  have conv: "u256_from_str_radix10 L (W @ pad_zeros F d) =
      (if scaled W F d < u256_bound then Some (scaled W F d) else None)" if "length F \<le> d"
    using assms(1,2,3,4) that by (simp add: u256_lib_ok_def dec_val_pad)
  show ?thesis
    using digs conv assms(4)
    by (simp add: parse_decimal_def solid_numeral[OF assms(2,3)] ne neg plus split Let_def)
qed

lemma split_point:
  assumes "(case split_once CHR ''.'' b of Some (x, y) \<Rightarrow> (x, y) | None \<Rightarrow> (b, [])) = (W, F)"
  obtains p where "b = numeral_of W F p" "\<not> p \<longrightarrow> F = []"
proof (cases "split_once CHR ''.'' b")
  case None
  then show ?thesis using that[of False] assms by (simp add: numeral_of_def)
next
  case (Some xy)
  then show ?thesis
    using that[of True] assms split_once_Some[of "CHR ''.''" b] by (auto simp: numeral_of_def)
qed

lemma combined_value:
  assumes "u256_lib_ok L" "all_digits W" "all_digits F" "length F \<le> d"
    and "u256_from_str_radix10 L (if W = [] \<and> pad_zeros F d = [] then ''0''
           else if W = [] then pad_zeros F d else W @ pad_zeros F d) = Some v"
  shows "v = scaled W F d \<and> v < u256_bound"
proof -
  let ?c = "if W = [] \<and> pad_zeros F d = [] then ''0''
           else if W = [] then pad_zeros F d else W @ pad_zeros F d"
  have c: "?c \<noteq> []" "all_digits ?c" "dec_val ?c = dec_val (W @ pad_zeros F d)"
    using assms(2,3) by (auto simp: dec_val_Cons byte_def)
  then have "u256_from_str_radix10 L ?c =
      (if dec_val ?c < u256_bound then Some (dec_val ?c) else None)"
    using assms(1) unfolding u256_lib_ok_def by blast
  then show ?thesis
    using assms(4,5) c(3) dec_val_pad[of F d W] by (auto split: if_splits)
qed

text \<open>
  whenever \<open>parse_decimal\<close> accepts a text, the trimmed text is an optional plus sign and a
  decimal numeral \<open>W.F\<close> of ASCII digits with at most \<open>decimals\<close> fractional digits, and the
  result is exactly \<open>W.F\<close> times \<open>10 ^ decimals\<close>, below \<open>2 ^ 256\<close>: no rounding, no
  wrap-around, no sign.
\<close>

theorem parse_decimal_exact:
  assumes "u256_lib_ok L" and "parse_decimal L s d = Ok v"
  shows "\<exists>sign W F point. sign \<in> {[], ''+''} \<and> trim s = sign @ numeral_of W F point \<and>
    all_digits W \<and> all_digits F \<and> length F \<le> d \<and> v = scaled W F d \<and> v < u256_bound"
proof -
  define t where "t = trim s"
  define b where "b = (case strip_prefix ''+'' t of Some b \<Rightarrow> b | None \<Rightarrow> t)"
  obtain W F where WF: "(case split_once CHR ''.'' b of Some (x, y) \<Rightarrow> (x, y) | None \<Rightarrow> (b, [])) = (W, F)"
    by (cases "case split_once CHR ''.'' b of Some (x, y) \<Rightarrow> (x, y) | None \<Rightarrow> (b, [])")
  note eq = assms(2)[unfolded parse_decimal_def Let_def, folded t_def, folded b_def, unfolded WF]
  have ok: "all_digits W" "all_digits F" "length F \<le> d"
    using eq by (auto simp: all_digits_def split: if_splits)
  have "u256_from_str_radix10 L (if W = [] \<and> pad_zeros F d = [] then ''0''
           else if W = [] then pad_zeros F d else W @ pad_zeros F d) = Some v"
    using eq by (auto simp: ok_or_def split: if_splits option.splits)
  then have v: "v = scaled W F d \<and> v < u256_bound"
    by (rule combined_value[OF assms(1) ok])
  obtain p where p: "b = numeral_of W F p" using split_point[OF WF] by blast
  obtain sign where sign: "sign \<in> {[], ''+''}" "t = sign @ b"
  proof (cases "strip_prefix ''+'' t")
    case None
    then show ?thesis using that[of "[]"] by (simp add: b_def)
  next
    case (Some b')
    then show ?thesis using that[of "''+''"] strip_prefix_Some[OF Some] by (simp add: b_def)
  qed
  show ?thesis
    using sign p ok v unfolding t_def by blast
qed

theorem parse_decimal_exact_witness:
  "u256_lib_ok u256_ref \<and> parse_decimal u256_ref '' 1.5'' 18 = Ok 1500000000000000000 \<and>
   (\<exists>sign W F point. sign \<in> {[], ''+''} \<and> trim '' 1.5'' = sign @ numeral_of W F point \<and>
      all_digits W \<and> all_digits F \<and> length F \<le> 18 \<and>
      (1500000000000000000 :: nat) = scaled W F 18 \<and> (1500000000000000000 :: nat) < u256_bound)"
proof -
  have "parse_decimal u256_ref '' 1.5'' 18 = Ok 1500000000000000000" by code_simp
  then show ?thesis using u256_ref_ok parse_decimal_exact[OF u256_ref_ok] by blast
qed

section \<open>Printing and parsing again\<close>

lemma strip_zeros:
  obtains k where "F = trim_end_matches CHR ''0'' F @ replicate k CHR ''0''"
proof -
  let ?z = "takeWhile (\<lambda>x. x = CHR ''0'') (rev F)"
  have "rev F = ?z @ dropWhile (\<lambda>x. x = CHR ''0'') (rev F)" by simp
  then have "rev (rev F) = trim_end_matches CHR ''0'' F @ rev ?z"
    unfolding trim_end_matches_def by (metis rev_append)
  moreover have "?z = replicate (length ?z) CHR ''0''"
    by (rule replicate_length_same[symmetric]) (auto dest: set_takeWhileD)
  ultimately have "F = trim_end_matches CHR ''0'' F @ replicate (length ?z) CHR ''0''"
    by (metis rev_replicate rev_rev_ident)
  then show thesis by (rule that)
qed

lemma trim_end_matches_last:
  assumes "trim_end_matches c s \<noteq> []"
  shows "last (trim_end_matches c s) \<noteq> c"
  using assms hd_dropWhile[of "\<lambda>x. x = c" "rev s"] by (auto simp: trim_end_matches_def last_rev)

lemma trim_end_matches_append:
  "trim_end_matches c (s @ t) =
     (if trim_end_matches c t = [] then trim_end_matches c s else s @ trim_end_matches c t)"
  by (auto simp: trim_end_matches_def dropWhile_append)

lemma trim_end_matches_Cons:
  "trim_end_matches c (d # t) =
     (if trim_end_matches c t = [] then (if d = c then [] else [d]) else d # trim_end_matches c t)"
  using trim_end_matches_append[of c "[d]" t] by (auto simp: trim_end_matches_def)

lemma trim_end_matches_last_ne: "s \<noteq> [] \<Longrightarrow> last s \<noteq> c \<Longrightarrow> trim_end_matches c s = s"
  by (cases s rule: rev_cases) (auto simp: trim_end_matches_def)

lemma trim_trailing_point:
  assumes "all_digits W" "W \<noteq> []" "all_digits F"
  defines "G \<equiv> trim_end_matches CHR ''0'' F"
  shows "trim_trailing (W @ ''.'' @ F) = numeral_of W G (G \<noteq> [])"
proof (cases "G = []")
  case True
  have "trim_end_matches CHR ''0'' (W @ ''.'' @ F) = W @ ''.''"
    using True by (simp add: trim_end_matches_append trim_end_matches_Cons G_def)
  moreover have "trim_end_matches CHR ''.'' (W @ ''.'') = W"
    using assms(1,2) digit_not_dot[of "last W"] 
    by (simp add: trim_end_matches_append trim_end_matches_last_ne all_digits_def)
      (simp add: trim_end_matches_def)
  ultimately show ?thesis
    using True assms(2) by (simp add: trim_trailing_def numeral_of_def)
next
  case False
  have z: "trim_end_matches CHR ''0'' (W @ ''.'' @ F) = W @ ''.'' @ G"
    using False by (simp add: trim_end_matches_append trim_end_matches_Cons G_def)
  obtain k where "F = G @ replicate k CHR ''0''"
    using strip_zeros[of F] G_def by blast
  then have "all_digits G" using assms(3) by simp
  then have "last G \<noteq> CHR ''.''"
    using False digit_not_dot[of "last G"] by (simp add: all_digits_def)
  then have "trim_end_matches CHR ''.'' (W @ ''.'' @ G) = W @ ''.'' @ G"
    using False by (intro trim_end_matches_last_ne) simp_all
  then show ?thesis
    using z False by (simp add: trim_trailing_def numeral_of_def)
qed

lemma trim_trailing_scaled:
  assumes W: "all_digits W" "W \<noteq> []" and F: "all_digits F" "length F = d"
  obtains G where "all_digits G" "length G \<le> d" "scaled W G d = dec_val (W @ F)"
    "trim_trailing (W @ ''.'' @ F) = numeral_of W G (G \<noteq> [])"
proof -
  define G where "G = trim_end_matches CHR ''0'' F"
  obtain k where k: "F = G @ replicate k CHR ''0''"
    using strip_zeros[of F] G_def by blast
  then have G: "all_digits G" "length G \<le> d" "k = d - length G" using F by auto
  have "scaled W G d = dec_val (W @ F)"
    using G k by (subst dec_val_pad[symmetric]) (simp_all add: pad_zeros_def)
  then show thesis using that G trim_trailing_point[OF W F(1)] by (simp add: G_def)
qed

text \<open>The text \<open>format_units\<close> prints is a numeral whose scaled value is the amount.\<close>

lemma format_units_shape:
  assumes "u256_lib_ok L" and "v < u256_bound"
  obtains W G where "all_digits W" "W \<noteq> []" "all_digits G" "length G \<le> d" "scaled W G d = v"
    "format_units L v d = numeral_of W G (G \<noteq> [])"
proof -
  have s: "u256_to_string L v = show_nat v" using assms by (simp add: u256_lib_ok_def)
  let ?l = "length (show_nat v)"
  consider "d = 0" | "d \<noteq> 0" "?l \<le> d" | "d \<noteq> 0" "d < ?l" by linarith
  then show thesis
  proof cases
    case 1
    then show ?thesis
      using that[of "show_nat v" "[]"] by (simp add: format_units_def s numeral_of_def scaled_def)
  next
    case 2
    let ?F = "replicate (d - ?l) CHR ''0'' @ show_nat v"
    have F: "all_digits ''0''" "''0'' \<noteq> []" "all_digits ?F" "length ?F = d" using 2 by simp_all
    have "format_units L v d = trim_trailing (''0'' @ ''.'' @ ?F)" "dec_val (''0'' @ ?F) = v"
      using 2 by (simp_all add: format_units_def s dec_val_append dec_val_Cons byte_def Let_def)
    then show ?thesis using trim_trailing_scaled[OF F] that[OF F(1,2)] by metis
  next
    case 3
    let ?W = "take (?l - d) (show_nat v)" and ?F = "drop (?l - d) (show_nat v)"
    have "all_digits (?W @ ?F)" by simp
    then have F: "all_digits ?W" "?W \<noteq> []" "all_digits ?F" "length ?F = d"
      unfolding all_digits_simps using 3 by auto
    have "format_units L v d = trim_trailing (?W @ ''.'' @ ?F)" "dec_val (?W @ ?F) = v"
      using 3 by (simp_all add: format_units_def s Let_def)
    then show ?thesis using trim_trailing_scaled[OF F] that[OF F(1,2)] by metis
  qed
qed

text \<open>
  C29: for every 256-bit amount and every number of decimals, parsing the printed amount with the
  same number of decimals returns the amount (\<open>format_units\<close> then \<open>parse_units\<close>), given the
  documented behaviour of the third-party integer parser and printer.
\<close>

theorem format_parse_roundtrip:
  assumes "u256_lib_ok L" and "v < u256_bound"
  shows "parse_units L (format_units L v d) d = Ok v"
proof -
  obtain W G where G: "all_digits W" "W \<noteq> []" "all_digits G" "length G \<le> d" "scaled W G d = v"
    "format_units L v d = numeral_of W G (G \<noteq> [])" using format_units_shape[OF assms] by blast
  have "trim (numeral_of W G (G \<noteq> [])) = numeral_of W G (G \<noteq> [])"
    by (rule solid_numeral[OF G(1,3)])
  then show ?thesis
    using parse_decimal_numeral[OF assms(1) G(1,3,2), of "G \<noteq> []" d] G assms(2)
    by (simp add: parse_units_def)
qed

theorem format_parse_roundtrip_witness:
  "u256_lib_ok u256_ref \<and> parse_units u256_ref (format_units u256_ref 1500000000000000000 18) 18
     = Ok 1500000000000000000"
proof -
  have "(1500000000000000000 :: nat) < u256_bound" by simp
  then show ?thesis using u256_ref_ok format_parse_roundtrip[OF u256_ref_ok] by blast
qed

end
