(* ===== verification/F64.thy ===== *)
theory F64
  imports Bloom_Prelude "HOL-Library.Log_Nat"
begin

text \<open>
  The \<open>f64\<close> values the wallet policy compares: NaN, the infinities and the finite binary64
  numbers as rationals (the two zeros are one value, as every comparison of the sources has it).
  Rounding is to nearest, ties to even, with 53 significant bits and the subnormal range, computed
  on rationals; \<open>str::parse\<close> and \<open>+\<close> round the exact result, as IEEE 754 and the Rust standard
  library specify.
\<close>

section \<open>Values, comparison, minimum\<close>

datatype f64 = F_nan | F_inf bool | F_fin rat

text \<open>The flag of \<open>F_inf\<close> is the sign: \<^const>\<open>True\<close> for the negative one.\<close>

fun f64_le :: "f64 \<Rightarrow> f64 \<Rightarrow> bool" where
  "f64_le F_nan _ = False"
| "f64_le _ F_nan = False"
| "f64_le (F_inf True) _ = True"
| "f64_le _ (F_inf False) = True"
| "f64_le (F_inf False) _ = False"
| "f64_le _ (F_inf True) = False"
| "f64_le (F_fin a) (F_fin b) = (a \<le> b)"

definition f64_gt :: "f64 \<Rightarrow> f64 \<Rightarrow> bool" where
  "f64_gt a b \<longleftrightarrow> f64_le b a \<and> \<not> f64_le a b"

text \<open>\<open>f64::min\<close> ignores a NaN argument.\<close>

definition f64_min :: "f64 \<Rightarrow> f64 \<Rightarrow> f64" where
  "f64_min a b = (if a = F_nan then b else if b = F_nan then a else if f64_le a b then a else b)"

lemma f64_gt_nan [simp]: "\<not> f64_gt F_nan b" "\<not> f64_gt a F_nan"
  by (auto simp: f64_gt_def elim: f64_le.elims)

lemma f64_gt_fin [simp]: "f64_gt (F_fin a) (F_fin b) \<longleftrightarrow> b < a"
  by (auto simp: f64_gt_def)

text \<open>The values without NaN embed in the order of pairs: a level, then a rational.\<close>

definition level :: "f64 \<Rightarrow> int" where
  "level a = (case a of F_inf s \<Rightarrow> if s then - 1 else 1 | _ \<Rightarrow> 0)"

definition finite_part :: "f64 \<Rightarrow> rat" where
  "finite_part a = (case a of F_fin q \<Rightarrow> q | _ \<Rightarrow> 0)"

lemma f64_le_iff:
  "f64_le a b \<longleftrightarrow> a \<noteq> F_nan \<and> b \<noteq> F_nan \<and>
     (level a < level b \<or> level a = level b \<and> finite_part a \<le> finite_part b)"
  by (cases "(a, b)" rule: f64_le.cases) (auto simp: level_def finite_part_def split: f64.splits)

lemma f64_le_trans: "f64_le a b \<Longrightarrow> f64_le b c \<Longrightarrow> f64_le a c"
  unfolding f64_le_iff by linarith

text \<open>A value above one of two caps is above their minimum, and conversely.\<close>

lemma f64_gt_min: "f64_gt v (f64_min a b) \<longleftrightarrow> f64_gt v a \<or> f64_gt v b"
proof (cases "a = F_nan \<or> b = F_nan \<or> v = F_nan")
  case True
  then show ?thesis by (auto simp: f64_min_def)
next
  case False
  then show ?thesis unfolding f64_min_def f64_gt_def f64_le_iff by simp linarith
qed

section \<open>Rounding\<close>

definition pow2 :: "int \<Rightarrow> rat" where
  "pow2 e = (if 0 \<le> e then of_int (2 ^ nat e) else 1 / of_int (2 ^ nat (- e)))"

lemma pow2_pos [simp]: "0 < pow2 e"
  by (simp add: pow2_def)

lemma pow2_powi: "pow2 e = 2 powi e"
  by (simp add: pow2_def power_int_def field_simps)

lemma pow2_add: "pow2 (a + b) = pow2 a * pow2 b"
  by (simp add: pow2_powi power_int_add)

lemma pow2_mono: "a \<le> b \<Longrightarrow> pow2 a \<le> pow2 b"
  by (simp add: pow2_powi power_int_increasing)

lemma pow2_less_iff: "pow2 a < pow2 b \<longleftrightarrow> a < b"
  using power_int_strict_increasing[of a b "2 :: rat"] pow2_mono[of b a]
  by (cases "a < b") (auto simp: pow2_powi not_less)

text \<open>The exponent of the leading bit of a positive rational.\<close>

definition exponent :: "rat \<Rightarrow> int" where
  "exponent q =
     (let (n, d) = quotient_of q; e = bitlen n - bitlen d
      in if pow2 e \<le> q then e else e - 1)"

definition round_half_even :: "rat \<Rightarrow> int" where
  "round_half_even x =
     (let f = \<lfloor>x\<rfloor>; r = x - of_int f
      in if r < 1 / 2 then f else if r > 1 / 2 then f + 1
         else if even f then f else f + 1)"

definition ulp_exp :: "rat \<Rightarrow> int" where
  "ulp_exp q = max (exponent q) (- 1022) - 52"

definition round_pos :: "rat \<Rightarrow> rat" where
  "round_pos q =
     (if q \<le> 0 then 0 else of_int (round_half_even (q / pow2 (ulp_exp q))) * pow2 (ulp_exp q))"

definition f64_of_rat :: "rat \<Rightarrow> f64" where
  "f64_of_rat q =
     (let r = (if q < 0 then - round_pos (- q) else round_pos q)
      in if r \<noteq> 0 \<and> 1024 \<le> exponent \<bar>r\<bar> then F_inf (q < 0) else F_fin r)"

definition f64_valid :: "f64 \<Rightarrow> bool" where
  "f64_valid x = (case x of F_fin r \<Rightarrow> f64_of_rat r = F_fin r | _ \<Rightarrow> True)"

definition f64_add :: "f64 \<Rightarrow> f64 \<Rightarrow> f64" where
  "f64_add a b =
     (case (a, b) of
        (F_fin x, F_fin y) \<Rightarrow> f64_of_rat (x + y)
      | (F_nan, _) \<Rightarrow> F_nan
      | (_, F_nan) \<Rightarrow> F_nan
      | (F_inf s, F_inf t) \<Rightarrow> if s = t then F_inf s else F_nan
      | (F_inf s, _) \<Rightarrow> F_inf s
      | (_, F_inf t) \<Rightarrow> F_inf t)"

lemma bitlen_pow2:
  assumes "0 < n"
  shows "pow2 (bitlen n - 1) \<le> of_int n" "of_int n < pow2 (bitlen n)"
proof -
  have b: "2 ^ nat (bitlen n - 1) \<le> n \<and> n < 2 ^ nat (bitlen n)"
    using bitlen_bounds[OF assms] .
  have p: "0 < bitlen n" using assms by (simp add: bitlen_eq_zero_iff order_less_le bitlen_nonneg)
  then have "pow2 (bitlen n - 1) = of_int (2 ^ nat (bitlen n - 1))" "pow2 (bitlen n) = of_int (2 ^ nat (bitlen n))"
    by (simp_all add: pow2_def)
  then show "pow2 (bitlen n - 1) \<le> of_int n" "of_int n < pow2 (bitlen n)"
    using b by (simp_all only: of_int_le_iff of_int_less_iff)
qed

lemma exponent_bounds:
  assumes "0 < q"
  shows "pow2 (exponent q) \<le> q" "q < pow2 (exponent q + 1)"
proof -
  obtain n d where nd: "quotient_of q = (n, d)" by (cases "quotient_of q")
  then have d: "0 < d" and q: "q = of_int n / of_int d"
    by (auto simp: quotient_of_denom_pos quotient_of_div)
  with assms have n: "0 < n" by (simp add: zero_less_divide_iff)
  define e where "e = bitlen n - bitlen d"
  have nb: "pow2 (bitlen n - 1) \<le> of_int n" "of_int n < pow2 (bitlen n)"
    and db: "pow2 (bitlen d - 1) \<le> of_int d" "of_int d < pow2 (bitlen d)"
    using bitlen_pow2 n d by auto
  have "pow2 (bitlen n) = pow2 (e + 1) * pow2 (bitlen d - 1)"
    and "pow2 (bitlen n - 1) = pow2 (e - 1) * pow2 (bitlen d)"
    by (simp_all add: e_def flip: pow2_add)
  then have "of_int n < pow2 (e + 1) * of_int d" "pow2 (e - 1) * of_int d \<le> of_int n"
    using nb mult_left_mono[OF db(1) less_imp_le[OF pow2_pos[of "e + 1"]]]
      mult_left_mono[OF less_imp_le[OF db(2)] less_imp_le[OF pow2_pos[of "e - 1"]]]
    by linarith+
  then have "q < pow2 (e + 1)" "pow2 (e - 1) \<le> q"
    using d by (simp_all add: q pos_divide_less_eq pos_le_divide_eq)
  then show "pow2 (exponent q) \<le> q" "q < pow2 (exponent q + 1)"
    by (auto simp: exponent_def nd Let_def e_def[symmetric])
qed

lemma exponent_mono: "0 < q \<Longrightarrow> q \<le> r \<Longrightarrow> exponent q \<le> exponent r"
  using exponent_bounds[of q] exponent_bounds[of r] pow2_less_iff[of "exponent q" "exponent r + 1"]
  by linarith

lemma round_half_even_of_int [simp]: "round_half_even (of_int i) = i"
  by (simp add: round_half_even_def)

lemma round_half_even_floor: "\<lfloor>x\<rfloor> \<le> round_half_even x" "round_half_even x \<le> \<lfloor>x\<rfloor> + 1"
  by (auto simp: round_half_even_def Let_def)

lemma round_half_even_mono: "x \<le> y \<Longrightarrow> round_half_even x \<le> round_half_even y"
proof (cases "\<lfloor>x\<rfloor> = \<lfloor>y\<rfloor>")
  case True
  then show "x \<le> y \<Longrightarrow> ?thesis" by (auto simp: round_half_even_def Let_def)
next
  case False
  then show "x \<le> y \<Longrightarrow> ?thesis"
    using round_half_even_floor[of x] round_half_even_floor[of y] floor_mono[of x y] by linarith
qed

lemma round_half_even_error: "\<bar>of_int (round_half_even x) - x\<bar> \<le> 1 / 2"
proof -
  have "of_int \<lfloor>x\<rfloor> \<le> x" "x < of_int \<lfloor>x\<rfloor> + 1" by linarith+
  then show ?thesis by (auto simp: round_half_even_def Let_def abs_le_iff not_less)
qed

lemma round_pos_nonneg [simp]: "0 \<le> round_pos q"
proof (cases "q \<le> 0")
  case False
  then have "0 \<le> round_half_even (q / pow2 (ulp_exp q))"
    using round_half_even_mono[of 0 "q / pow2 (ulp_exp q)"] round_half_even_of_int[of 0]
    by (simp add: divide_nonneg_pos)
  then show ?thesis using False by (simp add: round_pos_def less_imp_le)
qed (simp add: round_pos_def)

lemma round_pos_error:
  assumes "0 < q" shows "\<bar>round_pos q - q\<bar> \<le> pow2 (ulp_exp q) / 2"
proof -
  let ?p = "pow2 (ulp_exp q)"
  have "round_pos q - q = (of_int (round_half_even (q / ?p)) - q / ?p) * ?p"
    using assms by (simp add: round_pos_def left_diff_distrib less_imp_neq[symmetric])
  then have "\<bar>round_pos q - q\<bar> = \<bar>of_int (round_half_even (q / ?p)) - q / ?p\<bar> * ?p"
    by (simp add: abs_mult less_imp_le)
  also have "\<dots> \<le> 1 / 2 * ?p"
    by (rule mult_right_mono[OF round_half_even_error]) (simp add: less_imp_le)
  finally show ?thesis by simp
qed

text \<open>Both sides of a change of exponent meet at the power of two between them.\<close>

lemma pow2_of_int: "0 \<le> e \<Longrightarrow> pow2 e = of_int (2 ^ nat e)"
  by (simp add: pow2_def)

lemma round_pos_upper:
  assumes "0 < q" shows "round_pos q \<le> pow2 (ulp_exp q + 53)"
proof -
  let ?u = "pow2 (ulp_exp q)"
  have "q \<le> pow2 53 * ?u"
    using exponent_bounds(2)[OF assms] pow2_mono[of "exponent q + 1" "53 + ulp_exp q"]
    unfolding ulp_exp_def pow2_add[symmetric] by linarith
  then have "q / ?u \<le> pow2 53" by (simp only: pos_divide_le_eq pow2_pos)
  then have "q / ?u \<le> of_int (2 ^ nat 53)" by (simp only: pow2_of_int zero_le_numeral)
  from round_half_even_mono[OF this] have "round_half_even (q / ?u) \<le> 2 ^ nat 53"
    by (simp only: round_half_even_of_int)
  then have "of_int (round_half_even (q / ?u)) \<le> pow2 53"
    by (simp only: pow2_of_int zero_le_numeral of_int_le_iff)
  from mult_right_mono[OF this less_imp_le[OF pow2_pos]] show ?thesis
    using assms by (simp add: round_pos_def not_le pow2_add mult.commute)
qed

lemma round_pos_lower:
  assumes "0 < q" "- 1022 \<le> exponent q" shows "pow2 (ulp_exp q + 52) \<le> round_pos q"
proof -
  let ?u = "pow2 (ulp_exp q)"
  have "pow2 52 * ?u \<le> q"
    using exponent_bounds(1)[OF assms(1)] assms(2) pow2_mono[of "52 + ulp_exp q" "exponent q"]
    unfolding ulp_exp_def pow2_add[symmetric] by linarith
  then have "pow2 52 \<le> q / ?u" by (simp only: pos_le_divide_eq pow2_pos)
  then have "of_int (2 ^ nat 52) \<le> q / ?u" by (simp only: pow2_of_int zero_le_numeral)
  from round_half_even_mono[OF this] have "2 ^ nat 52 \<le> round_half_even (q / ?u)"
    by (simp only: round_half_even_of_int)
  then have "pow2 52 \<le> of_int (round_half_even (q / ?u))"
    by (simp only: pow2_of_int zero_le_numeral of_int_le_iff)
  from mult_right_mono[OF this less_imp_le[OF pow2_pos]] show ?thesis
    using assms by (simp add: round_pos_def not_le pow2_add mult.commute)
qed

lemma round_pos_mono:
  assumes "q \<le> r" shows "round_pos q \<le> round_pos r"
proof (cases "0 < q")
  case True
  then have r: "0 < r" and e: "exponent q \<le> exponent r" using assms exponent_mono by auto
  show ?thesis
  proof (cases "ulp_exp q = ulp_exp r")
    case True
    then show ?thesis
      using assms r \<open>0 < q\<close> round_half_even_mono[of "q / pow2 (ulp_exp r)" "r / pow2 (ulp_exp r)"]
      by (simp add: round_pos_def divide_right_mono less_imp_le mult_right_mono)
  next
    case False
    then have "- 1022 \<le> exponent r" "ulp_exp q + 53 \<le> ulp_exp r + 52"
      using e by (auto simp: ulp_exp_def)
    then show ?thesis
      using round_pos_upper[OF True] round_pos_lower[OF r] pow2_mono[of "ulp_exp q + 53" "ulp_exp r + 52"]
      by linarith
  qed
next
  case False
  then have "round_pos q = 0" by (simp add: round_pos_def)
  then show ?thesis by simp
qed

lemma f64_of_rat_mono:
  assumes "0 \<le> q" "q \<le> r" shows "f64_le (f64_of_rat q) (f64_of_rat r)"
proof -
  have r: "round_pos q \<le> round_pos r" by (rule round_pos_mono[OF assms(2)])
  show ?thesis
  proof (cases "round_pos q = 0")
    case True
    then show ?thesis using assms by (simp add: f64_of_rat_def Let_def)
  next
    case False
    then have q: "0 < round_pos q" by (simp add: order_less_le)
    then have "0 < round_pos r" "exponent (round_pos q) \<le> exponent (round_pos r)"
      using r exponent_mono by (auto simp: less_le_trans)
    then show ?thesis using assms q r by (simp add: f64_of_rat_def Let_def)
  qed
qed

lemma f64_of_rat_not_nan [simp]: "f64_of_rat q \<noteq> F_nan"
  by (simp add: f64_of_rat_def Let_def)

text \<open>A rounded value above a valid cap comes from a value above it.\<close>

lemma f64_gt_exact:
  assumes "f64_valid (F_fin c)" "0 \<le> q" "f64_gt (f64_of_rat q) (F_fin c)"
  shows "c < q"
proof (rule ccontr)
  assume "\<not> c < q"
  then have "f64_le (f64_of_rat q) (f64_of_rat c)"
    using assms(2) by (intro f64_of_rat_mono) auto
  then show False using assms(1,3) by (simp add: f64_valid_def f64_gt_def)
qed

text \<open>A value not above a cap after rounding exceeds it by at most one part in \<open>2 ^ 52\<close>.\<close>

lemma round_pos_rel:
  assumes "pow2 (- 1022) \<le> q" shows "\<bar>round_pos q - q\<bar> \<le> q * pow2 (- 53)"
proof -
  have q: "0 < q" using assms(1) pow2_pos[of "- 1022"] by linarith
  have "- 1022 < exponent q + 1"
    using exponent_bounds(2)[OF q] assms(1) pow2_less_iff[of "- 1022" "exponent q + 1"] by linarith
  then have "pow2 (ulp_exp q) / 2 = pow2 (exponent q) * pow2 (- 53)"
    by (simp add: ulp_exp_def pow2_add[of "exponent q" "- 52", simplified]) (simp add: pow2_def)
  also have "\<dots> \<le> q * pow2 (- 53)"
    by (rule mult_right_mono[OF exponent_bounds(1)[OF q]]) (simp add: less_imp_le)
  finally show ?thesis using round_pos_error[OF q] by linarith
qed

lemma f64_not_gt_bound:
  assumes "pow2 (- 1022) \<le> q" "\<not> f64_gt (f64_of_rat q) (F_fin c)"
  shows "q * (1 - pow2 (- 53)) \<le> c"
proof -
  have q: "0 < q" using assms(1) pow2_pos[of "- 1022"] by linarith
  have "round_pos q \<le> c"
    using assms(2) q by (auto simp: f64_of_rat_def Let_def f64_gt_def split: if_splits)
  then show ?thesis using round_pos_rel[OF assms(1)] by (simp add: algebra_simps)
qed

text \<open>A moderate non-negative value does not overflow, and small integers are exact.\<close>

lemma f64_of_rat_finite:
  assumes "0 \<le> q" "round_pos q < pow2 1024" shows "f64_of_rat q = F_fin (round_pos q)"
proof -
  have "round_pos q \<noteq> 0 \<Longrightarrow> exponent (round_pos q) < 1024"
    using exponent_bounds(1)[of "round_pos q"] assms(2) pow2_less_iff[of "exponent (round_pos q)" 1024]
    by (simp add: order_less_le[of 0])
  then show ?thesis using assms(1) by (auto simp: f64_of_rat_def Let_def)
qed

lemma round_pos_int:
  assumes "0 \<le> n" "n < 2 ^ 53" shows "round_pos (of_int n) = of_int n"
proof (cases "n = 0")
  case False
  let ?q = "of_int n :: rat"
  have q: "0 < ?q" using False assms(1) by simp
  have "?q < of_int (2 ^ nat 53)" using assms(2) by (simp only: of_int_less_iff) simp
  then have "?q < pow2 53" by (simp only: pow2_of_int zero_le_numeral)
  then have "exponent ?q < 53" using exponent_bounds(1)[OF q] pow2_less_iff[of "exponent ?q" 53] by linarith
  then have e: "0 \<le> - ulp_exp ?q" by (simp add: ulp_exp_def)
  have "pow2 (ulp_exp ?q) * pow2 (- ulp_exp ?q) = 1" by (simp add: pow2_def flip: pow2_add)
  then have "?q / pow2 (ulp_exp ?q) = ?q * pow2 (- ulp_exp ?q)"
    using pow2_pos[of "ulp_exp ?q"] by (metis divide_inverse inverse_unique)
  also have "\<dots> = of_int (n * 2 ^ nat (- ulp_exp ?q))" by (simp only: pow2_of_int[OF e] of_int_mult)
  finally have i: "round_half_even (?q / pow2 (ulp_exp ?q)) = n * 2 ^ nat (- ulp_exp ?q)"
    by (simp only: round_half_even_of_int)
  have "of_int (round_half_even (?q / pow2 (ulp_exp ?q))) = ?q / pow2 (ulp_exp ?q)"
    unfolding i using \<open>?q / pow2 (ulp_exp ?q) = ?q * pow2 (- ulp_exp ?q)\<close>
    by (simp only: pow2_of_int[OF e] of_int_mult)
  then show ?thesis using q pow2_pos[of "ulp_exp ?q", THEN less_imp_neq] by (simp add: round_pos_def)
qed (simp add: round_pos_def)

definition f64_mul :: "f64 \<Rightarrow> f64 \<Rightarrow> f64" where
  "f64_mul a b =
     (case (a, b) of
        (F_fin x, F_fin y) \<Rightarrow> f64_of_rat (x * y)
      | (F_nan, _) \<Rightarrow> F_nan
      | (_, F_nan) \<Rightarrow> F_nan
      | (F_inf s, F_inf t) \<Rightarrow> F_inf (s \<noteq> t)
      | (F_inf s, F_fin y) \<Rightarrow> if y = 0 then F_nan else F_inf (s \<noteq> (y < 0))
      | (F_fin x, F_inf t) \<Rightarrow> if x = 0 then F_nan else F_inf (t \<noteq> (x < 0)))"

lemma f64_mul_fin: "f64_mul (F_fin x) (F_fin y) = f64_of_rat (x * y)"
  by (simp add: f64_mul_def)

text \<open>Values known to lie between two exactly represented bounds stay there when rounded.\<close>

lemma f64_of_rat_between:
  assumes "0 \<le> q" "q \<le> c" "f64_of_rat c = F_fin c"
  obtains r where "f64_of_rat q = F_fin r" "0 \<le> r" "r \<le> c"
proof -
  have "f64_le (f64_of_rat q) (F_fin c)" using f64_of_rat_mono[OF assms(1,2)] assms(3) by simp
  moreover have "f64_of_rat q = F_inf False \<or> (\<exists>r. f64_of_rat q = F_fin r \<and> 0 \<le> r)"
    using assms(1) by (simp add: f64_of_rat_def Let_def)
  ultimately show thesis using that by auto
qed

section \<open>Conversions\<close>

text \<open>
  \<open>as f64\<close> of an integer, division by a positive finite constant, \<open>f64::round\<close> (half away from
  zero) and the saturating \<open>as i128\<close> of a value.
\<close>

definition f64_of_int :: "int \<Rightarrow> f64" where
  "f64_of_int i = f64_of_rat (of_int i)"

definition f64_div_const :: "f64 \<Rightarrow> rat \<Rightarrow> f64" where
  "f64_div_const a c = (case a of F_fin x \<Rightarrow> f64_of_rat (x / c) | _ \<Rightarrow> a)"

definition round_half_away :: "rat \<Rightarrow> int" where
  "round_half_away q = (if 0 \<le> q then \<lfloor>q + 1 / 2\<rfloor> else - \<lfloor>- q + 1 / 2\<rfloor>)"

definition f64_round :: "f64 \<Rightarrow> f64" where
  "f64_round a = (case a of F_fin q \<Rightarrow> F_fin (of_int (round_half_away q)) | _ \<Rightarrow> a)"

definition f64_to_i128 :: "f64 \<Rightarrow> int" where
  "f64_to_i128 a =
     (case a of
        F_nan \<Rightarrow> 0
      | F_inf neg \<Rightarrow> if neg then i128_min else i128_max
      | F_fin q \<Rightarrow> max i128_min (min i128_max (if 0 \<le> q then \<lfloor>q\<rfloor> else - \<lfloor>- q\<rfloor>)))"

lemma round_half_away_near:
  assumes "\<bar>q - of_int m\<bar> < 1 / 2" "0 \<le> q" shows "round_half_away q = m"
  using assms unfolding abs_less_iff by (simp add: round_half_away_def floor_eq_iff)

lemma round_pos_abs:
  assumes "0 \<le> q" "q < pow2 e" "- 1021 \<le> e" shows "\<bar>round_pos q - q\<bar> \<le> pow2 (e - 54)"
proof (cases "q = 0")
  case False
  then have q: "0 < q" using assms(1) by simp
  have "exponent q < e"
    using exponent_bounds(1)[OF q] assms(2) pow2_less_iff[of "exponent q" e] by linarith
  then have "ulp_exp q \<le> e - 54 + 1" using assms(3) by (simp add: ulp_exp_def)
  from pow2_mono[OF this] have "pow2 (ulp_exp q) \<le> pow2 (e - 54) * 2"
    by (simp only: pow2_add) (simp add: pow2_def)
  then show ?thesis using round_pos_error[OF q] by linarith
qed (simp add: round_pos_def less_imp_le)

section \<open>Reading a decimal\<close>

text \<open>
  \<open>str::parse::<f64>\<close>: an optional sign, then \<open>inf\<close>, \<open>infinity\<close> or \<open>nan\<close> in any case, or digits
  with an optional point and an optional exponent; at least one mantissa digit, and at least one
  exponent digit after an \<open>e\<close>.
\<close>

definition split_sign :: "string \<Rightarrow> bool \<times> string" where
  "split_sign s =
     (case s of [] \<Rightarrow> (False, [])
      | c # r \<Rightarrow> if c = CHR ''-'' then (True, r) else if c = CHR ''+'' then (False, r) else (False, s))"

definition dec_rat :: "string \<Rightarrow> string \<Rightarrow> rat" where
  "dec_rat W F = of_nat (dec_val (W @ F)) / 10 ^ length F"

definition mantissa :: "string \<Rightarrow> rat option" where
  "mantissa s =
     (let (W, F) = (case split_once CHR ''.'' s of Some p \<Rightarrow> p | None \<Rightarrow> (s, []))
      in if (W = [] \<and> F = []) \<or> \<not> all_digits W \<or> \<not> all_digits F then None
         else Some (dec_rat W F))"

definition exp_part :: "string \<Rightarrow> rat option" where
  "exp_part s =
     (let (neg, d) = split_sign s
      in if d = [] \<or> \<not> all_digits d then None
         else Some (if neg then 1 / 10 ^ dec_val d else 10 ^ dec_val d))"

definition unsigned_decimal :: "string \<Rightarrow> rat option" where
  "unsigned_decimal s =
     (case split_once CHR ''e'' (to_ascii_lowercase s) of
        None \<Rightarrow> mantissa s
      | Some (m, x) \<Rightarrow>
          (case (mantissa m, exp_part x) of (Some a, Some b) \<Rightarrow> Some (a * b) | _ \<Rightarrow> None))"

definition f64_from_str :: "string \<Rightarrow> f64 option" where
  "f64_from_str s =
     (let (neg, r) = split_sign s; l = to_ascii_lowercase r
      in if l = ''inf'' \<or> l = ''infinity'' then Some (F_inf neg)
         else if l = ''nan'' then Some F_nan
         else map_option (\<lambda>q. f64_of_rat (if neg then - q else q)) (unsigned_decimal r))"

lemma lower_digit: "is_ascii_digit c \<Longrightarrow> ascii_lower_char c = c"
  by (simp add: ascii_lower_char_def ascii_class_defs)

lemma unsigned_decimal_numeral:
  assumes "all_digits W" "all_digits F" "W \<noteq> []"
  shows "unsigned_decimal (W @ (if F = [] then [] else CHR ''.'' # F)) = Some (dec_rat W F)"
proof -
  let ?s = "W @ (if F = [] then [] else CHR ''.'' # F)"
  have "c \<in> set ?s \<Longrightarrow> ascii_lower_char c = c \<and> c \<noteq> CHR ''e''" for c
    using assms(1,2) lower_digit[of c]
    by (auto simp: all_digits_def ascii_lower_char_def ascii_class_defs byte_def split: if_splits)
  then have "to_ascii_lowercase ?s = ?s" "CHR ''e'' \<notin> set ?s"
    unfolding to_ascii_lowercase_def by (blast intro: map_idI)+
  then have "split_once CHR ''e'' (to_ascii_lowercase ?s) = None"
    by (simp only: split_once_None not_False_eq_True)
  moreover have "split_once CHR ''.'' ?s = (if F = [] then None else Some (W, F))"
    using assms(1) by (simp add: split_once_None split_once_append all_digits_no_dot)
  ultimately show ?thesis using assms by (simp add: unsigned_decimal_def mantissa_def)
qed

lemma f64_from_str_numeral:
  assumes "all_digits W" "all_digits F" "W \<noteq> []"
  shows "f64_from_str (W @ (if F = [] then [] else CHR ''.'' # F)) = Some (f64_of_rat (dec_rat W F))"
proof -
  obtain c r where W: "W = c # r" "is_ascii_digit c" using assms by (cases W) auto
  then have "split_sign (W @ t) = (False, W @ t)" for t
    by (auto simp: split_sign_def is_ascii_digit_def byte_def)
  moreover have "to_ascii_lowercase (W @ t) \<notin> {''inf'', ''infinity'', ''nan''}" for t
    using W by (auto simp: to_ascii_lowercase_def lower_digit is_ascii_digit_def byte_def)
  ultimately show ?thesis
    using unsigned_decimal_numeral[OF assms] by (simp add: f64_from_str_def)
qed

end
