(* ===== verification/Policy.thy ===== *)
theory Policy
  imports Units F64
begin

text \<open>
  The wallet policy: \<open>crates/bloom-proto/src/policy.rs\<close>, with \<open>assurance.rs\<close> and
  \<open>polymarket_policy.rs\<close>. The policy document as records in the order of the source, the checks
  a policy produces, the limits in micro-USD and the autonomy evaluator
  \<open>evaluate_action_authorization\<close>. \<open>BTreeSet<String>\<close> is a set of strings; \<open>rule_ceilings\<close> is
  iterated, so it is the list of its entries in key order.
  The lemmas characterise the evaluator and show that an autonomous approval respects every limit
  in exact integer arithmetic.
\<close>

type_synonym message = "f64 msg"

section \<open>The policy document\<close>

datatype assurance_level = Standard | Hardened

datatype agent_autonomy_mode = Disabled | UnderPolicy | PromptAll

record policy_caps =
  max_value_eth :: "f64 option"
  require_override_above_eth :: "f64 option"
  caps_per_tx_usd :: "f64 option"
  caps_per_day_usd :: "f64 option"
  require_confirm_above_usd :: "f64 option"

record policy_allow_deny =
  ad_allow :: "string set"
  ad_deny :: "string set"

record policy_lists =
  l_contracts :: "string set"
  l_tokens :: "string set"
  l_recipients :: "string set"

record policy_automation =
  auto_confirm_below_eth :: "f64 option"
  override_token :: "string option"

record private_policy =
  private_enabled :: bool
  private_provider :: string

record mev_policy =
  max_slippage_bps :: nat
  fail_on_high_risk :: bool

record bump_policy =
  stuck_after_secs :: nat
  basefee_overrun_pct :: nat

record step_up_rule_ceiling =
  max_usd :: "string option"
  max_u32 :: "nat option"
  max_bps :: "nat option"
  max_count :: "nat option"

record approval_step_up_policy =
  su_enabled :: bool
  su_ttl_secs :: nat
  uv_above_usd :: "string option"
  rule_ceilings :: "(string \<times> step_up_rule_ceiling) list"

record approval_policy =
  agent_autonomy :: "agent_autonomy_mode option"
  assurance :: assurance_level
  step_up :: approval_step_up_policy
  require_broadcast_approval :: bool
  always_prompt_for_broadcast :: bool

record payments_http_policy =
  http_per_request_usd :: "f64 option"
  http_per_day_usd :: "f64 option"
  allow_hosts :: "string set"
  deny_hosts :: "string set"

record payments_sessions_policy =
  sessions_enabled :: bool
  max_deposit_usd :: "f64 option"
  max_session_spend_usd :: "f64 option"
  require_confirm_to_open :: bool
  require_confirm_to_top_up :: bool

record payments_policy =
  payments_enabled :: bool
  require_plan :: bool
  require_confirm_for_new_merchant :: bool
  payments_http :: payments_http_policy
  payments_sessions :: payments_sessions_policy
  payments_assets :: policy_allow_deny
  payments_networks :: policy_allow_deny

record limits_policy =
  max_tx_usd :: "string option"
  max_day_usd :: "string option"
  max_week_usd :: "string option"
  max_month_usd :: "string option"

record polymarket_policy =
  pm_enabled :: bool
  pm_max_order_usd :: "nat option"
  pm_max_daily_usd :: "nat option"
  pm_require_flag_above_usd :: "nat option"
  pm_max_price :: "nat option"
  pm_allow_neg_risk :: bool
  pm_allowed_slugs :: "string set"
  pm_denied_slugs :: "string set"
  pm_allowed_condition_ids :: "string set"
  pm_denied_condition_ids :: "string set"

record defi_policy =
  defi_enabled :: bool
  allowed_source_chains :: "string set"
  allowed_destination_chains :: "string set"
  allowed_receivers :: "string set"
  denied_receivers :: "string set"
  allowed_routers :: "string set"
  denied_protocols :: "string set"
  allow_unknown_protocols :: bool
  require_calldata_verification :: bool
  max_input_usd :: "nat option"
  max_native_value_wei :: "nat option"

record wallet_policy =
  allow_contract_creation :: bool
  caps :: policy_caps
  contracts :: policy_allow_deny
  tokens :: policy_allow_deny
  allowlists :: policy_lists
  denylists :: policy_lists
  per_chain :: "string \<rightharpoonup> policy_caps"
  automation :: policy_automation
  private_cfg :: private_policy
  mev :: mev_policy
  bump :: bump_policy
  approval :: approval_policy
  limits :: limits_policy
  polymarket :: polymarket_policy
  defi :: defi_policy
  payments :: payments_policy

section \<open>Defaults\<close>

definition policy_caps_default :: policy_caps where
  "policy_caps_default = \<lparr>max_value_eth = None, require_override_above_eth = None,
     caps_per_tx_usd = None, caps_per_day_usd = None, require_confirm_above_usd = None\<rparr>"

definition allow_deny_default :: policy_allow_deny where
  "allow_deny_default = \<lparr>ad_allow = {}, ad_deny = {}\<rparr>"

definition policy_lists_default :: policy_lists where
  "policy_lists_default = \<lparr>l_contracts = {}, l_tokens = {}, l_recipients = {}\<rparr>"

definition private_policy_default :: private_policy where
  "private_policy_default = \<lparr>private_enabled = False, private_provider = ''mev_blocker''\<rparr>"

definition mev_policy_default :: mev_policy where
  "mev_policy_default = \<lparr>max_slippage_bps = 100, fail_on_high_risk = False\<rparr>"

definition bump_policy_default :: bump_policy where
  "bump_policy_default = \<lparr>stuck_after_secs = 90, basefee_overrun_pct = 20\<rparr>"

definition step_up_default :: approval_step_up_policy where
  "step_up_default =
     \<lparr>su_enabled = False, su_ttl_secs = 120, uv_above_usd = None, rule_ceilings = []\<rparr>"

definition approval_policy_default :: approval_policy where
  "approval_policy_default = \<lparr>agent_autonomy = None, assurance = Standard,
     step_up = step_up_default, require_broadcast_approval = False,
     always_prompt_for_broadcast = False\<rparr>"

definition limits_policy_default :: limits_policy where
  "limits_policy_default =
     \<lparr>max_tx_usd = None, max_day_usd = None, max_week_usd = None, max_month_usd = None\<rparr>"

definition polymarket_policy_default :: polymarket_policy where
  "polymarket_policy_default = \<lparr>pm_enabled = True, pm_max_order_usd = None,
     pm_max_daily_usd = None, pm_require_flag_above_usd = None, pm_max_price = None,
     pm_allow_neg_risk = True, pm_allowed_slugs = {}, pm_denied_slugs = {},
     pm_allowed_condition_ids = {}, pm_denied_condition_ids = {}\<rparr>"

definition defi_policy_default :: defi_policy where
  "defi_policy_default = \<lparr>defi_enabled = False, allowed_source_chains = {},
     allowed_destination_chains = {}, allowed_receivers = {}, denied_receivers = {},
     allowed_routers = {}, denied_protocols = {}, allow_unknown_protocols = False,
     require_calldata_verification = True, max_input_usd = None, max_native_value_wei = None\<rparr>"

definition payments_policy_default :: payments_policy where
  "payments_policy_default = \<lparr>payments_enabled = False, require_plan = True,
     require_confirm_for_new_merchant = False,
     payments_http = \<lparr>http_per_request_usd = None, http_per_day_usd = None, allow_hosts = {},
       deny_hosts = {}\<rparr>,
     payments_sessions = \<lparr>sessions_enabled = False, max_deposit_usd = None,
       max_session_spend_usd = None, require_confirm_to_open = False,
       require_confirm_to_top_up = False\<rparr>,
     payments_assets = allow_deny_default, payments_networks = allow_deny_default\<rparr>"

definition permissive :: wallet_policy where
  "permissive = \<lparr>allow_contract_creation = False, caps = policy_caps_default,
     contracts = allow_deny_default, tokens = allow_deny_default,
     allowlists = policy_lists_default, denylists = policy_lists_default, per_chain = Map.empty,
     automation = \<lparr>auto_confirm_below_eth = None, override_token = None\<rparr>,
     private_cfg = private_policy_default, mev = mev_policy_default, bump = bump_policy_default,
     approval = approval_policy_default, limits = limits_policy_default,
     polymarket = polymarket_policy_default, defi = defi_policy_default,
     payments = payments_policy_default\<rparr>"

lemmas policy_defaults = permissive_def policy_caps_default_def allow_deny_default_def
  policy_lists_default_def private_policy_default_def mev_policy_default_def
  bump_policy_default_def step_up_default_def approval_policy_default_def
  limits_policy_default_def polymarket_policy_default_def defi_policy_default_def
  payments_policy_default_def

definition override_sentinel :: "wallet_policy \<Rightarrow> string" where
  "override_sentinel p = (case override_token (automation p) of None \<Rightarrow> ''override'' | Some t \<Rightarrow> t)"

section \<open>Merging caps\<close>

fun min_opt :: "f64 option \<Rightarrow> f64 option \<Rightarrow> f64 option" where
  "min_opt (Some a) (Some b) = Some (f64_min a b)"
| "min_opt (Some a) None = Some a"
| "min_opt None (Some b) = Some b"
| "min_opt None None = None"

definition most_restrictive :: "policy_caps \<Rightarrow> policy_caps \<Rightarrow> policy_caps" where
  "most_restrictive a b =
     \<lparr>max_value_eth = min_opt (max_value_eth a) (max_value_eth b),
      require_override_above_eth =
        min_opt (require_override_above_eth a) (require_override_above_eth b),
      caps_per_tx_usd = min_opt (caps_per_tx_usd a) (caps_per_tx_usd b),
      caps_per_day_usd = min_opt (caps_per_day_usd a) (caps_per_day_usd b),
      require_confirm_above_usd =
        min_opt (require_confirm_above_usd a) (require_confirm_above_usd b)\<rparr>"

text \<open>A value exceeds an optional cap.\<close>

definition exceeds :: "f64 \<Rightarrow> f64 option \<Rightarrow> bool" where
  "exceeds v c = (case c of None \<Rightarrow> False | Some m \<Rightarrow> f64_gt v m)"

lemma exceeds_min_opt [simp]: "exceeds v (min_opt a b) \<longleftrightarrow> exceeds v a \<or> exceeds v b"
  by (cases "(a, b)" rule: min_opt.cases) (auto simp: exceeds_def f64_gt_min)

section \<open>Limits in micro-USD\<close>

text \<open>\<open>parse::<i128>\<close> on a non-empty string of digits.\<close>

definition parse_i128_digits :: "string \<Rightarrow> int option" where
  "parse_i128_digits s = (if int (dec_val s) \<le> i128_max then Some (int (dec_val s)) else None)"

definition i128_checked :: "int \<Rightarrow> int option" where
  "i128_checked x = (if in_i128 x then Some x else None)"

definition parse_decimal_micro :: "string \<Rightarrow> (string, int) result" where
  "parse_decimal_micro raw =
     (if starts_with raw ''-'' then Err ''negative USD limits are not allowed''
      else
        let (whole, frac) = (case split_once CHR ''.'' raw of Some p \<Rightarrow> p | None \<Rightarrow> (raw, []))
        in if whole = [] \<or> \<not> all_digits whole then Err ''expected decimal USD string''
           else if length frac > 6 \<or> \<not> all_digits frac then Err ''expected at most 6 decimal places''
           else
             and_then (ok_or (parse_i128_digits whole) ''USD value is too large'') (\<lambda>w.
             let frac_s = pad_zeros frac 6
             in and_then (if frac_s = [] then Ok 0
                          else ok_or (parse_i128_digits frac_s) ''USD value is too large'') (\<lambda>f.
                ok_or (Option.bind (i128_checked (w * 1000000)) (\<lambda>m. i128_checked (m + f)))
                  ''USD value is too large'')))"

definition parse_micro_usd :: "string option \<Rightarrow> string \<Rightarrow> (string, int option) result" where
  "parse_micro_usd v field =
     (case map_option trim v of
        None \<Rightarrow> Ok None
      | Some raw \<Rightarrow>
          if raw = [] then Ok None
          else map_err (\<lambda>e. field @ '': '' @ e) (map_sum id Some (parse_decimal_micro raw)))"

definition max_tx_micro_usd :: "limits_policy \<Rightarrow> (string, int option) result" where
  "max_tx_micro_usd l = parse_micro_usd (max_tx_usd l) ''limits.max_tx_usd''"

definition max_day_micro_usd :: "limits_policy \<Rightarrow> (string, int option) result" where
  "max_day_micro_usd l = parse_micro_usd (max_day_usd l) ''limits.max_day_usd''"

definition max_week_micro_usd :: "limits_policy \<Rightarrow> (string, int option) result" where
  "max_week_micro_usd l = parse_micro_usd (max_week_usd l) ''limits.max_week_usd''"

definition max_month_micro_usd :: "limits_policy \<Rightarrow> (string, int option) result" where
  "max_month_micro_usd l = parse_micro_usd (max_month_usd l) ''limits.max_month_usd''"

definition uv_above_micro_usd :: "approval_step_up_policy \<Rightarrow> (string, int option) result" where
  "uv_above_micro_usd s = parse_micro_usd (uv_above_usd s) ''approval.step_up.uv_above_usd''"

definition max_micro_usd :: "step_up_rule_ceiling \<Rightarrow> string \<Rightarrow> (string, int option) result" where
  "max_micro_usd c rule = parse_micro_usd (max_usd c) rule"

definition has_any_limit :: "step_up_rule_ceiling \<Rightarrow> bool" where
  "has_any_limit c \<longleftrightarrow>
     max_usd c \<noteq> None \<or> max_u32 c \<noteq> None \<or> max_bps c \<noteq> None \<or> max_count c \<noteq> None"

section \<open>Autonomy mode\<close>

definition effective_agent_autonomy :: "wallet_policy \<Rightarrow> agent_autonomy_mode" where
  "effective_agent_autonomy p =
     (case agent_autonomy (approval p) of
        Some mode \<Rightarrow> mode
      | None \<Rightarrow>
          if require_broadcast_approval (approval p) \<or> always_prompt_for_broadcast (approval p)
          then PromptAll else Disabled)"

definition validate_autonomy_limits :: "wallet_policy \<Rightarrow> (string, unit) result" where
  "validate_autonomy_limits p =
     (if effective_agent_autonomy p = UnderPolicy then
        and_then (max_tx_micro_usd (limits p)) (\<lambda>tx.
        if tx = None then Err ''limits.max_tx_usd is required for under_policy autonomy''
        else and_then (max_day_micro_usd (limits p)) (\<lambda>day.
        if day = None then Err ''limits.max_day_usd is required for under_policy autonomy''
        else Ok ()))
      else Ok ())"

section \<open>Checks\<close>

datatype policy_outcome = Pass | Warn | Deny

datatype policy_rule_class = Informational | Soft | Hard

record policy_check =
  chk_rule :: string
  chk_outcome :: policy_outcome
  chk_class :: policy_rule_class
  chk_message :: message

fun for_outcome :: "policy_outcome \<Rightarrow> policy_rule_class" where
  "for_outcome Pass = Informational"
| "for_outcome Warn = Soft"
| "for_outcome Deny = Hard"

definition for_venue :: "string \<Rightarrow> string \<Rightarrow> policy_outcome \<Rightarrow> message \<Rightarrow> policy_check" where
  "for_venue venue rule outcome m = \<lparr>chk_rule = venue @ ''.'' @ rule, chk_outcome = outcome,
     chk_class = for_outcome outcome, chk_message = m\<rparr>"

definition hard :: "string \<Rightarrow> policy_outcome \<Rightarrow> message \<Rightarrow> policy_check" where
  "hard rule outcome m =
     \<lparr>chk_rule = rule, chk_outcome = outcome, chk_class = Hard, chk_message = m\<rparr>"

definition soft :: "string \<Rightarrow> policy_outcome \<Rightarrow> message \<Rightarrow> policy_check" where
  "soft rule outcome m =
     \<lparr>chk_rule = rule, chk_outcome = outcome, chk_class = Soft, chk_message = m\<rparr>"

definition informational :: "string \<Rightarrow> policy_outcome \<Rightarrow> message \<Rightarrow> policy_check" where
  "informational rule outcome m =
     \<lparr>chk_rule = rule, chk_outcome = outcome, chk_class = Informational, chk_message = m\<rparr>"

definition is_hard_violation :: "policy_check \<Rightarrow> bool" where
  "is_hard_violation c \<longleftrightarrow> chk_outcome c = Deny \<and> chk_class c = Hard"

definition is_soft_violation :: "policy_check \<Rightarrow> bool" where
  "is_soft_violation c \<longleftrightarrow> chk_outcome c \<noteq> Pass \<and> chk_class c = Soft"

definition has_deny :: "policy_check list \<Rightarrow> bool" where
  "has_deny cs \<longleftrightarrow> list_ex is_hard_violation cs"

definition has_warn :: "policy_check list \<Rightarrow> bool" where
  "has_warn cs \<longleftrightarrow> list_ex (\<lambda>c. chk_outcome c = Warn) cs"

definition has_soft_violation :: "policy_check list \<Rightarrow> bool" where
  "has_soft_violation cs \<longleftrightarrow> list_ex is_soft_violation cs"

lemmas check_defs = hard_def soft_def informational_def for_venue_def
  is_hard_violation_def is_soft_violation_def

section \<open>The autonomy evaluator\<close>

datatype authorization_surface = Cli | Vfs | Ipc | DaemonTask

record budget_snapshot =
  spent_day_micro_usd :: int
  spent_week_micro_usd :: int
  spent_month_micro_usd :: int

record authorization_subject =
  sub_kind :: string
  sub_wallet :: string
  sub_chain :: "string option"
  subject_hash :: string
  total_value_usd_micro :: "int option"
  value_moving :: bool
  calldata_verified :: bool
  authority_change :: bool

datatype autonomy_decision =
    ApprovedAutonomous message int
  | ApprovedFreshReview string
  | ApprovedCapability string int
  | NeedsFreshReview message
  | Denied message

definition over :: "string \<Rightarrow> int \<Rightarrow> int \<Rightarrow> string" where
  "over field tot cap =
     field @ '' exceeded: '' @ show_int tot @ '' > '' @ show_int cap @ '' micro-USD''"

definition check_limits :: "wallet_policy \<Rightarrow> int \<Rightarrow> budget_snapshot \<Rightarrow> (string, unit) result" where
  "check_limits p v snap =
     and_then (max_tx_micro_usd (limits p)) (\<lambda>tx.
     and_then (case tx of
         Some cap \<Rightarrow> if v > cap then Err (over ''limits.max_tx_usd'' v cap) else Ok ()
       | None \<Rightarrow> Err ''limits.max_tx_usd is required for under_policy autonomy'') (\<lambda>_.
     and_then (max_day_micro_usd (limits p)) (\<lambda>day.
     and_then (case day of
         Some cap \<Rightarrow>
           (let tot = i128_sat_add (spent_day_micro_usd snap) v
            in if tot > cap then Err (over ''limits.max_day_usd'' tot cap) else Ok ())
       | None \<Rightarrow> Err ''limits.max_day_usd is required for under_policy autonomy'') (\<lambda>_.
     and_then (max_week_micro_usd (limits p)) (\<lambda>week.
     and_then (case week of
         Some cap \<Rightarrow>
           (let tot = i128_sat_add (spent_week_micro_usd snap) v
            in if tot > cap then Err (over ''limits.max_week_usd'' tot cap) else Ok ())
       | None \<Rightarrow> Ok ()) (\<lambda>_.
     and_then (max_month_micro_usd (limits p)) (\<lambda>month.
     (case month of
         Some cap \<Rightarrow>
           (let tot = i128_sat_add (spent_month_micro_usd snap) v
            in if tot > cap then Err (over ''limits.max_month_usd'' tot cap) else Ok ())
       | None \<Rightarrow> Ok ()))))))))"

definition evaluate_under_policy ::
  "wallet_policy \<Rightarrow> policy_check list \<Rightarrow> authorization_subject \<Rightarrow> budget_snapshot option \<Rightarrow>
   autonomy_decision" where
  "evaluate_under_policy p checks sub budget =
     (case find is_soft_violation checks of
        Some w \<Rightarrow> NeedsFreshReview
          (S ''soft policy violation requires review: '' # S (chk_rule w) # S '': '' # chk_message w)
      | None \<Rightarrow>
        if \<not> calldata_verified sub then NeedsFreshReview [S ''calldata/order facts are not verified'']
        else case total_value_usd_micro sub of
          None \<Rightarrow> NeedsFreshReview [S ''USD valuation unavailable'']
        | Some v \<Rightarrow>
          (case budget of
             None \<Rightarrow> NeedsFreshReview [S ''budget ledger unavailable'']
           | Some snap \<Rightarrow>
             (case check_limits p v snap of
                Inl reason \<Rightarrow> Denied [S reason]
              | Inr _ \<Rightarrow> ApprovedAutonomous [S ''agent_autonomy=under_policy''] v)))"

definition fresh_review :: "string option \<Rightarrow> string option" where
  "fresh_review h = (case map_option trim h of Some t \<Rightarrow> if t = [] then None else Some t | None \<Rightarrow> None)"

definition evaluate_action_authorization ::
  "wallet_policy \<Rightarrow> policy_check list \<Rightarrow> authorization_subject \<Rightarrow> budget_snapshot option \<Rightarrow>
   string option \<Rightarrow> authorization_surface \<Rightarrow> autonomy_decision" where
  "evaluate_action_authorization p checks sub budget fresh surface =
     (case find is_hard_violation checks of
        Some d \<Rightarrow> Denied (S ''policy denied: '' # S (chk_rule d) # S '': '' # chk_message d)
      | None \<Rightarrow>
     (case fresh_review fresh of
        Some h \<Rightarrow> ApprovedFreshReview h
      | None \<Rightarrow>
        if authority_change sub then
          NeedsFreshReview [S ''authority-changing action requires fresh review'']
        else if \<not> value_moving sub then ApprovedAutonomous [S ''non-value-moving action''] 0
        else (case effective_agent_autonomy p of
            Disabled \<Rightarrow> NeedsFreshReview [S ''agent_autonomy=disabled'']
          | PromptAll \<Rightarrow> NeedsFreshReview [S ''agent_autonomy=prompt_all'']
          | UnderPolicy \<Rightarrow> evaluate_under_policy p checks sub budget)))"

section \<open>What a limit denotes\<close>

lemma i128_checked_Some [simp]: "i128_checked x = Some y \<longleftrightarrow> in_i128 x \<and> y = x"
  by (auto simp: i128_checked_def)

text \<open>A parsed limit is the exact number of micro-dollars of its text, and fits in an \<open>i128\<close>.\<close>

lemma parse_decimal_micro_bounds: "parse_decimal_micro raw = Ok v \<Longrightarrow> 0 \<le> v \<and> v \<le> i128_max"
  by (auto simp: parse_decimal_micro_def Let_def and_then_Ok_iff ok_or_def parse_i128_digits_def
      in_i128_def Option.bind_eq_Some_conv
      split: if_splits option.splits prod.splits)

lemma parse_micro_usd_bounds: "parse_micro_usd s f = Ok (Some v) \<Longrightarrow> 0 \<le> v \<and> v \<le> i128_max"
  by (auto simp: parse_micro_usd_def map_sum_def dest: parse_decimal_micro_bounds
      split: option.splits if_splits sum.splits)

text \<open>A limit in exact arithmetic: what the sum of two \<open>i128\<close> values within a cap says.\<close>

lemma sat_add_within:
  assumes "i128_sat_add a b \<le> cap" "cap < i128_max" shows "a + b \<le> cap"
  using assms by (auto simp: i128_sat_add_def split: if_splits)

section \<open>The evaluator, exactly\<close>

definition fits :: "int \<Rightarrow> (string, int option) result \<Rightarrow> bool" where
  "fits v r = (case r of Inl _ \<Rightarrow> False | Inr None \<Rightarrow> True | Inr (Some cap) \<Rightarrow> v \<le> cap)"

definition fits_required :: "int \<Rightarrow> (string, int option) result \<Rightarrow> bool" where
  "fits_required v r = (case r of Inr (Some cap) \<Rightarrow> v \<le> cap | _ \<Rightarrow> False)"

lemma check_limits_Ok:
  "check_limits p v snap = Ok () \<longleftrightarrow>
     fits_required v (max_tx_micro_usd (limits p)) \<and>
     fits_required (i128_sat_add (spent_day_micro_usd snap) v) (max_day_micro_usd (limits p)) \<and>
     fits (i128_sat_add (spent_week_micro_usd snap) v) (max_week_micro_usd (limits p)) \<and>
     fits (i128_sat_add (spent_month_micro_usd snap) v) (max_month_micro_usd (limits p))"
  by (simp add: check_limits_def fits_def fits_required_def and_then_def Let_def
      split: sum.splits option.splits)

lemma find_None_has: "find P xs = None \<longleftrightarrow> \<not> list_ex P xs"
  by (auto simp: find_None_iff list_ex_iff)

lemma under_policy_approves:
  "evaluate_under_policy p checks sub budget = ApprovedAutonomous r d \<longleftrightarrow>
     \<not> has_soft_violation checks \<and> calldata_verified sub \<and> total_value_usd_micro sub = Some d \<and>
     (\<exists>snap. budget = Some snap \<and> check_limits p d snap = Ok ()) \<and>
     r = [S ''agent_autonomy=under_policy'']"
  unfolding has_soft_violation_def find_None_has[symmetric]
  by (auto simp: evaluate_under_policy_def split: option.splits sum.splits)

lemma autonomous_iff:
  "evaluate_action_authorization p checks sub budget fresh surface = ApprovedAutonomous r d \<longleftrightarrow>
     \<not> has_deny checks \<and> fresh_review fresh = None \<and> \<not> authority_change sub \<and>
     (if value_moving sub
      then effective_agent_autonomy p = UnderPolicy \<and>
           evaluate_under_policy p checks sub budget = ApprovedAutonomous r d
      else r = [S ''non-value-moving action''] \<and> d = 0)"
  unfolding has_deny_def find_None_has[symmetric]
  by (auto simp: evaluate_action_authorization_def split: option.splits agent_autonomy_mode.splits)

text \<open>
  C4: the autonomy evaluator approves a value-moving action without a fresh review exactly when no
  check is a hard violation and none is a soft one, no fresh review was given, the action does not
  change authority, the policy is in \<open>under_policy\<close> mode, the calldata facts are verified, the
  action has a USD value (which is the debit), a budget snapshot is available and that value is
  within every limit.
\<close>

theorem autonomous_value_movement_iff:
  "value_moving sub \<Longrightarrow>
   (evaluate_action_authorization p checks sub budget fresh surface = ApprovedAutonomous r d) \<longleftrightarrow>
     \<not> has_deny checks \<and> \<not> has_soft_violation checks \<and> fresh_review fresh = None \<and>
     \<not> authority_change sub \<and> effective_agent_autonomy p = UnderPolicy \<and>
     calldata_verified sub \<and> total_value_usd_micro sub = Some d \<and>
     (\<exists>snap. budget = Some snap \<and>
        fits_required d (max_tx_micro_usd (limits p)) \<and>
        fits_required (i128_sat_add (spent_day_micro_usd snap) d) (max_day_micro_usd (limits p)) \<and>
        fits (i128_sat_add (spent_week_micro_usd snap) d) (max_week_micro_usd (limits p)) \<and>
        fits (i128_sat_add (spent_month_micro_usd snap) d) (max_month_micro_usd (limits p))) \<and>
     r = [S ''agent_autonomy=under_policy'']"
  by (auto simp: autonomous_iff under_policy_approves check_limits_Ok)

definition sample_policy :: wallet_policy where
  "sample_policy = permissive
     \<lparr>approval := approval_policy_default\<lparr>agent_autonomy := Some UnderPolicy\<rparr>,
      limits := \<lparr>max_tx_usd = Some ''100'', max_day_usd = Some '' 250.5 '', max_week_usd = None,
                max_month_usd = Some ''1000''\<rparr>\<rparr>"

definition sample_subject :: authorization_subject where
  "sample_subject = \<lparr>sub_kind = ''evm_tx'', sub_wallet = ''main'', sub_chain = Some ''base'',
     subject_hash = ''h'', total_value_usd_micro = Some 40000000, value_moving = True,
     calldata_verified = True, authority_change = False\<rparr>"

definition sample_budget :: budget_snapshot where
  "sample_budget = \<lparr>spent_day_micro_usd = 210500000, spent_week_micro_usd = 210500000,
     spent_month_micro_usd = 900000000\<rparr>"

lemma sample_limits:
  "max_tx_micro_usd (limits sample_policy) = Ok (Some 100000000)"
  "max_day_micro_usd (limits sample_policy) = Ok (Some 250500000)"
  "max_week_micro_usd (limits sample_policy) = Ok None"
  "max_month_micro_usd (limits sample_policy) = Ok (Some 1000000000)"
  by code_simp+

lemma sample_approved:
  "evaluate_action_authorization sample_policy [] sample_subject (Some sample_budget) None Cli =
     ApprovedAutonomous [S ''agent_autonomy=under_policy''] 40000000"
  by code_simp

theorem autonomous_value_movement_iff_witness:
  "value_moving sample_subject \<and>
   evaluate_action_authorization sample_policy [] sample_subject (Some sample_budget) None Cli =
     ApprovedAutonomous [S ''agent_autonomy=under_policy''] 40000000 \<and>
   effective_agent_autonomy sample_policy = UnderPolicy"
  using autonomous_value_movement_iff[of sample_subject sample_policy "[]" "Some sample_budget" None Cli]
    sample_approved by (simp add: sample_subject_def)

text \<open>
  an autonomous approval never exceeds a limit in exact arithmetic. For a value-moving action
  approved autonomously, the debit is at most the per-transaction limit, and the amount already
  spent plus the debit is at most the daily, weekly and monthly limits that are set, as integers
  without saturation (for limits below the largest \<open>i128\<close>).
\<close>

theorem autonomous_debit_within_limits:
  assumes "value_moving sub"
    and "evaluate_action_authorization p checks sub (Some snap) fresh surface = ApprovedAutonomous r d"
  shows "\<exists>tx day.
      max_tx_micro_usd (limits p) = Ok (Some tx) \<and> d \<le> tx \<and>
      max_day_micro_usd (limits p) = Ok (Some day) \<and>
      (day = i128_max \<or> spent_day_micro_usd snap + d \<le> day) \<and>
      (\<forall>week. max_week_micro_usd (limits p) = Ok (Some week) \<longrightarrow>
         week = i128_max \<or> spent_week_micro_usd snap + d \<le> week) \<and>
      (\<forall>month. max_month_micro_usd (limits p) = Ok (Some month) \<longrightarrow>
         month = i128_max \<or> spent_month_micro_usd snap + d \<le> month)"
proof -
  have lim: "check_limits p d snap = Ok ()"
    using assms by (simp add: autonomous_iff under_policy_approves)
  have exact: "a + d \<le> cap"
    if "parse_micro_usd t f = Ok (Some cap)" "i128_sat_add a d \<le> cap" "cap \<noteq> i128_max" for a t f cap
    using that parse_micro_usd_bounds[OF that(1)] sat_add_within[of a d cap] by linarith
  note parsed = max_day_micro_usd_def max_week_micro_usd_def max_month_micro_usd_def
  from lim obtain tx day where
    "max_tx_micro_usd (limits p) = Ok (Some tx)" "d \<le> tx"
    "max_day_micro_usd (limits p) = Ok (Some day)" "i128_sat_add (spent_day_micro_usd snap) d \<le> day"
    by (auto simp: check_limits_Ok fits_required_def split: sum.splits option.splits)
  moreover have
    "\<forall>week. max_week_micro_usd (limits p) = Ok (Some week) \<longrightarrow>
       i128_sat_add (spent_week_micro_usd snap) d \<le> week"
    "\<forall>month. max_month_micro_usd (limits p) = Ok (Some month) \<longrightarrow>
       i128_sat_add (spent_month_micro_usd snap) d \<le> month"
    using lim by (auto simp: check_limits_Ok fits_def)
  ultimately show ?thesis using exact unfolding parsed by blast
qed

theorem autonomous_debit_within_limits_witness:
  "value_moving sample_subject \<and>
   evaluate_action_authorization sample_policy [] sample_subject (Some sample_budget) None Cli =
     ApprovedAutonomous [S ''agent_autonomy=under_policy''] 40000000 \<and>
   spent_day_micro_usd sample_budget + 40000000 \<le> 250500000"
proof -
  have v: "value_moving sample_subject" by (simp add: sample_subject_def)
  have "(250500000 :: int) \<noteq> i128_max" by (simp add: i128_max_def)
  then show ?thesis
    using autonomous_debit_within_limits[OF v sample_approved] v sample_approved
    by (auto simp: sample_limits)
qed

text \<open>
  a hard violation among the checks denies the action whatever else holds: a fresh review, the
  autonomy mode, the budget and the surface do not matter; and an action that changes authority is
  never approved autonomously.
\<close>

theorem hard_violation_always_denied:
  "(has_deny checks \<longleftrightarrow>
      (\<exists>d. find is_hard_violation checks = Some d \<and>
         evaluate_action_authorization p checks sub budget fresh surface =
           Denied (S ''policy denied: '' # S (chk_rule d) # S '': '' # chk_message d))) \<and>
   \<not> (authority_change sub \<and>
      evaluate_action_authorization p checks sub budget fresh surface = ApprovedAutonomous r v)"
  using find_None_has[of is_hard_violation checks]
  by (cases "find is_hard_violation checks")
    (simp_all add: evaluate_action_authorization_def has_deny_def split: option.splits)

text \<open>
  a policy that passes \<open>validate_autonomy_limits\<close> is not bricked by a missing required limit: in
  \<open>under_policy\<close> mode a zero-value action on an unspent budget passes \<open>check_limits\<close> when the weekly
  and monthly limits parse.
\<close>

theorem validated_policy_not_bricked:
  assumes "validate_autonomy_limits p = Ok ()" "effective_agent_autonomy p = UnderPolicy"
    and "is_ok (max_week_micro_usd (limits p))" "is_ok (max_month_micro_usd (limits p))"
  shows "check_limits p 0 \<lparr>spent_day_micro_usd = 0, spent_week_micro_usd = 0,
           spent_month_micro_usd = 0\<rparr> = Ok ()"
proof -
  have z: "i128_sat_add 0 0 = 0" by (simp add: i128_sat_add_def i128_max_def i128_min_def)
  have nonneg: "parse_micro_usd t f = Ok (Some c) \<Longrightarrow> 0 \<le> c" for t f c
    using parse_micro_usd_bounds by blast
  show ?thesis
    using assms nonneg unfolding check_limits_Ok
    by (auto simp: validate_autonomy_limits_def and_then_Ok_iff fits_def fits_required_def z
        is_ok_iff max_tx_micro_usd_def max_day_micro_usd_def max_week_micro_usd_def
        max_month_micro_usd_def split: if_splits option.splits)
qed

theorem validated_policy_not_bricked_witness:
  "validate_autonomy_limits sample_policy = Ok () \<and>
   check_limits sample_policy 0 \<lparr>spent_day_micro_usd = 0, spent_week_micro_usd = 0,
     spent_month_micro_usd = 0\<rparr> = Ok ()"
proof -
  have "validate_autonomy_limits sample_policy = Ok ()" "effective_agent_autonomy sample_policy = UnderPolicy"
    by code_simp+
  then show ?thesis
    using validated_policy_not_bricked[of sample_policy] by (simp add: sample_limits)
qed

end
