(* ===== verification/Valuation.thy ===== *)
theory Valuation
  imports Bloom_Prelude
begin

text \<open>
  Price valuations: \<open>crates/bloom-proto/src/valuation.rs\<close>. A quote is accepted for an authorization
  only when it is complete, non-negative, neither in the future nor stale, and confident enough.
  Timestamps are \<open>u64\<close> milliseconds; \<open>saturating_sub\<close> is subtraction on \<^typ>\<open>nat\<close> and
  \<open>saturating_add\<close> is \<open>u_sat_add 64\<close>.
\<close>

record valuation_quote =
  asset_id :: string
  amount_base_units :: string
  usd_micro :: int
  quote_source :: string
  quote_timestamp_ms :: nat
  fetched_at_ms :: nat
  max_age_ms :: nat
  confidence_ppm :: "nat option"
  stablecoin_assumption :: bool

record valuation_policy =
  volatile_max_age_ms :: nat
  stablecoin_max_age_ms :: nat
  observation_max_age_ms :: nat
  future_tolerance_ms :: nat
  min_confidence_ppm :: "nat option"
  stablecoin_asset_allowlist :: "string list"

definition default_observation_max_age_ms :: nat where
  "default_observation_max_age_ms = 5 * 60 * 1000"

definition default_future_tolerance_ms :: nat where
  "default_future_tolerance_ms = 60 * 1000"

definition valuation_policy_default :: valuation_policy where
  "valuation_policy_default = \<lparr>volatile_max_age_ms = 30000, stablecoin_max_age_ms = 120000,
     observation_max_age_ms = default_observation_max_age_ms,
     future_tolerance_ms = default_future_tolerance_ms, min_confidence_ppm = None,
     stablecoin_asset_allowlist = []\<rparr>"

definition max_age_for :: "valuation_policy \<Rightarrow> valuation_quote \<Rightarrow> nat" where
  "max_age_for p q =
     (let policy_age = (if stablecoin_assumption q then stablecoin_max_age_ms p else volatile_max_age_ms p)
      in min (max_age_ms q) policy_age)"

definition stablecoin_allowed :: "valuation_policy \<Rightarrow> string \<Rightarrow> bool" where
  "stablecoin_allowed p asset \<longleftrightarrow>
     list_ex (\<lambda>allowed. eq_ignore_ascii_case allowed asset) (stablecoin_asset_allowlist p)"

definition is_fresh_at :: "valuation_quote \<Rightarrow> nat \<Rightarrow> bool" where
  "is_fresh_at q now \<longleftrightarrow> now - fetched_at_ms q \<le> max_age_ms q"

definition confidence_check :: "valuation_policy \<Rightarrow> valuation_quote \<Rightarrow> (string, unit) result" where
  "confidence_check p q =
     (case min_confidence_ppm p of
        None \<Rightarrow> Ok ()
      | Some least \<Rightarrow>
          (case confidence_ppm q of
             Some c \<Rightarrow>
               if c \<ge> least then Ok ()
               else Err (''valuation confidence '' @ show_nat c @ ''ppm below required '' @
                         show_nat least @ ''ppm'')
           | None \<Rightarrow> Err ''valuation confidence is missing''))"

definition validate_for_authorization ::
  "valuation_quote \<Rightarrow> valuation_policy \<Rightarrow> nat \<Rightarrow> (string, unit) result" where
  "validate_for_authorization q p now =
     (if trim (asset_id q) = [] then Err ''valuation asset_id is empty''
      else if trim (amount_base_units q) = [] then Err ''valuation amount_base_units is empty''
      else if trim (quote_source q) = [] then Err ''valuation source is empty''
      else if usd_micro q < 0 then Err ''valuation is negative''
      else if quote_timestamp_ms q = 0 then Err ''valuation quote timestamp is missing''
      else if fetched_at_ms q = 0 then Err ''valuation fetched timestamp is missing''
      else if quote_timestamp_ms q > u_sat_add 64 now (future_tolerance_ms p) then
        Err ''valuation quote timestamp is in the future''
      else if now - quote_timestamp_ms q > observation_max_age_ms p then
        Err (''valuation market observation is stale: age_ms='' @ show_nat (now - quote_timestamp_ms q) @
             '' max_age_ms='' @ show_nat (observation_max_age_ms p))
      else if now - fetched_at_ms q > max_age_for p q then
        Err (''valuation quote is stale: age_ms='' @ show_nat (now - fetched_at_ms q) @
             '' max_age_ms='' @ show_nat (max_age_for p q))
      else and_then (confidence_check p q) (\<lambda>_.
        if stablecoin_assumption q \<and> \<not> stablecoin_allowed p (asset_id q) then
          Err (''stablecoin shortcut is not allowed for '' @ asset_id q)
        else Ok ()))"

lemma confidence_check_Ok:
  "confidence_check p q = Ok () \<longleftrightarrow>
     (case min_confidence_ppm p of None \<Rightarrow> True
      | Some least \<Rightarrow> (\<exists>c. confidence_ppm q = Some c \<and> least \<le> c))"
  by (auto simp: confidence_check_def split: option.splits)

text \<open>
  a quote accepted for an authorization is complete and non-negative; both its market
  observation and its fetch are recent (the fetch within the smaller of the quote's own age limit
  and the policy's, so the quote is also fresh by its own rule); the observation is at most the
  tolerance ahead of the clock; and it meets the confidence and stablecoin rules. Conversely such a
  quote is accepted.
\<close>

theorem valuation_accepted_iff:
  "validate_for_authorization q p now = Ok () \<longleftrightarrow>
     trim (asset_id q) \<noteq> [] \<and> trim (amount_base_units q) \<noteq> [] \<and> trim (quote_source q) \<noteq> [] \<and>
     0 \<le> usd_micro q \<and> 0 < quote_timestamp_ms q \<and> 0 < fetched_at_ms q \<and>
     quote_timestamp_ms q \<le> min (now + future_tolerance_ms p) (2 ^ 64 - 1) \<and>
     now \<le> quote_timestamp_ms q + observation_max_age_ms p \<and>
     is_fresh_at q now \<and>
     now \<le> fetched_at_ms q +
       (if stablecoin_assumption q then stablecoin_max_age_ms p else volatile_max_age_ms p) \<and>
     (case min_confidence_ppm p of None \<Rightarrow> True
      | Some least \<Rightarrow> (\<exists>c. confidence_ppm q = Some c \<and> least \<le> c)) \<and>
     (stablecoin_assumption q \<longrightarrow> stablecoin_allowed p (asset_id q))"
  by (auto simp: validate_for_authorization_def confidence_check_Ok[symmetric] and_then_Ok_iff
      u_sat_add_def u_max_def is_fresh_at_def max_age_for_def Let_def)

definition sample_quote :: valuation_quote where
  "sample_quote = \<lparr>asset_id = ''native:base'', amount_base_units = ''1'', usd_micro = 1000000,
     quote_source = ''oracle'', quote_timestamp_ms = 99000, fetched_at_ms = 99500,
     max_age_ms = 60000, confidence_ppm = None, stablecoin_assumption = False\<rparr>"

theorem valuation_accepted_iff_witness:
  "validate_for_authorization sample_quote valuation_policy_default 100000 = Ok () \<and>
   is_fresh_at sample_quote 100000"
proof -
  have "validate_for_authorization sample_quote valuation_policy_default 100000 = Ok ()" by code_simp
  then show ?thesis using valuation_accepted_iff[of sample_quote valuation_policy_default 100000] by simp
qed

end
