(* ===== verification/Tx_Authorization.thy ===== *)
theory Tx_Authorization
  imports Policy Valuation Units
begin

text \<open>
  The authorization of a staged EVM transaction:
  \<open>crates/bloom-proto/src/plan.rs\<close> (the staged transaction),
  \<open>crates/bloom-tx/src/outbox.rs\<close> (\<open>sum_usd_since\<close>, the rolling spend of a wallet) and
  \<open>crates/bloom-tx/src/tx_engine.rs\<close> (\<open>authorization_subject\<close>, \<open>budget_snapshot\<close>,
  \<open>ensure_action_authorized\<close>, \<open>f64_to_micro_usd\<close>, \<open>insufficient_native_funds_check\<close>).
  The outbox directory of a wallet is its listing: for every chain directory the entries under
  \<open>pending\<close> and under \<open>sent\<close>, each with its path and the outcome of reading its
  \<open>intent.json\<close>. The clock readings are arguments.
\<close>

section \<open>Staged transactions\<close>

datatype tx_status = Tx_Pending | Tx_Sent | Tx_Success | Tx_Reverted | Tx_Failed | Tx_Cancelled

datatype tx_action_kind =
  Unknown | NativeTransfer | Erc20Transfer | ContractCall | ContractCreation | Approval | NftTransfer

record execution_origin =
  petal_id :: string
  petal_digest :: string
  petal_version :: string
  route_id :: "string option"

definition same_package :: "execution_origin \<Rightarrow> execution_origin \<Rightarrow> bool" where
  "same_package a b \<longleftrightarrow> a\<lparr>route_id := None\<rparr> = b\<lparr>route_id := None\<rparr>"

definition origin_validate :: "execution_origin \<Rightarrow> (string, unit) result" where
  "origin_validate a =
     (case find (\<lambda>(field, v). trim v = [])
        [(''petal_id'', petal_id a), (''petal_digest'', petal_digest a),
         (''petal_version'', petal_version a)] of
        Some (field, v) \<Rightarrow> Err (''execution origin '' @ field @ '' is empty'')
      | None \<Rightarrow> Ok ())"

record token_ref =
  tok_address :: string
  tok_symbol :: string
  tok_decimals :: nat
  tok_recipient :: string
  tok_amount :: string
  tok_amount_base_units :: "string option"

datatype nft_action = Nft_Transfer | Nft_Approve | Nft_SetApprovalForAll

record nft_ref =
  nft_act :: nft_action
  nft_contract :: string
  nft_kind :: string
  nft_symbol :: string
  nft_token_id :: string
  nft_counterparty :: string
  nft_amount :: string
  nft_approved :: "bool option"

record staged_tx =
  st_id :: string
  st_wallet :: string
  st_chain :: string
  st_chain_id :: nat
  st_from :: string
  st_to :: "string option"
  st_value_wei :: string
  st_data_hex :: string
  st_gas_limit :: nat
  st_max_fee_per_gas :: "string option"
  st_max_priority_fee_per_gas :: "string option"
  st_gas_price :: "string option"
  st_nonce :: nat
  st_policy_checks :: "policy_check list"
  st_created_ms :: nat
  st_expires_ms :: nat
  st_status :: tx_status
  st_action_kind :: tx_action_kind
  st_tx_hash :: "string option"
  st_token :: "token_ref option"
  st_nft :: "nft_ref option"
  st_usd_value :: "f64 option"
  st_valuation :: "valuation_quote option"
  st_depends_on :: "string option"
  st_action_id :: "string option"
  st_execution_origin :: "execution_origin option"

text \<open>\<open>transaction_kind\<close>; \<open>addr\<close> parses an address (third-party code), and reports an error text.\<close>

datatype 'a tx_kind = Create | Call 'a

definition is_ascii_hexdigit :: "char \<Rightarrow> bool" where
  "is_ascii_hexdigit c \<longleftrightarrow>
     is_ascii_digit c \<or> 65 \<le> byte c \<and> byte c \<le> 70 \<or> 97 \<le> byte c \<and> byte c \<le> 102"

definition transaction_kind ::
  "(string \<Rightarrow> (string, 'a) result) \<Rightarrow> staged_tx \<Rightarrow> (string, 'a tx_kind) result" where
  "transaction_kind addr t =
     (case st_to t of
        None \<Rightarrow>
          if st_action_kind t = ContractCreation \<and> st_token t = None \<and> st_nft t = None then
            (let data = (case strip_prefix ''0x'' (st_data_hex t) of
                           Some d \<Rightarrow> d | None \<Rightarrow> st_data_hex t)
             in if data = [] \<or> odd (length data) \<or> \<not> list_all is_ascii_hexdigit data
                then Err ''contract creation requires nonempty hex initcode''
                else Ok Create)
          else Err ''transaction recipient does not match its creation/call kind''
      | Some dest \<Rightarrow>
          if st_action_kind t \<noteq> ContractCreation then and_then (addr dest) (\<lambda>a. Ok (Call a))
          else Err ''transaction recipient does not match its creation/call kind'')"

section \<open>The rolling spend of a wallet\<close>

datatype signing_evidence = Ev_Entry | Ev_Cancel | Ev_Batch "string list" | Ev_UnreadableBatch

datatype outbox_error =
  Io string | Serde string | Ob_NotFound string | StateMismatch string string string
  | StagedExpired string nat nat | InvalidId string | InvalidWallet string | InvalidChain string
  | UnknownValuation string | PossiblySigned string string "string option" signing_evidence
  | Ob_Other string

record outbox_item =
  item_path :: string
  item_intent :: "(outbox_error, staged_tx) result option"

record chain_dir =
  dir_pending :: "outbox_item list"
  dir_sent :: "outbox_item list"

definition validate_segment :: "string \<Rightarrow> (outbox_error, unit) result" where
  "validate_segment seg =
     (if seg = [] \<or> CHR ''/'' \<in> set seg \<or> CHR 0x5C \<in> set seg \<or> seg = ''.'' \<or> seg = ''..''
      then Err (InvalidWallet seg) else Ok ())"

definition counted :: "nat \<Rightarrow> (string \<times> string) option \<Rightarrow> staged_tx \<Rightarrow> bool" where
  "counted since excl t \<longleftrightarrow>
     \<not> st_created_ms t < since \<and>
     \<not> ((case excl of Some (c, i) \<Rightarrow> st_chain t = c \<and> st_id t = i | None \<Rightarrow> False) \<or>
        st_status t \<in> {Tx_Reverted, Tx_Failed, Tx_Cancelled})"

fun sum_items ::
  "nat \<Rightarrow> (string \<times> string) option \<Rightarrow> outbox_item list \<Rightarrow> f64 \<Rightarrow> (outbox_error, f64) result" where
  "sum_items since excl [] acc = Ok acc"
| "sum_items since excl (ent # ents) acc =
     (case item_intent ent of
        None \<Rightarrow> sum_items since excl ents acc
      | Some (Inl e) \<Rightarrow> Err e
      | Some (Inr t) \<Rightarrow>
          if \<not> counted since excl t then sum_items since excl ents acc
          else case st_valuation t of
            None \<Rightarrow>
              if st_usd_value t \<noteq> None then Err (UnknownValuation (item_path ent))
              else sum_items since excl ents acc
          | Some q \<Rightarrow>
              if usd_micro q \<ge> 0 then
                sum_items since excl ents
                  (f64_add acc (f64_div_const (f64_of_int (usd_micro q)) 1000000))
              else sum_items since excl ents acc)"

definition dir_items :: "chain_dir list \<Rightarrow> outbox_item list" where
  "dir_items dirs = concat (map (\<lambda>d. dir_pending d @ dir_sent d) dirs)"

definition sum_usd_since ::
  "(string \<Rightarrow> chain_dir list option) \<Rightarrow> string \<Rightarrow> nat \<Rightarrow> (string \<times> string) option \<Rightarrow>
   (outbox_error, f64) result" where
  "sum_usd_since home w since excl =
     and_then (map_err (\<lambda>_. InvalidWallet w) (validate_segment w)) (\<lambda>_.
       case home w of
         None \<Rightarrow> Ok (F_fin 0)
       | Some dirs \<Rightarrow> sum_items since excl (dir_items dirs) (F_fin 0))"

section \<open>The engine's gate\<close>

definition f64_to_micro_usd :: "f64 \<Rightarrow> int option" where
  "f64_to_micro_usd v =
     (case v of
        F_fin q \<Rightarrow>
          if q < 0 then None
          else (let micro = f64_round (f64_mul v (F_fin 1000000))
                in if f64_gt micro (f64_of_int i128_max) then None else Some (f64_to_i128 micro))
      | _ \<Rightarrow> None)"

definition DAY_MS :: nat where "DAY_MS = 24 * 60 * 60 * 1000"
definition WEEK_MS :: nat where "WEEK_MS = 7 * DAY_MS"
definition MONTH_MS :: nat where "MONTH_MS = 30 * DAY_MS"

definition or_i128_max :: "int option \<Rightarrow> int" where
  "or_i128_max m = (case m of Some v \<Rightarrow> v | None \<Rightarrow> i128_max)"

definition budget_of ::
  "(string \<Rightarrow> chain_dir list option) \<Rightarrow> nat \<Rightarrow> staged_tx \<Rightarrow> (outbox_error, budget_snapshot) result" where
  "budget_of home now t =
     (let since = (\<lambda>period. sum_usd_since home (st_wallet t) (now - period) (Some (st_chain t, st_id t)))
      in and_then (since DAY_MS) (\<lambda>day.
         and_then (since WEEK_MS) (\<lambda>week.
         and_then (since MONTH_MS) (\<lambda>month.
           Ok \<lparr>spent_day_micro_usd = or_i128_max (f64_to_micro_usd day),
               spent_week_micro_usd = or_i128_max (f64_to_micro_usd week),
               spent_month_micro_usd = or_i128_max (f64_to_micro_usd month)\<rparr>))))"

text \<open>\<open>trim_start_matches("0x")\<close> removes the prefix as long as it is there.\<close>

fun trim_start_0x :: "string \<Rightarrow> string" where
  "trim_start_0x (a # b # s) = (if a = CHR ''0'' \<and> b = CHR ''x'' then trim_start_0x s else a # b # s)"
| "trim_start_0x s = s"

definition wei_of :: "u256_lib \<Rightarrow> staged_tx \<Rightarrow> nat" where
  "wei_of L t = (case u256_from_str_radix10 L (st_value_wei t) of Some v \<Rightarrow> v | None \<Rightarrow> 0)"

definition data_nonempty :: "staged_tx \<Rightarrow> bool" where
  "data_nonempty t \<longleftrightarrow> list_ex (\<lambda>b. b \<noteq> CHR ''0'') (trim_start_0x (st_data_hex t))"

definition moves_value :: "u256_lib \<Rightarrow> staged_tx \<Rightarrow> bool" where
  "moves_value L t =
     (case st_action_kind t of
        ContractCreation \<Rightarrow> True
      | NativeTransfer \<Rightarrow> wei_of L t > 0
      | Erc20Transfer \<Rightarrow> True
      | _ \<Rightarrow> wei_of L t > 0 \<or> st_token t \<noteq> None \<or> st_nft t \<noteq> None \<or> data_nonempty t)"

definition authorized_value :: "nat \<Rightarrow> staged_tx \<Rightarrow> int option" where
  "authorized_value now t =
     (case st_valuation t of
        None \<Rightarrow> None
      | Some q \<Rightarrow>
          if is_ok (validate_for_authorization q valuation_policy_default now)
          then Some (usd_micro q) else None)"

definition subject_of :: "u256_lib \<Rightarrow> nat \<Rightarrow> staged_tx \<Rightarrow> authorization_subject" where
  "subject_of L now t =
     \<lparr>sub_kind = ''evm_tx'',
      sub_wallet = st_wallet t,
      sub_chain = Some (st_chain t),
      subject_hash = join '':''
        [show_nat (st_chain_id t), st_from t, (case st_to t of Some a \<Rightarrow> a | None \<Rightarrow> ''CREATE''),
         st_value_wei t, st_data_hex t, show_nat (st_nonce t), st_id t],
      total_value_usd_micro = authorized_value now t,
      value_moving = moves_value L t,
      calldata_verified = st_action_kind t \<in> {NativeTransfer, Erc20Transfer},
      authority_change = st_action_kind t = Approval\<rparr>"

datatype tx_engine_error =
  ApprovalDenied message | ApprovalServiceUnavailable string | ApprovalState string
  | Tx_Outbox outbox_error | DependencyNotSatisfied string string

definition initial_decision ::
  "u256_lib \<Rightarrow> (string \<Rightarrow> chain_dir list option) \<Rightarrow> nat \<Rightarrow> nat \<Rightarrow> wallet_policy \<Rightarrow>
   authorization_surface \<Rightarrow> staged_tx \<Rightarrow> autonomy_decision" where
  "initial_decision L home now now' p surface t =
     evaluate_action_authorization p (st_policy_checks t) (subject_of L now t)
       (case budget_of home now' t of Inr snap \<Rightarrow> Some snap | Inl _ \<Rightarrow> None) None surface"

definition ensure_action_authorized ::
  "bool \<Rightarrow> u256_lib \<Rightarrow> (string \<Rightarrow> chain_dir list option) \<Rightarrow> nat \<Rightarrow> nat \<Rightarrow> wallet_policy \<Rightarrow>
   authorization_surface \<Rightarrow> staged_tx \<Rightarrow> (tx_engine_error, unit) result" where
  "ensure_action_authorized triad_signing L home now now' p surface t =
     (case initial_decision L home now now' p surface t of
        Denied reason \<Rightarrow> Err (ApprovalDenied reason)
      | ApprovedCapability _ _ \<Rightarrow>
          Err (ApprovalDenied
            [S ''scoped run capabilities are not implemented; fresh review required''])
      | _ \<Rightarrow>
          if triad_signing then Ok ()
          else Err (ApprovalServiceUnavailable ''outbox confirm requires Broker exact signing''))"

definition insufficient_native_funds_check ::
  "u256_lib \<Rightarrow> string \<Rightarrow> string \<Rightarrow> string \<Rightarrow> nat \<Rightarrow> nat \<Rightarrow> nat \<Rightarrow> nat \<Rightarrow> nat \<Rightarrow> policy_check option" where
  "insufficient_native_funds_check L account net symbol decimals available v gas_limit fee_cap =
     (let gas_budget = u_sat_mul 256 gas_limit fee_cap;
          required = u_sat_add 256 v gas_budget;
          disp = (\<lambda>x. S (format_units L x decimals))
      in if available \<ge> required then None
         else Some (hard ''balance.native_funds'' Deny
           [S ''account '', S account, S '' has '', disp available, S '' '', S symbol, S '' on '', S net,
            S ''; requires up to '', disp required, S '' '', S symbol, S '' ('', disp v, S '' value + '',
            disp gas_budget, S '' gas at the staged fee cap). Fund the account and restage this transaction before approving.'']))"

section \<open>The spend in integers\<close>

text \<open>The amounts, in micro-USD, that a sum over the listing counts.\<close>

definition counted_micro :: "nat \<Rightarrow> (string \<times> string) option \<Rightarrow> outbox_item list \<Rightarrow> int list" where
  "counted_micro since excl ents =
     [usd_micro q. Some (Inr t) \<leftarrow> map item_intent ents, counted since excl t,
                   Some q \<leftarrow> [st_valuation t], usd_micro q \<ge> 0]"

definition add_micro :: "f64 \<Rightarrow> int \<Rightarrow> f64" where
  "add_micro a m = f64_add a (f64_div_const (f64_of_int m) 1000000)"

lemma counted_micro_Nil [simp]: "counted_micro since excl [] = []"
  by (simp add: counted_micro_def)

lemma sum_items_fold:
  "sum_items since excl ents acc = Ok v \<Longrightarrow> v = foldl add_micro acc (counted_micro since excl ents)"
proof (induction ents arbitrary: acc)
  case (Cons ent ents)
  then show ?case
    by (auto simp: counted_micro_def add_micro_def split: option.splits sum.splits if_splits)
qed simp

lemma micro_quotient_near:
  assumes "0 \<le> m" "m \<le> 2 ^ 40"
  obtains r where "f64_div_const (f64_of_int m) 1000000 = F_fin r" "0 \<le> r"
    "\<bar>r - of_int m / 1000000\<bar> \<le> pow2 (- 33)"
proof -
  let ?q = "of_int m / 1000000 :: rat"
  have m: "(of_int m :: rat) \<le> 2 ^ 40" using assms(2) by (metis of_int_le_iff of_int_numeral of_int_power)
  have "round_pos (of_int m) = of_int m" using assms by (intro round_pos_int) auto
  moreover have "(of_int m :: rat) < pow2 1024"
    by (rule le_less_trans[OF m]) (simp add: pow2_def)
  ultimately have i: "f64_of_int m = F_fin (of_int m)"
    using assms(1) by (simp add: f64_of_int_def f64_of_rat_finite)
  have "?q < pow2 21" using m by (simp add: pow2_def)
  from round_pos_abs[of ?q 21] this assms(1) have n: "\<bar>round_pos ?q - ?q\<bar> \<le> pow2 (- 33)" by simp
  have "pow2 (- 33) < (1 :: rat)" by (simp add: pow2_def)
  then have "round_pos ?q < pow2 1024"
    using n \<open>?q < pow2 21\<close> pow2_less_iff[of 22 1024] by (simp add: pow2_def[of 21] pow2_def[of 22])
  then have "f64_of_rat ?q = F_fin (round_pos ?q)" using assms(1) by (intro f64_of_rat_finite) auto
  with i n show thesis by (intro that[of "round_pos ?q"]) (auto simp: f64_div_const_def)
qed

text \<open>One addition moves the accumulated error by at most \<open>2 ^ -32\<close> dollars.\<close>

lemma add_micro_near:
  assumes "0 \<le> a" "\<bar>a - of_int t / 1000000\<bar> \<le> of_nat n * pow2 (- 32)" "n \<le> 2000"
    and "0 \<le> m" "0 \<le> t" "t + m \<le> 2 ^ 40"
  obtains b where "add_micro (F_fin a) m = F_fin b" "0 \<le> b"
    "\<bar>b - of_int (t + m) / 1000000\<bar> \<le> of_nat (Suc n) * pow2 (- 32)"
proof -
  obtain r where r: "f64_div_const (f64_of_int m) 1000000 = F_fin r" "0 \<le> r"
    "\<bar>r - of_int m / 1000000\<bar> \<le> pow2 (- 33)"
    using micro_quotient_near[of m] assms(4,5,6) by auto
  have "(of_int (t + m) :: rat) \<le> of_int (2 ^ 40)" using assms(6) by (simp only: of_int_le_iff)
  then have T: "(of_int t + of_int m :: rat) \<le> 1099511627776" by simp
  have p: "pow2 (- 32) = 2 * pow2 (- 33)" "2000 * pow2 (- 32) < 1" by (simp_all add: pow2_def)
  have "of_nat n * pow2 (- 32) \<le> 2000 * pow2 (- 32)" using assms(3) by simp
  moreover have "pow2 21 = 2097152" by (simp add: pow2_def)
  ultimately have "a + r < pow2 21" using abs_le_D1[OF assms(2)] abs_le_D1[OF r(3)] T p by linarith
  then have e: "\<bar>round_pos (a + r) - (a + r)\<bar> \<le> pow2 (- 33)"
    using round_pos_abs[of "a + r" 21] assms(1) r(2) by simp
  have "round_pos (a + r) < pow2 1024"
    using e \<open>a + r < pow2 21\<close> p pow2_less_iff[of 22 1024]
    by (simp add: pow2_def[of 21] pow2_def[of 22] abs_le_iff)
  then have "f64_of_rat (a + r) = F_fin (round_pos (a + r))"
    using assms(1) r(2) by (intro f64_of_rat_finite) auto
  moreover have "\<bar>round_pos (a + r) - of_int (t + m) / 1000000\<bar> \<le> of_nat (Suc n) * pow2 (- 32)"
    using e assms(2) r(3) p(1) by (simp add: add_divide_distrib algebra_simps abs_le_iff)
  ultimately show thesis
    using r by (intro that[of "round_pos (a + r)"]) (auto simp: add_micro_def f64_add_def)
qed

lemma fold_micro_near:
  assumes "0 \<le> a" "\<bar>a - of_int t / 1000000\<bar> \<le> of_nat n * pow2 (- 32)" "n + length ms \<le> 2000"
    and "list_all (\<lambda>m. 0 \<le> m) ms" "0 \<le> t" "t + sum_list ms \<le> 2 ^ 40"
  shows "\<exists>b. foldl add_micro (F_fin a) ms = F_fin b \<and> 0 \<le> b \<and>
    \<bar>b - of_int (t + sum_list ms) / 1000000\<bar> \<le> 2000 * pow2 (- 32)"
  using assms
proof (induction ms arbitrary: a t n)
  case Nil
  then have "of_nat n * pow2 (- 32) \<le> 2000 * pow2 (- 32)" by simp
  with Nil show ?case by (intro exI[of _ a]) (auto intro: order_trans)
next
  case (Cons m ms)
  have "0 \<le> sum_list ms" using Cons.prems(4) by (auto simp: list_all_iff intro!: sum_list_nonneg)
  with Cons.prems obtain b where b: "add_micro (F_fin a) m = F_fin b" "0 \<le> b"
    "\<bar>b - of_int (t + m) / 1000000\<bar> \<le> of_nat (Suc n) * pow2 (- 32)"
    using add_micro_near[of a t n m] by auto
  show ?case using Cons.IH[OF b(2,3)] Cons.prems b(1) by (simp add: add.assoc)
qed

lemma micro_usd_near:
  assumes "0 \<le> b" "\<bar>b - of_int t / 1000000\<bar> \<le> 2000 * pow2 (- 32)" "0 \<le> t" "t \<le> 2 ^ 40"
  shows "f64_to_micro_usd (F_fin b) = Some t"
proof -
  let ?p = "b * 1000000"
  have "(of_int t :: rat) \<le> of_int (2 ^ 40)" using assms(4) by (simp only: of_int_le_iff)
  then have T: "(of_int t :: rat) \<le> 1099511627776" by simp
  have p: "\<bar>?p - of_int t\<bar> \<le> 2000 * 1000000 * pow2 (- 32)" using assms(2) by (simp add: abs_le_iff field_simps)
  have c: "2000 * 1000000 * pow2 (- 32) + pow2 (- 13) < 1 / 2" by (simp add: pow2_def)
  have "pow2 41 = 2199023255552" "0 < pow2 (- 13)" by (simp_all add: pow2_def)
  then have lt: "?p < pow2 41" using abs_le_D1[OF p] T c by linarith
  have e: "\<bar>round_pos ?p - ?p\<bar> \<le> pow2 (- 13)" using round_pos_abs[of ?p 41] lt assms(1) by simp
  have n: "\<bar>round_pos ?p - of_int t\<bar> < 1 / 2" using e p c by linarith
  then have r: "round_half_away (round_pos ?p) = t" by (rule round_half_away_near) simp
  have "round_pos ?p < pow2 1024"
    using n T \<open>pow2 41 = _\<close> pow2_less_iff[of 41 1024, THEN iffD2] by linarith
  then have "f64_mul (F_fin b) (F_fin 1000000) = F_fin (round_pos ?p)"
    using assms(1) by (simp add: f64_mul_fin f64_of_rat_finite)
  moreover have "f64_of_int i128_max = F_fin (2 ^ 127)" by code_simp
  moreover have "\<not> (2 ^ 127 < (of_int t :: rat))" using T by simp
  ultimately show ?thesis
    using assms(1,3,4) r by (simp add: f64_to_micro_usd_def f64_round_def f64_to_i128_def i128_max_def i128_min_def)
qed

lemma counted_micro_nonneg: "list_all (\<lambda>m. 0 \<le> m) (counted_micro since excl ents)"
  by (auto simp: counted_micro_def list_all_iff split: option.splits sum.splits if_splits)

lemma ledger_exact:
  assumes "sum_usd_since home w since excl = Ok v" "home w = Some dirs"
    and "length (counted_micro since excl (dir_items dirs)) \<le> 2000"
    and "sum_list (counted_micro since excl (dir_items dirs)) \<le> 2 ^ 40"
  shows "f64_to_micro_usd v = Some (sum_list (counted_micro since excl (dir_items dirs)))"
proof -
  let ?ms = "counted_micro since excl (dir_items dirs)"
  have "v = foldl add_micro (F_fin 0) ?ms"
    using assms(1,2) by (auto simp: sum_usd_since_def and_then_Ok_iff dest: sum_items_fold)
  moreover have "0 \<le> sum_list ?ms"
    using counted_micro_nonneg[of since excl "dir_items dirs"]
    by (auto simp: list_all_iff intro!: sum_list_nonneg)
  ultimately show ?thesis
    using fold_micro_near[of 0 0 0 ?ms] assms(3,4) counted_micro_nonneg by (auto simp: micro_usd_near)
qed

lemma subject_sel [simp]:
  "total_value_usd_micro (subject_of L now t) = authorized_value now t"
  "value_moving (subject_of L now t) = moves_value L t"
  "calldata_verified (subject_of L now t) \<longleftrightarrow> st_action_kind t \<in> {NativeTransfer, Erc20Transfer}"
  "authority_change (subject_of L now t) \<longleftrightarrow> st_action_kind t = Approval"
  by (simp_all add: subject_of_def)

lemma authorized_value_Some:
  "authorized_value now t = Some d \<longleftrightarrow>
     (\<exists>q. st_valuation t = Some q \<and> d = usd_micro q \<and>
          validate_for_authorization q valuation_policy_default now = Ok ())"
  by (auto simp: authorized_value_def is_ok_def split: option.splits sum.splits)

lemma fresh_review_None [simp]: "fresh_review None = None"
  by (simp add: fresh_review_def)

text \<open>
  C15: the engine approves a staged transaction without a review only on verified facts. No stored
  check is a hard violation and the transaction is not an approval of another spender. If it moves
  value, it is one of the two typed transfers, the policy is in \<open>under_policy\<close> mode, the debit is
  the value of a quote that is valid now, and the wallet's rolling spend could be read. If it moves
  no value, the debit is zero and it is no contract creation and no token transfer; it sends no
  wei; and unless it is a plain transfer it names no token or NFT and its calldata is empty or zero.
\<close>

theorem autonomous_tx_sound:
  assumes "initial_decision L home now now' p surface t = ApprovedAutonomous r d"
  shows "\<not> has_deny (st_policy_checks t) \<and> st_action_kind t \<noteq> Approval \<and>
    (if moves_value L t
     then st_action_kind t \<in> {NativeTransfer, Erc20Transfer} \<and>
          effective_agent_autonomy p = UnderPolicy \<and>
          (\<exists>q. st_valuation t = Some q \<and> d = usd_micro q \<and>
               validate_for_authorization q valuation_policy_default now = Ok ()) \<and>
          (\<exists>snap. budget_of home now' t = Ok snap \<and> check_limits p d snap = Ok ())
     else d = 0 \<and> st_action_kind t \<notin> {ContractCreation, Erc20Transfer} \<and> wei_of L t = 0 \<and>
          (st_action_kind t = NativeTransfer \<or>
           st_token t = None \<and> st_nft t = None \<and> (\<exists>n. trim_start_0x (st_data_hex t) = replicate n (CHR ''0''))))"
proof -
  have z: "list_ex (\<lambda>b. b \<noteq> c) s = False \<longleftrightarrow> (\<exists>n. s = replicate n c)" for c :: char and s
    by (metis (mono_tags, lifting) list_ex_iff replicate_length_same in_set_replicate)
  show ?thesis
    using assms
    by (auto simp: initial_decision_def autonomous_iff under_policy_approves authorized_value_Some
        moves_value_def data_nonempty_def z[simplified] split: if_splits sum.splits tx_action_kind.splits)
qed

definition sample_transfer :: staged_tx where
  "sample_transfer = \<lparr>st_id = ''0002-tx'', st_wallet = ''main'', st_chain = ''base'', st_chain_id = 8453,
     st_from = ''0xf'', st_to = Some ''0xa'', st_value_wei = ''1'', st_data_hex = ''0x'',
     st_gas_limit = 21000, st_max_fee_per_gas = None, st_max_priority_fee_per_gas = None,
     st_gas_price = None, st_nonce = 1, st_policy_checks = [], st_created_ms = 100000,
     st_expires_ms = 200000, st_status = Tx_Pending, st_action_kind = NativeTransfer,
     st_tx_hash = None, st_token = None, st_nft = None, st_usd_value = None,
     st_valuation = Some sample_quote, st_depends_on = None, st_action_id = None,
     st_execution_origin = None\<rparr>"

definition sample_home :: "string \<Rightarrow> chain_dir list option" where
  "sample_home w = (if w = ''main''
     then Some [\<lparr>dir_pending = [\<lparr>item_path = ''p'', item_intent = Some (Inr sample_transfer)\<rparr>],
                 dir_sent = [\<lparr>item_path = ''s'', item_intent =
                   Some (Inr (sample_transfer\<lparr>st_id := ''0001-tx'', st_status := Tx_Sent\<rparr>))\<rparr>]\<rparr>]
     else None)"

lemma sample_decision:
  "initial_decision u256_ref sample_home 100000 100000 sample_policy Vfs sample_transfer =
     ApprovedAutonomous [S ''agent_autonomy=under_policy''] 1000000"
  by code_simp

theorem autonomous_tx_sound_witness:
  "initial_decision u256_ref sample_home 100000 100000 sample_policy Vfs sample_transfer =
     ApprovedAutonomous [S ''agent_autonomy=under_policy''] 1000000 \<and>
   \<not> has_deny (st_policy_checks sample_transfer)"
  using sample_decision autonomous_tx_sound[OF sample_decision] by blast

lemma autonomous_limits:
  assumes "initial_decision L home now now' p surface t = ApprovedAutonomous r d" "moves_value L t"
  obtains snap where "budget_of home now' t = Ok snap" "check_limits p d snap = Ok ()"
  using assms
  by (auto simp: initial_decision_def autonomous_iff under_policy_approves split: sum.splits)

lemma budget_of_Ok:
  assumes "budget_of home now t = Ok snap"
    and "(period, spent) \<in> {(DAY_MS, spent_day_micro_usd), (WEEK_MS, spent_week_micro_usd),
                           (MONTH_MS, spent_month_micro_usd)}"
  obtains v where "sum_usd_since home (st_wallet t) (now - period) (Some (st_chain t, st_id t)) = Ok v"
    "spent snap = or_i128_max (f64_to_micro_usd v)"
  using assms by (auto simp: budget_of_def and_then_Ok_iff Let_def)

lemma budget_exact:
  assumes "budget_of home now t = Ok snap" "home (st_wallet t) = Some dirs"
    and "(period, spent) \<in> {(DAY_MS, spent_day_micro_usd), (WEEK_MS, spent_week_micro_usd),
                           (MONTH_MS, spent_month_micro_usd)}"
    and "ms = counted_micro (now - period) (Some (st_chain t, st_id t)) (dir_items dirs)"
    and "length ms \<le> 2000" "sum_list ms \<le> 2 ^ 40"
  shows "spent snap = sum_list ms"
proof -
  obtain v where v: "sum_usd_since home (st_wallet t) (now - period) (Some (st_chain t, st_id t)) = Ok v"
    "spent snap = or_i128_max (f64_to_micro_usd v)"
    using budget_of_Ok[OF assms(1,3)] by blast
  show ?thesis using ledger_exact[OF v(1) assms(2)] assms(4-6) v(2) by (simp add: or_i128_max_def)
qed

lemma check_limits_window:
  assumes "check_limits p d snap = Ok ()" "bound (limits p) = Ok (Some cap)" "cap < i128_max"
    and "(spent, bound) \<in> {(spent_day_micro_usd, max_day_micro_usd),
           (spent_week_micro_usd, max_week_micro_usd), (spent_month_micro_usd, max_month_micro_usd)}"
  shows "spent snap + d \<le> cap"
  using assms
  by (auto simp: check_limits_Ok fits_def fits_required_def dest: i128_sat_add_le)

text \<open>
  C1: the limits hold across the ledger, in exact integer arithmetic. When a value-moving
  transaction is approved without a review, the micro-USD amounts of the wallet's other
  transactions of the last day, week and month that count (pending or sent, not failed, reverted or
  cancelled) together with the debit stay within the daily, weekly and monthly limits that are set,
  although the ledger is summed in \<open>f64\<close> dollars. This holds for up to 2000 counted entries with
  a sum of at most \<open>2 ^ 40\<close> micro-USD (about 1.1 million dollars) in a window, and limits below the
  largest \<open>i128\<close>.
\<close>

theorem autonomous_spend_within_limits:
  assumes "initial_decision L home now now' p surface t = ApprovedAutonomous r d" "moves_value L t"
    and "home (st_wallet t) = Some dirs"
    and "(period, bound) \<in> {(DAY_MS, max_day_micro_usd), (WEEK_MS, max_week_micro_usd),
                         (MONTH_MS, max_month_micro_usd)}"
    and "bound (limits p) = Ok (Some cap)" "cap < i128_max"
    and "ms = counted_micro (now' - period) (Some (st_chain t, st_id t)) (dir_items dirs)"
    and "length ms \<le> 2000" "sum_list ms \<le> 2 ^ 40"
  shows "sum_list ms + d \<le> cap"
proof -
  obtain snap where b: "budget_of home now' t = Ok snap" "check_limits p d snap = Ok ()"
    using autonomous_limits[OF assms(1,2)] by blast
  obtain spent :: "budget_snapshot \<Rightarrow> int" where s:
    "(period, spent) \<in> {(DAY_MS, spent_day_micro_usd), (WEEK_MS, spent_week_micro_usd),
                       (MONTH_MS, spent_month_micro_usd)}"
    "(spent, bound) \<in> {(spent_day_micro_usd, max_day_micro_usd),
       (spent_week_micro_usd, max_week_micro_usd), (spent_month_micro_usd, max_month_micro_usd)}"
    using assms(4) by fastforce
  have "spent snap = sum_list ms" by (rule budget_exact[OF b(1) assms(3) s(1) assms(7-9)])
  then show ?thesis using check_limits_window[OF b(2) assms(5,6) s(2)] by simp
qed

lemma sample_ledger:
  "sample_home (st_wallet sample_transfer) = Some (the (sample_home ''main''))"
  "[1000000] = counted_micro (100000 - DAY_MS) (Some (st_chain sample_transfer, st_id sample_transfer))
     (dir_items (the (sample_home ''main'')))"
  by (simp add: sample_home_def sample_transfer_def) code_simp

theorem autonomous_spend_within_limits_witness:
  "initial_decision u256_ref sample_home 100000 100000 sample_policy Vfs sample_transfer =
     ApprovedAutonomous [S ''agent_autonomy=under_policy''] 1000000 \<and>
   sum_list [1000000] + 1000000 \<le> (250500000 :: int)"
proof -
  have "moves_value u256_ref sample_transfer" by code_simp
  moreover have "250500000 < i128_max" by (simp add: i128_max_def)
  ultimately have "sum_list [1000000] + 1000000 \<le> (250500000 :: int)"
    by (intro autonomous_spend_within_limits[where period = DAY_MS and bound = max_day_micro_usd,
          OF sample_decision _ sample_ledger(1) _ sample_limits(2) _ sample_ledger(2)]) simp_all
  then show ?thesis using sample_decision by simp
qed

text \<open>
  C30: a transaction that the account cannot pay for is never authorized. The funds check is
  absent exactly when the account holds the value plus the largest gas cost, as a sum of integers
  (for a balance below the largest 256-bit integer); and when its denial is among the stored checks
  of a staged transaction, the engine refuses the transaction.
\<close>

theorem underfunded_never_authorized:
  assumes "gas_limit < 2 ^ 64" "fee_cap < 2 ^ 128" "available < 2 ^ 256 - 1"
  shows "(insufficient_native_funds_check L account net symbol dec available v gas_limit fee_cap = None \<longleftrightarrow>
           v + gas_limit * fee_cap \<le> available) \<and>
         (\<forall>c \<in> set (st_policy_checks t).
            insufficient_native_funds_check L account net symbol dec available v gas_limit fee_cap = Some c \<longrightarrow>
            (\<exists>m. ensure_action_authorized triad L home now now' p surface t = Err (ApprovalDenied m)))"
proof
  have "gas_limit * fee_cap \<le> 2 ^ 64 * 2 ^ 128" using assms(1,2) by (intro mult_le_mono) auto
  then have "u_sat_mul 256 gas_limit fee_cap = gas_limit * fee_cap"
    by (simp add: u_sat_mul_def u_max_def)
  then show "insufficient_native_funds_check L account net symbol dec available v gas_limit fee_cap = None \<longleftrightarrow>
    v + gas_limit * fee_cap \<le> available"
    using assms(3) by (auto simp: insufficient_native_funds_check_def u_sat_add_def u_max_def min_def Let_def)
next
  show "\<forall>c \<in> set (st_policy_checks t).
    insufficient_native_funds_check L account net symbol dec available v gas_limit fee_cap = Some c \<longrightarrow>
    (\<exists>m. ensure_action_authorized triad L home now now' p surface t = Err (ApprovalDenied m))"
  proof (intro ballI impI)
    fix c
    assume c: "c \<in> set (st_policy_checks t)"
      "insufficient_native_funds_check L account net symbol dec available v gas_limit fee_cap = Some c"
    then have "is_hard_violation c"
      by (auto simp: insufficient_native_funds_check_def Let_def hard_def is_hard_violation_def split: if_splits)
    with c(1) obtain d where "find is_hard_violation (st_policy_checks t) = Some d"
      by (cases "find is_hard_violation (st_policy_checks t)") (auto simp: find_None_iff)
    then show "\<exists>m. ensure_action_authorized triad L home now now' p surface t = Err (ApprovalDenied m)"
      by (simp add: ensure_action_authorized_def initial_decision_def evaluate_action_authorization_def)
  qed
qed

definition sample_funds :: "nat \<Rightarrow> policy_check option" where
  "sample_funds available =
     insufficient_native_funds_check u256_ref ''main'' ''base'' ''ETH'' 18 available 1000 21000 2"

theorem underfunded_never_authorized_witness:
  "sample_funds 43000 = None \<and>
   (\<exists>m. ensure_action_authorized True u256_ref sample_home 100000 100000 sample_policy Vfs
      (sample_transfer\<lparr>st_policy_checks := [the (sample_funds 42999)]\<rparr>) = Err (ApprovalDenied m))"
proof
  show "sample_funds 43000 = None"
    using underfunded_never_authorized[of 21000 2 43000] by (simp add: sample_funds_def)
  have s: "sample_funds 42999 = Some (the (sample_funds 42999))"
    using underfunded_never_authorized[of 21000 2 42999 u256_ref "''main''" "''base''" "''ETH''" 18 1000]
    by (simp add: sample_funds_def)
  show "\<exists>m. ensure_action_authorized True u256_ref sample_home 100000 100000 sample_policy Vfs
      (sample_transfer\<lparr>st_policy_checks := [the (sample_funds 42999)]\<rparr>) = Err (ApprovalDenied m)"
    by (rule underfunded_never_authorized[THEN conjunct2, rule_format, OF _ _ _ _ s[unfolded sample_funds_def]])
      (simp_all add: sample_funds_def)
qed

end
