(* ===== verification/Outbox.thy ===== *)
theory Outbox
  imports Tx_Authorization "HOL-Library.AList" "HOL-Library.Word"
begin

text \<open>
  The outbox of staged EVM transactions: \<open>crates/bloom-tx/src/outbox.rs\<close>, with the signing
  dispatch and the nonce allocation of \<open>crates/bloom-tx/src/tx_engine.rs\<close> that rely on it.
  A transaction is a directory under its wallet, chain and state; the directory is a map from file
  names to what the file system answers for them. The bytes of a file are the type \<open>'b\<close>; the JSON
  codecs, the payload digest, the address parser and the hash are the record \<open>ob_lib\<close>. The central
  action store is a projection, a record of operations on a state \<open>'c\<close>. Every file system call that
  can fail has a field in \<open>faults\<close>. A call that holds the lifecycle lock is one step.
\<close>

section \<open>Files\<close>

text \<open>
  What is at a path: nothing, a dangling link, something whose metadata cannot be read, a file that
  cannot be read, or a file.
\<close>

datatype 'b node = Absent | Dangling | Hidden string | Unreadable string | File 'b

datatype fs_error = Fs_NotFound | Fs_Other string

definition ENOENT :: string where "ENOENT = ''No such file or directory (os error 2)''"

fun fs_text :: "fs_error \<Rightarrow> string" where
  "fs_text Fs_NotFound = ENOENT"
| "fs_text (Fs_Other m) = m"

fun fs_read :: "'b node \<Rightarrow> (fs_error, 'b) result" where
  "fs_read Absent = Err Fs_NotFound"
| "fs_read Dangling = Err Fs_NotFound"
| "fs_read (Hidden m) = Err (Fs_Other m)"
| "fs_read (Unreadable m) = Err (Fs_Other m)"
| "fs_read (File b) = Ok b"

fun path_exists :: "'b node \<Rightarrow> bool" where
  "path_exists (Unreadable m) = True"
| "path_exists (File b) = True"
| "path_exists _ = False"

definition may_exist :: "'b node \<Rightarrow> bool" where
  "may_exist n \<longleftrightarrow> n \<noteq> Absent"

type_synonym 'b files = "string \<Rightarrow> 'b node"

section \<open>Entries\<close>

datatype outbox_state = Ob_Pending | Ob_Sent | Ob_Failed

fun dirname :: "outbox_state \<Rightarrow> string" where
  "dirname Ob_Pending = ''pending''"
| "dirname Ob_Sent = ''sent''"
| "dirname Ob_Failed = ''failed''"

fun from_status :: "tx_status \<Rightarrow> outbox_state" where
  "from_status Tx_Pending = Ob_Pending"
| "from_status Tx_Sent = Ob_Sent"
| "from_status Tx_Success = Ob_Sent"
| "from_status Tx_Reverted = Ob_Sent"
| "from_status Tx_Failed = Ob_Failed"
| "from_status Tx_Cancelled = Ob_Failed"

definition state_parse :: "string \<Rightarrow> outbox_state option" where
  "state_parse s = find (\<lambda>st. dirname st = s) [Ob_Pending, Ob_Sent, Ob_Failed]"

text \<open>A place is the directory of an entry: wallet, chain, state and id.\<close>

type_synonym place = "string \<times> string \<times> outbox_state \<times> string"

record outbox_entry =
  e_state :: outbox_state
  e_staged :: staged_tx
  e_dir :: place

datatype attempt_kind = Confirm | Replacement | CancelReplacement

fun marker_name :: "attempt_kind \<Rightarrow> string" where
  "marker_name Confirm = ''broadcast_attempted.json''"
| "marker_name Replacement = ''replacement_broadcast_attempted.json''"
| "marker_name CancelReplacement = ''cancel_broadcast_attempted.json''"

fun raw_name :: "attempt_kind \<Rightarrow> string" where
  "raw_name Confirm = ''raw_tx''"
| "raw_name Replacement = ''replacement_raw_tx''"
| "raw_name CancelReplacement = ''cancel_raw_tx''"

definition ALL_KINDS :: "attempt_kind list" where
  "ALL_KINDS = [Confirm, Replacement, CancelReplacement]"

datatype broadcast_transport = PublicRpc | PrivateRpc

record broadcast_attempt =
  ba_schema :: string
  ba_tx_hash :: string
  ba_raw_tx_blake3 :: string
  ba_raw_tx_path :: string
  ba_from :: string
  ba_to :: "string option"
  ba_nonce :: nat
  ba_chain_id :: nat
  ba_created_ms :: nat
  ba_transport :: broadcast_transport
  ba_private_provider :: "string option"

record mined_receipt =
  mr_outcome :: string
  mr_tx_hash :: string
  mr_block_number :: "nat option"
  mr_contract_address :: "string option"
  mr_revert_reason :: "string option"

definition receipt_is_success :: "mined_receipt \<Rightarrow> bool" where
  "receipt_is_success r \<longleftrightarrow> mr_outcome r = ''success''"

record signing_summary =
  sg_dispatched :: bool
  sg_action_id :: string

record 'd batch_summary =
  bs_dispatched :: bool
  bs_wallet :: string
  bs_refs :: "(string \<times> string) list"
  bs_digests :: "'d option list"

record signing_unknown =
  su_schema :: string
  su_tx_id :: string
  su_chain :: string
  su_from :: string
  su_nonce :: nat
  su_tx_hash :: "string option"
  su_next :: string

abbreviation INTENT :: string where "INTENT \<equiv> ''intent.json''"
definition SIGNING_STATE_FILE :: string where "SIGNING_STATE_FILE = ''ceremony.json''"
definition SIGNING_UNKNOWN_FILE :: string where "SIGNING_UNKNOWN_FILE = ''signing_unknown.json''"
definition RECEIPT_FILE :: string where "RECEIPT_FILE = ''receipt.json''"

lemmas file_names = SIGNING_STATE_FILE_def SIGNING_UNKNOWN_FILE_def RECEIPT_FILE_def

section \<open>The outbox and its libraries\<close>

record ('b, 'd, 'a) ob_lib =
  enc_intent :: "staged_tx \<Rightarrow> 'b"
  dec_intent :: "'b \<Rightarrow> (string, staged_tx) result"
  same_json :: "staged_tx \<Rightarrow> staged_tx \<Rightarrow> bool"
  enc_text :: "string \<Rightarrow> 'b"
  enc_checks :: "policy_check list \<Rightarrow> 'b"
  enc_attempt :: "broadcast_attempt \<Rightarrow> 'b"
  dec_attempt :: "'b \<Rightarrow> (string, broadcast_attempt) result"
  enc_signing :: "signing_summary \<Rightarrow> 'b"
  dec_signing :: "'b \<Rightarrow> signing_summary option"
  dec_batch :: "'b \<Rightarrow> 'd batch_summary option"
  dec_receipt :: "'b \<Rightarrow> (string, mined_receipt) result"
  enc_unknown :: "signing_unknown \<Rightarrow> 'b"
  bytes_b3 :: "'b \<Rightarrow> string"
  payload_digest :: "staged_tx \<Rightarrow> 'd option"
  parse_addr :: "string \<Rightarrow> 'a option"

text \<open>The entries of the batch directory, as its listing presents them.\<close>

datatype 'b batch_item = Item_Error | Stray_File | Batch_State "'b node"

datatype 'b batch_dir = No_Batches | Batches_Unreadable | Batches "'b batch_item list"

record ('b, 'c) outbox =
  ob_dirs :: "(place \<times> 'b files) list"
  ob_archive :: "((string \<times> string \<times> string) \<times> 'b files) list"
  ob_batches :: "'b batch_dir"
  ob_central :: 'c
  ob_next_id :: "64 word"

record ('b, 'c) central_projection =
  pj_allocate :: "string \<Rightarrow> string \<Rightarrow> string \<Rightarrow> nat \<Rightarrow> 'c \<Rightarrow> (string, string) result \<times> 'c"
  pj_stage :: "string \<Rightarrow> 'b \<Rightarrow> string \<Rightarrow> 'b \<Rightarrow> string \<times> string \<times> string \<Rightarrow> 'c \<Rightarrow> (string, unit) result \<times> 'c"
  pj_transition :: "string \<Rightarrow> string \<Rightarrow> string \<Rightarrow> 'c \<Rightarrow> (string, unit) result \<times> 'c"

definition files_at :: "('b, 'c) outbox \<Rightarrow> place \<Rightarrow> 'b files" where
  "files_at ob k = (case map_of (ob_dirs ob) k of Some f \<Rightarrow> f | None \<Rightarrow> (\<lambda>_. Absent))"

definition has_dir :: "('b, 'c) outbox \<Rightarrow> place \<Rightarrow> bool" where
  "has_dir ob k \<longleftrightarrow> map_of (ob_dirs ob) k \<noteq> None"

definition wallet_chain_dir :: "string \<Rightarrow> string \<Rightarrow> (outbox_error, unit) result" where
  "wallet_chain_dir w c =
     and_then (map_err (\<lambda>_. InvalidWallet w) (validate_segment w)) (\<lambda>_.
       map_err (\<lambda>_. InvalidChain c) (validate_segment c))"

definition state_dir :: "string \<Rightarrow> string \<Rightarrow> outbox_state \<Rightarrow> (outbox_error, string \<times> string \<times> outbox_state) result" where
  "state_dir w c st = and_then (wallet_chain_dir w c) (\<lambda>_. Ok (w, c, st))"

text \<open>\<open>allocate_id\<close>: the counter of this process and the clock modulo 100 seconds.\<close>

definition outbox_new :: "('b, 'c) outbox \<Rightarrow> ('b, 'c) outbox" where
  "outbox_new ob = ob\<lparr>ob_next_id := 1\<rparr>"

definition allocate_id :: "nat \<Rightarrow> ('b, 'c) outbox \<Rightarrow> string \<times> ('b, 'c) outbox" where
  "allocate_id now_ms ob =
     (pad_nat 4 (unat (ob_next_id ob)) @ ''-'' @ pad_nat 5 (now_ms mod 100000),
      ob\<lparr>ob_next_id := ob_next_id ob + 1\<rparr>)"

section \<open>Evidence of signing\<close>

record 'd batch_index_rec =
  bi_dispatched :: "(string \<times> string \<times> string) \<rightharpoonup> ('d option \<times> string list) list"
  bi_unreadable :: bool

definition batch_index_default :: "'d batch_index_rec" where
  "batch_index_default = \<lparr>bi_dispatched = Map.empty, bi_unreadable = False\<rparr>"

definition push_attempt ::
  "(string \<times> string \<times> string) \<Rightarrow> 'd option \<times> string list \<Rightarrow> 'd batch_index_rec \<Rightarrow> 'd batch_index_rec" where
  "push_attempt k x bi =
     bi\<lparr>bi_dispatched := (bi_dispatched bi)(k \<mapsto> (case bi_dispatched bi k of Some xs \<Rightarrow> xs | None \<Rightarrow> []) @ [x])\<rparr>"

definition index_batch :: "'d batch_summary \<Rightarrow> 'd batch_index_rec \<Rightarrow> 'd batch_index_rec" where
  "index_batch s bi =
     (if \<not> bs_dispatched s then bi
      else (let refs = map (\<lambda>(chain, id). chain @ '':'' @ id) (bs_refs s);
                digests = (if length (bs_digests s) = length (bs_refs s) then bs_digests s
                           else map (\<lambda>_. None) (bs_refs s))
            in fold (\<lambda>((chain, id), digest). push_attempt (bs_wallet s, chain, id) (digest, refs))
                 (zip (bs_refs s) digests) bi))"

definition index_item :: "('b, 'd, 'a) ob_lib \<Rightarrow> 'b batch_item \<Rightarrow> 'd batch_index_rec \<Rightarrow> 'd batch_index_rec" where
  "index_item L it bi =
     (case it of
        Item_Error \<Rightarrow> bi\<lparr>bi_unreadable := True\<rparr>
      | Stray_File \<Rightarrow> bi
      | Batch_State n \<Rightarrow>
          (case fs_read n of
             Inl Fs_NotFound \<Rightarrow> bi
           | Inl (Fs_Other m) \<Rightarrow> bi\<lparr>bi_unreadable := True\<rparr>
           | Inr b \<Rightarrow>
               (case dec_batch L b of
                  None \<Rightarrow> bi\<lparr>bi_unreadable := True\<rparr>
                | Some s \<Rightarrow> index_batch s bi)))"

definition batch_index :: "('b, 'd, 'a) ob_lib \<Rightarrow> ('b, 'c) outbox \<Rightarrow> 'd batch_index_rec" where
  "batch_index L ob =
     (case ob_batches ob of
        No_Batches \<Rightarrow> batch_index_default
      | Batches_Unreadable \<Rightarrow> batch_index_default\<lparr>bi_unreadable := True\<rparr>
      | Batches items \<Rightarrow> fold (index_item L) items batch_index_default)"

definition covering :: "('b, 'd, 'a) ob_lib \<Rightarrow> 'd batch_index_rec \<Rightarrow> staged_tx \<Rightarrow> string list option" where
  "covering L bi t =
     (case bi_dispatched bi (st_wallet t, st_chain t, st_id t) of
        None \<Rightarrow> None
      | Some xs \<Rightarrow>
          map_option snd (find (\<lambda>(signed, _).
            case (signed, payload_digest L t) of (Some s, Some d) \<Rightarrow> s = d | _ \<Rightarrow> True) xs))"

definition covers :: "('b, 'd, 'a) ob_lib \<Rightarrow> 'd batch_index_rec \<Rightarrow> staged_tx \<Rightarrow> bool" where
  "covers L bi t \<longleftrightarrow> bi_unreadable bi \<or> covering L bi t \<noteq> None"

definition signing_dispatched :: "('b, 'd, 'a) ob_lib \<Rightarrow> 'b node \<Rightarrow> bool" where
  "signing_dispatched L n \<longleftrightarrow>
     (case fs_read n of
        Inr b \<Rightarrow> (case dec_signing L b of None \<Rightarrow> True | Some s \<Rightarrow> sg_dispatched s)
      | Inl e \<Rightarrow> e \<noteq> Fs_NotFound)"

definition cancel_attempted :: "('b, 'd, 'a) ob_lib \<Rightarrow> 'b files \<Rightarrow> bool" where
  "cancel_attempted L f \<longleftrightarrow>
     may_exist (f ''cancel_tx_hash'') \<or> may_exist (f (marker_name CancelReplacement)) \<or>
     may_exist (f (raw_name CancelReplacement)) \<or>
     (case fs_read (f SIGNING_STATE_FILE) of
        Inl _ \<Rightarrow> False
      | Inr b \<Rightarrow>
          (case dec_signing L b of
             None \<Rightarrow> False
           | Some s \<Rightarrow> sg_dispatched s \<and> ends_with (sg_action_id s) '':cancel''))"

definition possibly_signed :: "('b, 'd, 'a) ob_lib \<Rightarrow> 'b files \<Rightarrow> staged_tx \<Rightarrow> 'd batch_index_rec \<Rightarrow> bool" where
  "possibly_signed L f t bi \<longleftrightarrow>
     st_tx_hash t \<noteq> None \<or>
     list_ex (\<lambda>k. may_exist (f (marker_name k)) \<or> may_exist (f (raw_name k))) ALL_KINDS \<or>
     signing_dispatched L (f SIGNING_STATE_FILE) \<or> covers L bi t"

section \<open>Reading and writing entries\<close>

definition then_st ::
  "('e, 'a) result \<times> 's \<Rightarrow> ('a \<Rightarrow> 's \<Rightarrow> ('e, 'r) result \<times> 's) \<Rightarrow> ('e, 'r) result \<times> 's" where
  "then_st m k = (case m of (Inl e, s) \<Rightarrow> (Err e, s) | (Inr a, s) \<Rightarrow> k a s)"

definition ensure_dir :: "place \<Rightarrow> ('b, 'c) outbox \<Rightarrow> ('b, 'c) outbox" where
  "ensure_dir k ob = (if has_dir ob k then ob else ob\<lparr>ob_dirs := AList.update k (\<lambda>_. Absent) (ob_dirs ob)\<rparr>)"

text \<open>
  The failure of a write: its error, and whether the change had been made before it (a rename whose
  directory could not be synced).
\<close>

type_synonym fault = "(string \<times> bool) option"

definition faulty :: "fault \<Rightarrow> 's \<Rightarrow> 's \<Rightarrow> (outbox_error, unit) result \<times> 's" where
  "faulty fault before after =
     (case fault of
        None \<Rightarrow> (Ok (), after)
      | Some (m, done) \<Rightarrow> (Err (Io m), if done then after else before))"

definition create_dir_durable :: "fault \<Rightarrow> place \<Rightarrow> ('b, 'c) outbox \<Rightarrow> (outbox_error, unit) result \<times> ('b, 'c) outbox" where
  "create_dir_durable fault k ob = faulty fault ob (ensure_dir k ob)"

definition put_file :: "place \<Rightarrow> string \<Rightarrow> 'b node \<Rightarrow> ('b, 'c) outbox \<Rightarrow> ('b, 'c) outbox" where
  "put_file k name n ob = ob\<lparr>ob_dirs := AList.update k ((files_at ob k)(name := n)) (ob_dirs ob)\<rparr>"

definition write_artefact ::
  "fault \<Rightarrow> place \<Rightarrow> string \<Rightarrow> 'b \<Rightarrow> ('b, 'c) outbox \<Rightarrow> (outbox_error, unit) result \<times> ('b, 'c) outbox" where
  "write_artefact fault k name body ob =
     (if CHR ''/'' \<in> set name \<or> CHR 0x5C \<in> set name then (Err (InvalidId name), ob)
      else if \<not> has_dir ob k then (Err (Io ENOENT), ob)
      else faulty fault ob (put_file k name (File body) ob))"

definition read_status :: "('b, 'd, 'a) ob_lib \<Rightarrow> outbox_state \<Rightarrow> 'b files \<Rightarrow> staged_tx \<Rightarrow> staged_tx" where
  "read_status L st f t =
     (let t' = (if st = Ob_Failed \<and> from_status (st_status t) \<noteq> Ob_Failed then t\<lparr>st_status := Tx_Failed\<rparr> else t)
      in case fs_read (f RECEIPT_FILE) of
           Inl _ \<Rightarrow> t'
         | Inr b \<Rightarrow>
             (case dec_receipt L b of
                Inl _ \<Rightarrow> t'
              | Inr r \<Rightarrow> if mr_outcome r = ''cancelled'' then t'\<lparr>st_status := Tx_Cancelled\<rparr> else t'))"

definition ALL_STATES :: "outbox_state list" where "ALL_STATES = [Ob_Pending, Ob_Sent, Ob_Failed]"

fun read_states ::
  "('b, 'd, 'a) ob_lib \<Rightarrow> string \<Rightarrow> string \<Rightarrow> string \<Rightarrow> outbox_state list \<Rightarrow> ('b, 'c) outbox \<Rightarrow>
   (outbox_error, outbox_entry) result" where
  "read_states L w c i [] ob = Err (Ob_NotFound i)"
| "read_states L w c i (st # sts) ob =
     and_then (state_dir w c st) (\<lambda>_.
       let f = files_at ob (w, c, st, i)
       in case fs_read (f INTENT) of
            Inl Fs_NotFound \<Rightarrow> read_states L w c i sts ob
          | Inl (Fs_Other m) \<Rightarrow> Err (Io m)
          | Inr b \<Rightarrow>
              and_then (map_err Serde (dec_intent L b)) (\<lambda>t.
                Ok \<lparr>e_state = st, e_staged = read_status L st f t, e_dir = (w, c, st, i)\<rparr>))"

definition outbox_read ::
  "('b, 'd, 'a) ob_lib \<Rightarrow> string \<Rightarrow> string \<Rightarrow> string \<Rightarrow> ('b, 'c) outbox \<Rightarrow> (outbox_error, outbox_entry) result" where
  "outbox_read L w c i ob = read_states L w c i ALL_STATES ob"

definition read_intent :: "('b, 'd, 'a) ob_lib \<Rightarrow> 'b node \<Rightarrow> (outbox_error, staged_tx) result" where
  "read_intent L n = and_then (map_err (\<lambda>e. Io (fs_text e)) (fs_read n)) (\<lambda>b. map_err Serde (dec_intent L b))"

definition read_in_state ::
  "('b, 'd, 'a) ob_lib \<Rightarrow> string \<Rightarrow> string \<Rightarrow> string \<Rightarrow> outbox_state \<Rightarrow> ('b, 'c) outbox \<Rightarrow>
   (outbox_error, outbox_entry) result" where
  "read_in_state L w c i expected ob =
     and_then (state_dir w c expected) (\<lambda>_.
       let n = files_at ob (w, c, expected, i) INTENT
       in if path_exists n then
            and_then (read_intent L n) (\<lambda>t.
              Ok \<lparr>e_state = expected, e_staged = t, e_dir = (w, c, expected, i)\<rparr>)
          else case find (\<lambda>st. st \<noteq> expected \<and> path_exists (files_at ob (w, c, st, i) INTENT)) ALL_STATES of
            Some st \<Rightarrow> Err (StateMismatch i (dirname expected) (dirname st))
          | None \<Rightarrow> Err (Ob_NotFound i))"

text \<open>Staging. The faults are those of creating the directory and of the three writes.\<close>

record stage_faults =
  sf_dir :: fault
  sf_plan :: fault
  sf_checks :: fault
  sf_intent :: fault

definition default_origin :: execution_origin where
  "default_origin = \<lparr>petal_id = ''evm-wallet'', petal_digest = ''first-party-placeholder:evm-wallet:v0'',
     petal_version = ''v0'', route_id = None\<rparr>"

definition resolved_execution_origin :: "staged_tx \<Rightarrow> execution_origin" where
  "resolved_execution_origin t = (case st_execution_origin t of Some a \<Rightarrow> a | None \<Rightarrow> default_origin)"

definition venue_local_id :: "staged_tx \<Rightarrow> outbox_entry option \<Rightarrow> string" where
  "venue_local_id t previous =
     (case previous of
        Some e \<Rightarrow>
          if e_state e = Ob_Failed then
            st_id t @ ''-retry-'' @ (case st_action_id (e_staged e) of Some a \<Rightarrow> a | None \<Rightarrow> ''legacy'')
          else st_id t
      | None \<Rightarrow> st_id t)"

definition project_stage ::
  "('b, 'd, 'a) ob_lib \<Rightarrow> ('b, 'c) central_projection \<Rightarrow> staged_tx \<Rightarrow> string \<Rightarrow> ('b, 'c) outbox \<Rightarrow>
   (outbox_error, staged_tx) result \<times> ('b, 'c) outbox" where
  "project_stage L pj t plan ob =
     (let stage = (\<lambda>previous.
        case pj_allocate pj ''evm'' (venue_local_id t previous) (st_wallet t) (st_created_ms t mod 2 ^ 64) (ob_central ob) of
          (Inl m, c) \<Rightarrow> (Err (Ob_Other m), ob\<lparr>ob_central := c\<rparr>)
        | (Inr action, c) \<Rightarrow>
            (let t' = t\<lparr>st_action_id := Some action\<rparr>; origin = resolved_execution_origin t
             in case pj_stage pj action (enc_intent L t') plan (enc_checks L (st_policy_checks t'))
                  (petal_id origin, petal_digest origin, petal_version origin) c of
                  (Inl m, c') \<Rightarrow> (Err (Ob_Other m), ob\<lparr>ob_central := c'\<rparr>)
                | (Inr _, c') \<Rightarrow> (Ok t', ob\<lparr>ob_central := c'\<rparr>)))
      in case outbox_read L (st_wallet t) (st_chain t) (st_id t) ob of
           Inr e \<Rightarrow> stage (Some e)
         | Inl (Ob_NotFound _) \<Rightarrow> stage None
         | Inl e \<Rightarrow> (Err e, ob))"

definition stage_files ::
  "('b, 'd, 'a) ob_lib \<Rightarrow> stage_faults \<Rightarrow> staged_tx \<Rightarrow> string \<Rightarrow> ('b, 'c) outbox \<Rightarrow> (outbox_error, place) result \<times> ('b, 'c) outbox" where
  "stage_files L F t plan ob =
     (case state_dir (st_wallet t) (st_chain t) Ob_Pending of
        Inl e \<Rightarrow> (Err e, ob)
      | Inr _ \<Rightarrow>
          (let k = (st_wallet t, st_chain t, Ob_Pending, st_id t)
           in then_st (create_dir_durable (sf_dir F) k ob) (\<lambda>_ ob1.
              then_st (write_artefact (sf_plan F) k ''plan.md'' (enc_text L plan) ob1) (\<lambda>_ ob2.
              then_st (write_artefact (sf_checks F) k ''policy_check.json'' (enc_checks L (st_policy_checks t)) ob2) (\<lambda>_ ob3.
              then_st (write_artefact (sf_intent F) k INTENT (enc_intent L t) ob3) (\<lambda>_ ob4. (Ok k, ob4)))))))"

definition write_pending ::
  "('b, 'd, 'a) ob_lib \<Rightarrow> ('b, 'c) central_projection option \<Rightarrow> stage_faults \<Rightarrow> staged_tx \<Rightarrow> string \<Rightarrow> ('b, 'c) outbox \<Rightarrow>
   (outbox_error, place) result \<times> ('b, 'c) outbox" where
  "write_pending L P F t plan ob =
     (case origin_validate (resolved_execution_origin t) of
        Inl m \<Rightarrow> (Err (Ob_Other m), ob)
      | Inr _ \<Rightarrow>
          then_st (case P of None \<Rightarrow> (Ok t, ob) | Some pj \<Rightarrow> project_stage L pj t plan ob)
            (\<lambda>t' ob1. stage_files L F t' plan ob1))"

section \<open>Moving entries\<close>

text \<open>
  The failures of a move, in the order of the calls. A rename either moves the directory or fails;
  \<open>tf_attempt\<close> is the path of the attempt directory made for a previous record.
\<close>

record move_faults =
  tf_parent :: "string option"
  tf_archive :: "string option"
  tf_backup :: "string option"
  tf_backup_sync :: "string option"
  tf_rename :: "string option"
  tf_restore :: "string option"
  tf_restore_sync :: "string option"
  tf_sync :: "string option"
  tf_rollback :: "string option"
  tf_rollback_sync :: "string option"
  tf_reinstate :: "string option"
  tf_reinstate_sync :: "string option"
  tf_unlink :: "attempt_kind \<Rightarrow> bool"
  tf_attempt :: string

definition move_dir ::
  "string option \<Rightarrow> place \<Rightarrow> place \<Rightarrow> ('b, 'c) outbox \<Rightarrow> (string, unit) result \<times> ('b, 'c) outbox" where
  "move_dir fault a b ob =
     (case fault of
        Some m \<Rightarrow> (Err m, ob)
      | None \<Rightarrow>
          (case map_of (ob_dirs ob) a of
             None \<Rightarrow> (Err ENOENT, ob)
           | Some f \<Rightarrow> (Ok (), ob\<lparr>ob_dirs := AList.update b f (AList.delete a (ob_dirs ob))\<rparr>)))"

fun to_archive :: "place \<Rightarrow> ('b, 'c) outbox \<Rightarrow> ('b, 'c) outbox" where
  "to_archive (w, c, st, i) ob =
     ob\<lparr>ob_dirs := AList.delete (w, c, st, i) (ob_dirs ob),
        ob_archive := ob_archive ob @ [((w, c, i), files_at ob (w, c, st, i))]\<rparr>"

definition from_archive :: "place \<Rightarrow> ('b, 'c) outbox \<Rightarrow> ('b, 'c) outbox" where
  "from_archive k ob =
     ob\<lparr>ob_dirs := AList.update k (snd (last (ob_archive ob))) (ob_dirs ob),
        ob_archive := butlast (ob_archive ob)\<rparr>"

text \<open>The previous record at the target is set aside first; the result says whether there was one.\<close>

definition set_aside ::
  "move_faults \<Rightarrow> place \<Rightarrow> ('b, 'c) outbox \<Rightarrow> (outbox_error, bool) result \<times> ('b, 'c) outbox" where
  "set_aside F k ob =
     (if \<not> has_dir ob k then (Ok False, ob)
      else case tf_archive F of
        Some m \<Rightarrow> (Err (Io m), ob)
      | None \<Rightarrow>
          (case tf_backup F of
             Some m \<Rightarrow> (Err (Io m), ob)
           | None \<Rightarrow>
               (case tf_backup_sync F of
                  Some m \<Rightarrow> (Err (Io m), to_archive k ob)
                | None \<Rightarrow> (Ok True, to_archive k ob))))"

definition rename_failed ::
  "move_faults \<Rightarrow> place \<Rightarrow> bool \<Rightarrow> string \<Rightarrow> ('b, 'c) outbox \<Rightarrow> (outbox_error, place) result \<times> ('b, 'c) outbox" where
  "rename_failed F k previous m ob =
     (let stuck = (\<lambda>e. Ob_Other (''wallet transition failed: '' @ m @ ''; previous record remains at '' @
            tf_attempt F @ ''/entry: '' @ e))
      in if \<not> previous then (Err (Io m), ob)
         else case tf_restore F of
           Some e \<Rightarrow> (Err (stuck e), ob)
         | None \<Rightarrow>
             (case tf_restore_sync F of
                Some e \<Rightarrow> (Err (stuck e), from_archive k ob)
              | None \<Rightarrow> (Err (Io m), from_archive k ob)))"

text \<open>The projection refused: move the entry back, then the previous record.\<close>

definition roll_back ::
  "move_faults \<Rightarrow> place \<Rightarrow> place \<Rightarrow> bool \<Rightarrow> ('b, 'c) outbox \<Rightarrow> string \<times> ('b, 'c) outbox" where
  "roll_back F src k previous ob =
     (let failed = (\<lambda>e. ''wallet outbox rollback failed: '' @ e);
          remains = (\<lambda>e. ''pending restored; previous record remains at '' @ tf_attempt F @ ''/entry: '' @ e)
      in case move_dir (tf_rollback F) k src ob of
        (Inl e, ob1) \<Rightarrow> (failed e, ob1)
      | (Inr _, ob1) \<Rightarrow>
          (case tf_rollback_sync F of
             Some e \<Rightarrow> (failed e, ob1)
           | None \<Rightarrow>
               if \<not> previous then (''wallet outbox transition rolled back'', ob1)
               else case tf_reinstate F of
                 Some e \<Rightarrow> (remains e, ob1)
               | None \<Rightarrow>
                   (case tf_reinstate_sync F of
                      Some e \<Rightarrow> (remains e, from_archive k ob1)
                    | None \<Rightarrow> (''wallet outbox transition and previous record restored'', from_archive k ob1))))"

definition project_transition ::
  "('b, 'c) central_projection option \<Rightarrow> outbox_entry \<Rightarrow> outbox_state \<Rightarrow> ('b, 'c) outbox \<Rightarrow>
   (string \<times> string, unit) result \<times> ('b, 'c) outbox" where
  "project_transition P e new ob =
     (case (P, st_action_id (e_staged e)) of
        (Some pj, Some action) \<Rightarrow>
          (case pj_transition pj action (dirname (e_state e)) (dirname new) (ob_central ob) of
             (Inl m, c) \<Rightarrow> (Err (action, m), ob\<lparr>ob_central := c\<rparr>)
           | (Inr _, c) \<Rightarrow> (Ok (), ob\<lparr>ob_central := c\<rparr>))
      | _ \<Rightarrow> (Ok (), ob))"

definition drop_raw :: "move_faults \<Rightarrow> place \<Rightarrow> outbox_state \<Rightarrow> ('b, 'c) outbox \<Rightarrow> ('b, 'c) outbox" where
  "drop_raw F k new ob =
     (if new \<in> {Ob_Sent, Ob_Failed}
      then fold (\<lambda>kind ob. if tf_unlink F kind then ob else put_file k (raw_name kind) Absent ob) ALL_KINDS ob
      else ob)"

definition finish_move ::
  "('b, 'c) central_projection option \<Rightarrow> move_faults \<Rightarrow> outbox_entry \<Rightarrow> outbox_state \<Rightarrow> place \<Rightarrow> bool \<Rightarrow> ('b, 'c) outbox \<Rightarrow>
   (outbox_error, place) result \<times> ('b, 'c) outbox" where
  "finish_move P F e new k previous ob =
     (case tf_sync F of
        Some m \<Rightarrow> (Err (Io m), ob)
      | None \<Rightarrow>
          (case project_transition P e new ob of
             (Inl (action, m), ob1) \<Rightarrow>
               (let (detail, ob2) = roll_back F (e_dir e) k previous ob1
                in (Err (Ob_Other (''central outbox transition failed for action '' @ action @ '' ('' @
                      dirname (e_state e) @ ''->'' @ dirname new @ ''): '' @ m @ ''; '' @ detail)), ob2))
           | (Inr _, ob1) \<Rightarrow> (Ok k, drop_raw F k new ob1)))"

definition move_entry ::
  "('b, 'c) central_projection option \<Rightarrow> move_faults \<Rightarrow> outbox_entry \<Rightarrow> outbox_state \<Rightarrow> place \<Rightarrow> ('b, 'c) outbox \<Rightarrow>
   (outbox_error, place) result \<times> ('b, 'c) outbox" where
  "move_entry P F e new k ob =
     then_st (set_aside F k ob) (\<lambda>previous ob1.
       case move_dir (tf_rename F) (e_dir e) k ob1 of
         (Inl m, ob2) \<Rightarrow> rename_failed F k previous m ob2
       | (Inr _, ob2) \<Rightarrow> finish_move P F e new k previous ob2)"

definition outbox_transition ::
  "('b, 'c) central_projection option \<Rightarrow> move_faults \<Rightarrow> outbox_entry \<Rightarrow> outbox_state \<Rightarrow> ('b, 'c) outbox \<Rightarrow>
   (outbox_error, place) result \<times> ('b, 'c) outbox" where
  "outbox_transition P F e new ob =
     (if e_state e = new then (Ok (e_dir e), ob)
      else case state_dir (st_wallet (e_staged e)) (st_chain (e_staged e)) new of
        Inl err \<Rightarrow> (Err err, ob)
      | Inr _ \<Rightarrow>
          (case tf_parent F of
             Some m \<Rightarrow> (Err (Io m), ob)
           | None \<Rightarrow> move_entry P F e new (st_wallet (e_staged e), st_chain (e_staged e), new, st_id (e_staged e)) ob))"

definition transition_with_status ::
  "('b, 'd, 'a) ob_lib \<Rightarrow> ('b, 'c) central_projection option \<Rightarrow> move_faults \<Rightarrow> fault \<Rightarrow> outbox_entry \<Rightarrow> tx_status \<Rightarrow>
   ('b, 'c) outbox \<Rightarrow> (outbox_error, place) result \<times> ('b, 'c) outbox" where
  "transition_with_status L P F fault e status ob =
     then_st (outbox_transition P F e (from_status status) ob) (\<lambda>k ob1.
       case read_intent L (files_at ob1 k INTENT) of
         Inl err \<Rightarrow> (Err err, ob1)
       | Inr t \<Rightarrow>
           then_st (write_artefact fault k INTENT (enc_intent L (t\<lparr>st_status := status\<rparr>)) ob1) (\<lambda>_ ob2. (Ok k, ob2)))"

definition recorded_hash :: "('b, 'd, 'a) ob_lib \<Rightarrow> 'b files \<Rightarrow> staged_tx \<Rightarrow> string option" where
  "recorded_hash L f t =
     (case st_tx_hash t of
        Some h \<Rightarrow> Some h
      | None \<Rightarrow>
          (let hash = (\<lambda>kind. case fs_read (f (marker_name kind)) of
                 Inl _ \<Rightarrow> None
               | Inr b \<Rightarrow> (case dec_attempt L b of Inl _ \<Rightarrow> None | Inr a \<Rightarrow> Some (ba_tx_hash a)))
           in Option.bind (find (\<lambda>kind. hash kind \<noteq> None) ALL_KINDS) hash))"

section \<open>Discarding and expiring\<close>

record discard_faults =
  df_lock :: "string option"
  df_move :: move_faults
  df_intent :: fault
  df_note :: fault

definition signing_evidence_of :: "('b, 'd, 'a) ob_lib \<Rightarrow> 'b files \<Rightarrow> staged_tx \<Rightarrow> 'd batch_index_rec \<Rightarrow> signing_evidence" where
  "signing_evidence_of L f t batches =
     (if cancel_attempted L f then Ev_Cancel
      else if possibly_signed L f t batch_index_default then Ev_Entry
      else case covering L batches t of Some refs \<Rightarrow> Ev_Batch refs | None \<Rightarrow> Ev_UnreadableBatch)"

definition outbox_cancel ::
  "('b, 'd, 'a) ob_lib \<Rightarrow> ('b, 'c) central_projection option \<Rightarrow> discard_faults \<Rightarrow> string \<Rightarrow> string \<Rightarrow> string \<Rightarrow> ('b, 'c) outbox \<Rightarrow>
   (outbox_error, unit) result \<times> ('b, 'c) outbox" where
  "outbox_cancel L P F w c i ob =
     (case df_lock F of
        Some m \<Rightarrow> (Err (Io m), ob)
      | None \<Rightarrow>
          (case read_in_state L w c i Ob_Pending ob of
             Inl err \<Rightarrow> (Err err, ob)
           | Inr e \<Rightarrow>
               (let batches = batch_index L ob; f = files_at ob (e_dir e)
                in if possibly_signed L f (e_staged e) batches
                   then (Err (PossiblySigned w i (recorded_hash L f (e_staged e))
                           (signing_evidence_of L f (e_staged e) batches)), ob)
                   else then_st (transition_with_status L P (df_move F) (df_intent F) e Tx_Cancelled ob) (\<lambda>k ob1.
                        write_artefact (df_note F) k ''cancel.txt'' (enc_text L ''cancelled by user'') ob1))))"

text \<open>
  The listing is what the directories of the outbox show: an entry whose directory could not be
  listed is not in it, and one that was removed meanwhile may be.
\<close>

definition expired :: "nat \<Rightarrow> staged_tx \<Rightarrow> bool" where
  "expired now t \<longleftrightarrow> \<not> (st_expires_ms t = 0 \<or> now < st_expires_ms t)"

definition expired_entry ::
  "('b, 'd, 'a) ob_lib \<Rightarrow> nat \<Rightarrow> 'd batch_index_rec \<Rightarrow> ('b, 'c) outbox \<Rightarrow> string \<times> string \<times> string \<Rightarrow> outbox_entry option" where
  "expired_entry L now batches ob = (\<lambda>(w, c, i).
     (let k = (w, c, Ob_Pending, i); f = files_at ob k
      in if \<not> may_exist (f INTENT) then None
         else case read_intent L (f INTENT) of
           Inl _ \<Rightarrow> None
         | Inr t \<Rightarrow>
             if expired now t \<and> \<not> possibly_signed L f t batches
             then Some \<lparr>e_state = Ob_Pending, e_staged = t, e_dir = k\<rparr> else None))"

definition expired_pending ::
  "('b, 'd, 'a) ob_lib \<Rightarrow> nat \<Rightarrow> (outbox_error, (string \<times> string \<times> string) list) result \<Rightarrow> ('b, 'c) outbox \<Rightarrow>
   (outbox_error, outbox_entry list) result" where
  "expired_pending L now listing ob =
     and_then listing (\<lambda>names. Ok (List.map_filter (expired_entry L now (batch_index L ob) ob) names))"

definition retire_one ::
  "('b, 'd, 'a) ob_lib \<Rightarrow> ('b, 'c) central_projection option \<Rightarrow> discard_faults \<Rightarrow> 'd batch_index_rec \<Rightarrow> outbox_entry \<Rightarrow>
   nat \<times> ('b, 'c) outbox \<Rightarrow> nat \<times> ('b, 'c) outbox" where
  "retire_one L P F batches selected = (\<lambda>(swept, ob).
     (let t = e_staged selected
      in case read_in_state L (st_wallet t) (st_chain t) (st_id t) Ob_Pending ob of
           Inl _ \<Rightarrow> (swept, ob)
         | Inr e \<Rightarrow>
             if possibly_signed L (files_at ob (e_dir e)) (e_staged e) batches then (swept, ob)
             else case transition_with_status L P (df_move F) (df_intent F) e Tx_Failed ob of
               (Inl _, ob1) \<Rightarrow> (swept, ob1)
             | (Inr k, ob1) \<Rightarrow>
                 (swept + 1, snd (write_artefact (df_note F) k ''expired.txt'' (enc_text L ''expired before approval'') ob1))))"

definition retire_expired ::
  "('b, 'd, 'a) ob_lib \<Rightarrow> ('b, 'c) central_projection option \<Rightarrow> string option \<Rightarrow> (outbox_entry \<times> discard_faults) list \<Rightarrow>
   ('b, 'c) outbox \<Rightarrow> (outbox_error, nat) result \<times> ('b, 'c) outbox" where
  "retire_expired L P lock_fault selected ob =
     (if selected = [] then (Ok 0, ob)
      else case lock_fault of
        Some m \<Rightarrow> (Err (Io m), ob)
      | None \<Rightarrow>
          (let batches = batch_index L ob;
               (swept, ob') = fold (\<lambda>(e, F). retire_one L P F batches e) selected (0, ob)
           in (Ok swept, ob')))"

text \<open>\<open>sweep_expired\<close>: the selection reads one state, the final check and the moves act on a later one.\<close>

definition sweep_expired ::
  "('b, 'd, 'a) ob_lib \<Rightarrow> ('b, 'c) central_projection option \<Rightarrow> string option \<Rightarrow> (outbox_entry \<Rightarrow> discard_faults) \<Rightarrow> nat \<Rightarrow>
   (outbox_error, (string \<times> string \<times> string) list) result \<Rightarrow> ('b, 'c) outbox \<Rightarrow> ('b, 'c) outbox \<Rightarrow>
   (outbox_error, nat) result \<times> ('b, 'c) outbox" where
  "sweep_expired L P lock_fault faults_of now listing seen ob =
     (case expired_pending L now listing seen of
        Inl err \<Rightarrow> (Err err, ob)
      | Inr selected \<Rightarrow> retire_expired L P lock_fault (map (\<lambda>e. (e, faults_of e)) selected) ob)"

section \<open>Failed entries that may have been signed\<close>

definition tick :: "string \<Rightarrow> string" where
  "tick s = backquote @ s @ backquote"

definition signing_unknown_record :: "('b, 'd, 'a) ob_lib \<Rightarrow> 'b files \<Rightarrow> staged_tx \<Rightarrow> signing_unknown" where
  "signing_unknown_record L f t =
     (let nonce = show_nat (st_nonce t);
          check = (case recorded_hash L f t of
              Some hash \<Rightarrow> ''Check whether it mined: '' @
                tick (''bloom vfs cat chains/'' @ st_chain t @ ''/tx/'' @ hash @ ''/receipt.json'') @
                ''. If it did not, check the nonce:''
            | None \<Rightarrow> ''No transaction hash is recorded. Check the nonce:'')
      in \<lparr>su_schema = ''bloom.outbox-signing-unknown/1'', su_tx_id = st_id t, su_chain = st_chain t,
          su_from = st_from t, su_nonce = st_nonce t, su_tx_hash = recorded_hash L f t,
          su_next = ''Signing outcome unknown. An older Bloom moved this entry to failed/ although it may have been signed, so it can still land. Do not stage this payment again or reuse nonce '' @ nonce @
            '' until you know its outcome. '' @ check @ '' '' @
            tick (''bloom vfs cat chains/'' @ st_chain t @ ''/addresses/'' @ st_from t @ ''/nonce'') @
            ''. A value above '' @ nonce @ '' means nonce '' @ nonce @
            '' is used, possibly by this transaction. Otherwise a signed copy may still land: ask the owner before retrying, because a retry can pay twice.''\<rparr>)"

definition mark_one ::
  "('b, 'd, 'a) ob_lib \<Rightarrow> 'd batch_index_rec \<Rightarrow> (place \<Rightarrow> fault) \<Rightarrow> string \<times> string \<times> string \<Rightarrow>
   outbox_entry list \<times> ('b, 'c) outbox \<Rightarrow> outbox_entry list \<times> ('b, 'c) outbox" where
  "mark_one L batches fault_of = (\<lambda>(w, c, i) (marked, ob).
     (let k = (w, c, Ob_Failed, i); f = files_at ob k
      in if may_exist (f SIGNING_UNKNOWN_FILE) then (marked, ob)
         else case read_intent L (f INTENT) of
           Inl _ \<Rightarrow> (marked, ob)
         | Inr t \<Rightarrow>
             if \<not> possibly_signed L f t batches \<and> \<not> cancel_attempted L f then (marked, ob)
             else case write_artefact (fault_of k) k SIGNING_UNKNOWN_FILE (enc_unknown L (signing_unknown_record L f t)) ob of
               (Inl _, ob1) \<Rightarrow> (marked, ob1)
             | (Inr _, ob1) \<Rightarrow> (marked @ [\<lparr>e_state = Ob_Failed, e_staged = t, e_dir = k\<rparr>], ob1)))"

definition mark_possibly_signed_failed ::
  "('b, 'd, 'a) ob_lib \<Rightarrow> (place \<Rightarrow> fault) \<Rightarrow> (outbox_error, (string \<times> string \<times> string) list) result \<Rightarrow> ('b, 'c) outbox \<Rightarrow>
   (outbox_error, outbox_entry list) result \<times> ('b, 'c) outbox" where
  "mark_possibly_signed_failed L fault_of listing ob =
     (case listing of
        Inl err \<Rightarrow> (Err err, ob)
      | Inr names \<Rightarrow>
          (let (marked, ob') = fold (mark_one L ((batch_index L ob)\<lparr>bi_unreadable := False\<rparr>) fault_of) names ([], ob)
           in (Ok marked, ob')))"

section \<open>Dependencies, attempts and nonces\<close>

definition set_pending_depends_on ::
  "('b, 'd, 'a) ob_lib \<Rightarrow> fault \<Rightarrow> string \<Rightarrow> string \<Rightarrow> string \<Rightarrow> string \<Rightarrow> ('b, 'c) outbox \<Rightarrow>
   (outbox_error, unit) result \<times> ('b, 'c) outbox" where
  "set_pending_depends_on L fault w c i dep ob =
     (case read_in_state L w c i Ob_Pending ob of
        Inl err \<Rightarrow> (Err err, ob)
      | Inr e \<Rightarrow> write_artefact fault (e_dir e) INTENT (enc_intent L ((e_staged e)\<lparr>st_depends_on := Some dep\<rparr>)) ob)"

definition write_broadcast_attempt ::
  "('b, 'd, 'a) ob_lib \<Rightarrow> fault \<Rightarrow> outbox_entry \<Rightarrow> attempt_kind \<Rightarrow> broadcast_attempt \<Rightarrow> ('b, 'c) outbox \<Rightarrow>
   (outbox_error, unit) result \<times> ('b, 'c) outbox" where
  "write_broadcast_attempt L fault e kind a ob = write_artefact fault (e_dir e) (marker_name kind) (enc_attempt L a) ob"

definition write_broadcast_raw_tx ::
  "fault \<Rightarrow> outbox_entry \<Rightarrow> attempt_kind \<Rightarrow> 'b \<Rightarrow> ('b, 'c) outbox \<Rightarrow> (outbox_error, unit) result \<times> ('b, 'c) outbox" where
  "write_broadcast_raw_tx fault e kind raw ob = write_artefact fault (e_dir e) (raw_name kind) raw ob"

definition read_json :: "('b \<Rightarrow> (string, 'v) result) \<Rightarrow> 'b node \<Rightarrow> (outbox_error, 'v option) result" where
  "read_json dec n =
     (if \<not> path_exists n then Ok None
      else and_then (map_err (\<lambda>e. Io (fs_text e)) (fs_read n)) (\<lambda>b.
        and_then (map_err Serde (dec b)) (\<lambda>v. Ok (Some v))))"

definition read_broadcast_attempt ::
  "('b, 'd, 'a) ob_lib \<Rightarrow> 'b files \<Rightarrow> attempt_kind \<Rightarrow> (outbox_error, broadcast_attempt option) result" where
  "read_broadcast_attempt L f kind = read_json (dec_attempt L) (f (marker_name kind))"

fun any_attempt :: "('b, 'd, 'a) ob_lib \<Rightarrow> 'b files \<Rightarrow> attempt_kind list \<Rightarrow> (outbox_error, bool) result" where
  "any_attempt L f [] = Ok False"
| "any_attempt L f (kind # kinds) =
     and_then (read_broadcast_attempt L f kind) (\<lambda>a. if a \<noteq> None then Ok True else any_attempt L f kinds)"

definition has_broadcast_attempt :: "('b, 'd, 'a) ob_lib \<Rightarrow> 'b files \<Rightarrow> (outbox_error, bool) result" where
  "has_broadcast_attempt L f = any_attempt L f ALL_KINDS"

definition read_broadcast_raw_tx ::
  "('b, 'd, 'a) ob_lib \<Rightarrow> 'b files \<Rightarrow> string \<Rightarrow> attempt_kind \<Rightarrow> broadcast_attempt \<Rightarrow> (outbox_error, 'b) result" where
  "read_broadcast_raw_tx L f i kind a =
     (if ba_raw_tx_path a \<noteq> raw_name kind then
        Err (InvalidId (''broadcast raw path '' @ [CHR 0x27] @ ba_raw_tx_path a @ [CHR 0x27] @
          '' did not match expected '' @ [CHR 0x27] @ raw_name kind @ [CHR 0x27]))
      else and_then (map_err (\<lambda>e. Io (fs_text e)) (fs_read (f (raw_name kind)))) (\<lambda>raw.
        if bytes_b3 L raw \<noteq> ba_raw_tx_blake3 a
        then Err (InvalidId (''broadcast raw tx hash mismatch for '' @ i)) else Ok raw))"

definition remove_broadcast_raw_tx ::
  "string option \<Rightarrow> place \<Rightarrow> attempt_kind \<Rightarrow> ('b, 'c) outbox \<Rightarrow> (outbox_error, unit) result \<times> ('b, 'c) outbox" where
  "remove_broadcast_raw_tx fault k kind ob =
     (if files_at ob k (raw_name kind) = Absent then (Ok (), ob)
      else case fault of
        Some m \<Rightarrow> (Err (Io m), ob)
      | None \<Rightarrow> (Ok (), put_file k (raw_name kind) Absent ob))"

definition rename_file ::
  "string option \<Rightarrow> place \<Rightarrow> string \<Rightarrow> string \<Rightarrow> ('b, 'c) outbox \<Rightarrow> (outbox_error, unit) result \<times> ('b, 'c) outbox" where
  "rename_file fault k old_name new_name ob =
     (let n = files_at ob k old_name
      in if n = Absent then (Ok (), ob)
         else case fault of
           Some m \<Rightarrow> (Err (Io m), ob)
         | None \<Rightarrow> (Ok (), put_file k old_name Absent (put_file k new_name n ob)))"

definition set_aside_rejected_attempt ::
  "('b, 'd, 'a) ob_lib \<Rightarrow> string option \<times> string option \<times> string option \<Rightarrow> outbox_entry \<Rightarrow> attempt_kind \<Rightarrow> string \<Rightarrow>
   ('b, 'c) outbox \<Rightarrow> (outbox_error, unit) result \<times> ('b, 'c) outbox" where
  "set_aside_rejected_attempt L faults e kind signing_record ob =
     (let (f1, f2, f3) = faults; k = e_dir e
      in case read_broadcast_attempt L (files_at ob k) kind of
           Inl err \<Rightarrow> (Err err, ob)
         | Inr None \<Rightarrow> (Ok (), ob)
         | Inr (Some a) \<Rightarrow>
             (let suffix = ''rejected-'' @ ba_tx_hash a
              in then_st (rename_file f1 k signing_record (''.'' @ signing_record @ ''.'' @ suffix) ob) (\<lambda>_ ob1.
                 then_st (rename_file f2 k (marker_name kind) (marker_name kind @ ''.'' @ suffix) ob1) (\<lambda>_ ob2.
                 remove_broadcast_raw_tx f3 k kind ob2))))"

text \<open>Attempts of other entries at one nonce.\<close>

record nonce_query =
  nq_wallet :: string
  nq_chain :: string
  nq_from :: string
  nq_chain_id :: nat
  nq_nonce :: nat
  nq_excluding_id :: string
  nq_excluding_kind :: attempt_kind

definition dirs_in :: "string \<Rightarrow> string \<Rightarrow> outbox_state \<Rightarrow> ('b, 'c) outbox \<Rightarrow> (string \<times> 'b files) list" where
  "dirs_in w c st ob = [(i, f). ((w', c', st', i), f) \<leftarrow> ob_dirs ob, w' = w \<and> c' = c \<and> st' = st]"

definition attempt_matches :: "nonce_query \<Rightarrow> broadcast_attempt \<Rightarrow> bool" where
  "attempt_matches q a \<longleftrightarrow>
     ba_chain_id a = nq_chain_id q \<and> ba_nonce a = nq_nonce q \<and> eq_ignore_ascii_case (ba_from a) (nq_from q)"

fun attempts_in ::
  "('b, 'd, 'a) ob_lib \<Rightarrow> nonce_query \<Rightarrow> (string \<times> outbox_state \<times> attempt_kind \<times> 'b files) list \<Rightarrow>
   (outbox_error, (string \<times> outbox_state \<times> attempt_kind \<times> broadcast_attempt) list) result" where
  "attempts_in L q [] = Ok []"
| "attempts_in L q ((i, st, kind, f) # rest) =
     (if i = nq_excluding_id q \<and> kind = nq_excluding_kind q then attempts_in L q rest
      else and_then (read_broadcast_attempt L f kind) (\<lambda>a.
        and_then (attempts_in L q rest) (\<lambda>out.
          case a of
            None \<Rightarrow> Ok out
          | Some a \<Rightarrow> Ok (if attempt_matches q a then (i, st, kind, a) # out else out))))"

definition broadcast_attempts_for_nonce ::
  "('b, 'd, 'a) ob_lib \<Rightarrow> nonce_query \<Rightarrow> ('b, 'c) outbox \<Rightarrow>
   (outbox_error, (string \<times> outbox_state \<times> attempt_kind \<times> broadcast_attempt) list) result" where
  "broadcast_attempts_for_nonce L q ob =
     and_then (wallet_chain_dir (nq_wallet q) (nq_chain q)) (\<lambda>_.
       attempts_in L q [(i, st, kind, f). st \<leftarrow> ALL_STATES,
          (i, f) \<leftarrow> dirs_in (nq_wallet q) (nq_chain q) st ob, kind \<leftarrow> ALL_KINDS])"

text \<open>The next nonce of an account: after the highest pending one, but not below the chain's.\<close>

fun max_nonce ::
  "('b, 'd, 'a) ob_lib \<Rightarrow> 'a \<Rightarrow> 'b files list \<Rightarrow> nat option \<Rightarrow> (outbox_error, nat option) result" where
  "max_nonce L addr [] acc = Ok acc"
| "max_nonce L addr (f # fs) acc =
     (if \<not> path_exists (f INTENT) then max_nonce L addr fs acc
      else and_then (read_intent L (f INTENT)) (\<lambda>t.
        max_nonce L addr fs
          (if parse_addr L (st_from t) = Some addr
           then Some (case acc of None \<Rightarrow> st_nonce t | Some m \<Rightarrow> max m (st_nonce t)) else acc)))"

definition highest_pending_nonce ::
  "('b, 'd, 'a) ob_lib \<Rightarrow> string \<Rightarrow> string \<Rightarrow> 'a \<Rightarrow> ('b, 'c) outbox \<Rightarrow> (outbox_error, nat option) result" where
  "highest_pending_nonce L w c addr ob =
     and_then (state_dir w c Ob_Pending) (\<lambda>_. max_nonce L addr (map snd (dirs_in w c Ob_Pending ob)) None)"

definition next_nonce ::
  "('b, 'd, 'a) ob_lib \<Rightarrow> string \<Rightarrow> string \<Rightarrow> 'a \<Rightarrow> 64 word \<Rightarrow> ('b, 'c) outbox \<Rightarrow> (outbox_error, 64 word) result" where
  "next_nonce L w c addr chain_nonce ob =
     and_then (highest_pending_nonce L w c addr ob) (\<lambda>high.
       Ok (case high of None \<Rightarrow> chain_nonce | Some h \<Rightarrow> max chain_nonce (word_of_nat h + 1)))"

section \<open>The engine's use of the outbox\<close>

text \<open>
  \<open>lock_signing_dispatch\<close>, and the durable dispatch marker that is written while its lock is held.
\<close>

fun check_dispatch ::
  "('b, 'd, 'a) ob_lib \<Rightarrow> nat \<Rightarrow> string \<Rightarrow> staged_tx list \<Rightarrow> ('b, 'c) outbox \<Rightarrow> (tx_engine_error, unit) result" where
  "check_dispatch L now w [] ob = Ok ()"
| "check_dispatch L now w (t # ts) ob =
     (let retired = Err (ApprovalState (''transaction '' @ [CHR 0x27] @ st_id t @ [CHR 0x27] @
            '' was expired, discarded, or restaged before signing; nothing was signed''))
      in case outbox_read L w (st_chain t) (st_id t) ob of
           Inl (Ob_NotFound _) \<Rightarrow> retired
         | Inl err \<Rightarrow> Err (Tx_Outbox err)
         | Inr e \<Rightarrow>
             if e_state e = Ob_Failed \<or> \<not> same_json L (e_staged e) t then retired
             else if e_state e = Ob_Pending \<and> expired now (e_staged e)
             then Err (Tx_Outbox (StagedExpired (st_id (e_staged e)) (st_expires_ms (e_staged e)) now))
             else check_dispatch L now w ts ob)"

definition lock_signing_dispatch ::
  "('b, 'd, 'a) ob_lib \<Rightarrow> string option \<Rightarrow> nat \<Rightarrow> string \<Rightarrow> staged_tx list \<Rightarrow> ('b, 'c) outbox \<Rightarrow>
   (tx_engine_error, unit) result" where
  "lock_signing_dispatch L lock_fault now w ts ob =
     (case lock_fault of Some m \<Rightarrow> Err (Tx_Outbox (Io m)) | None \<Rightarrow> check_dispatch L now w ts ob)"

definition dispatch_signing ::
  "('b, 'd, 'a) ob_lib \<Rightarrow> string option \<Rightarrow> fault \<Rightarrow> nat \<Rightarrow> outbox_entry \<Rightarrow> string \<Rightarrow> ('b, 'c) outbox \<Rightarrow>
   (tx_engine_error, unit) result \<times> ('b, 'c) outbox" where
  "dispatch_signing L lock_fault fault now e action ob =
     (case lock_signing_dispatch L lock_fault now (st_wallet (e_staged e)) [e_staged e] ob of
        Inl err \<Rightarrow> (Err err, ob)
      | Inr _ \<Rightarrow>
          (case write_artefact fault (e_dir e) SIGNING_STATE_FILE
              (enc_signing L \<lparr>sg_dispatched = True, sg_action_id = action\<rparr>) ob of
             (Inl err, ob1) \<Rightarrow> (Err (Tx_Outbox err), ob1)
           | (Inr _, ob1) \<Rightarrow> (Ok (), ob1)))"

definition read_receipt ::
  "('b, 'd, 'a) ob_lib \<Rightarrow> string \<Rightarrow> string \<Rightarrow> string \<Rightarrow> ('b, 'c) outbox \<Rightarrow>
   (outbox_error, mined_receipt option) result" where
  "read_receipt L w c i ob =
     (case outbox_read L w c i ob of
        Inl (Ob_NotFound _) \<Rightarrow> Ok None
      | Inl err \<Rightarrow> Err err
      | Inr e \<Rightarrow> read_json (dec_receipt L) (files_at ob (e_dir e) RECEIPT_FILE))"

definition ensure_dependency_satisfied ::
  "('b, 'd, 'a) ob_lib \<Rightarrow> string \<Rightarrow> string \<Rightarrow> string \<Rightarrow> ('b, 'c) outbox \<Rightarrow> (tx_engine_error, unit) result" where
  "ensure_dependency_satisfied L w c dep ob =
     (let reject = (\<lambda>reason. Err (DependencyNotSatisfied dep reason))
      in case outbox_read L w c dep ob of
           Inl (Ob_NotFound _) \<Rightarrow> reject ''predecessor not found in the outbox''
         | Inl err \<Rightarrow> Err (Tx_Outbox err)
         | Inr e \<Rightarrow>
             (case e_state e of
                Ob_Failed \<Rightarrow> reject ''predecessor failed or was cancelled''
              | Ob_Pending \<Rightarrow> reject ''predecessor is still pending (not broadcast)''
              | Ob_Sent \<Rightarrow>
                  (case read_receipt L w c dep ob of
                     Inl err \<Rightarrow> Err (Tx_Outbox err)
                   | Inr None \<Rightarrow> reject ''predecessor broadcast but not yet confirmed''
                   | Inr (Some r) \<Rightarrow>
                       if receipt_is_success r then Ok ()
                       else reject (''predecessor reverted'' @
                         (case mr_revert_reason r of Some m \<Rightarrow> '': '' @ m | None \<Rightarrow> [])))))"

section \<open>Directories\<close>

named_theorems dir_simps

lemma has_dir_iff: "has_dir ob k \<longleftrightarrow> (\<exists>f. map_of (ob_dirs ob) k = Some f)"
  by (auto simp: has_dir_def)

lemma files_at_Some [simp]: "map_of (ob_dirs ob) k = Some f \<Longrightarrow> files_at ob k = f"
  by (simp add: files_at_def)

lemma files_at_None [simp]: "map_of (ob_dirs ob) k = None \<Longrightarrow> files_at ob k = (\<lambda>_. Absent)"
  by (simp add: files_at_def)

lemma map_put_file [dir_simps]:
  "map_of (ob_dirs (put_file k n x ob)) = (map_of (ob_dirs ob))(k \<mapsto> (files_at ob k)(n := x))"
  by (simp add: put_file_def update_conv')

lemma map_ensure_dir [dir_simps]:
  "map_of (ob_dirs (ensure_dir k ob)) = (map_of (ob_dirs ob))(k \<mapsto> files_at ob k)"
  by (auto simp: ensure_dir_def has_dir_def update_conv' files_at_def fun_eq_iff)

lemma map_to_archive [dir_simps]: "map_of (ob_dirs (to_archive k ob)) = (map_of (ob_dirs ob))(k := None)"
  by (cases k) (simp add: delete_conv')

lemma map_from_archive [dir_simps]:
  "map_of (ob_dirs (from_archive k ob)) = (map_of (ob_dirs ob))(k \<mapsto> snd (last (ob_archive ob)))"
  by (simp add: from_archive_def update_conv')

lemma archive_simps [simp]:
  "ob_archive (put_file k n x ob) = ob_archive ob" "ob_archive (ensure_dir k ob) = ob_archive ob"
  "ob_archive (from_archive k ob) = butlast (ob_archive ob)"
  by (simp_all add: put_file_def ensure_dir_def from_archive_def)

lemma batches_simps [simp]:
  "ob_batches (put_file k n x ob) = ob_batches ob" "ob_batches (ensure_dir k ob) = ob_batches ob"
  "ob_batches (from_archive k ob) = ob_batches ob" "ob_batches (to_archive k ob) = ob_batches ob"
  by (cases k; simp add: put_file_def ensure_dir_def from_archive_def)+

text \<open>The place, without its state, under which a record is archived.\<close>

fun slot :: "place \<Rightarrow> string \<times> string \<times> string" where
  "slot (w, c, st, i) = (w, c, i)"

fun state_of :: "place \<Rightarrow> outbox_state" where
  "state_of (w, c, st, i) = st"

lemma archive_to_archive [simp]: "ob_archive (to_archive k ob) = ob_archive ob @ [(slot k, files_at ob k)]"
  by (cases k) simp

lemma from_to_archive: "map_of (ob_dirs (from_archive k (to_archive k ob))) = (map_of (ob_dirs ob))(k \<mapsto> files_at ob k)"
  by (simp add: dir_simps)

section \<open>What a move can do\<close>

type_synonym 'b view = "(place \<rightharpoonup> 'b files) \<times> ((string \<times> string \<times> string) \<times> 'b files) list"

definition view :: "('b, 'c) outbox \<Rightarrow> 'b view" where
  "view ob = (map_of (ob_dirs ob), ob_archive ob)"

definition same_but_raw :: "'b files \<Rightarrow> 'b files \<Rightarrow> bool" where
  "same_but_raw f g \<longleftrightarrow> (\<forall>n. (\<forall>kind. n \<noteq> raw_name kind) \<longrightarrow> g n = f n)"

definition previous_at :: "(place \<rightharpoonup> 'b files) \<Rightarrow> place \<Rightarrow> ((string \<times> string \<times> string) \<times> 'b files) list" where
  "previous_at d k = (case d k of None \<Rightarrow> [] | Some p \<Rightarrow> [(slot k, p)])"

text \<open>
  Whatever fails, a move leaves everything in place, or has only set the record at the target aside,
  or has moved the entry.
\<close>

inductive move_outcome :: "place \<Rightarrow> place \<Rightarrow> 'b view \<Rightarrow> 'b view \<Rightarrow> bool" for src k where
  kept: "move_outcome src k v v"
| aside: "d k = Some p \<Longrightarrow> move_outcome src k (d, a) (d(k := None), a @ [(slot k, p)])"
| moved: "d src = Some f \<Longrightarrow> same_but_raw f g \<Longrightarrow>
    move_outcome src k (d, a) (d(src := None, k \<mapsto> g), a @ previous_at d k)"

text \<open>No step that undoes or makes durable a move fails.\<close>

definition recovers :: "move_faults \<Rightarrow> bool" where
  "recovers F \<longleftrightarrow> tf_backup_sync F = None \<and> tf_restore F = None \<and> tf_sync F = None \<and>
     tf_rollback F = None \<and> tf_rollback_sync F = None \<and> tf_reinstate F = None"

lemma same_but_raw_refl [simp]: "same_but_raw f f"
  by (simp add: same_but_raw_def)

lemma set_aside_Ok:
  assumes "set_aside F k ob = (Ok b, ob1)"
  shows "b = has_dir ob k \<and> ob_batches ob1 = ob_batches ob \<and>
    view ob1 = ((map_of (ob_dirs ob))(k := None), ob_archive ob @ previous_at (map_of (ob_dirs ob)) k)"
  using assms
  by (auto simp: set_aside_def view_def previous_at_def has_dir_def dir_simps split: if_splits option.splits)

lemma set_aside_Err:
  assumes "set_aside F k ob = (Err m, ob1)"
  shows "move_outcome src k (view ob) (view ob1) \<and> ob_batches ob1 = ob_batches ob \<and> (recovers F \<longrightarrow> view ob1 = view ob)"
  using assms
  by (auto simp: set_aside_def view_def has_dir_def dir_simps recovers_def split: if_splits option.splits
      intro: move_outcome.intros)

lemma move_dir_Ok:
  assumes "move_dir fault a b ob = (Ok u, ob1)"
  obtains f where "map_of (ob_dirs ob) a = Some f" "ob_batches ob1 = ob_batches ob" "ob_central ob1 = ob_central ob"
    "view ob1 = ((map_of (ob_dirs ob))(a := None, b \<mapsto> f), ob_archive ob)"
  using assms by (auto simp: move_dir_def view_def update_conv' delete_conv' split: option.splits)

lemma move_dir_Err: "move_dir fault a b ob = (Err m, ob1) \<Longrightarrow> ob1 = ob"
  by (auto simp: move_dir_def split: option.splits)

text \<open>A state reached from \<open>ob\<close> after the record at \<open>k\<close>, if any, was set aside.\<close>

definition target_clear :: "place \<Rightarrow> ('b, 'c) outbox \<Rightarrow> ('b, 'c) outbox \<Rightarrow> bool" where
  "target_clear k ob ob1 \<longleftrightarrow> ob_batches ob1 = ob_batches ob \<and>
     view ob1 = ((map_of (ob_dirs ob))(k := None), ob_archive ob @ previous_at (map_of (ob_dirs ob)) k)"

lemma target_clear_same: "target_clear k ob ob1 \<Longrightarrow> \<not> has_dir ob k \<Longrightarrow> view ob1 = view ob"
  by (auto simp: target_clear_def has_dir_def previous_at_def view_def fun_eq_iff)

lemma target_clear_restored: "target_clear k ob ob1 \<Longrightarrow> has_dir ob k \<Longrightarrow> view (from_archive k ob1) = view ob"
  by (auto simp: target_clear_def has_dir_def previous_at_def view_def dir_simps)

lemma target_clear_outcome: "target_clear k ob ob1 \<Longrightarrow> move_outcome src k (view ob) (view ob1)"
proof (cases "map_of (ob_dirs ob) k")
  case None
  then show "target_clear k ob ob1 \<Longrightarrow> ?thesis"
    using target_clear_same[of k ob ob1] by (auto simp: has_dir_def intro: move_outcome.kept)
next
  case (Some p)
  then show "target_clear k ob ob1 \<Longrightarrow> ?thesis"
    using move_outcome.aside[of "map_of (ob_dirs ob)" k p src "ob_archive ob"]
    by (auto simp: target_clear_def previous_at_def view_def)
qed

lemma rename_failed_outcome:
  assumes "target_clear k ob ob1" "rename_failed F k (has_dir ob k) m ob1 = (r, ob')"
  shows "move_outcome src k (view ob) (view ob') \<and> ob_batches ob' = ob_batches ob \<and> \<not> is_ok r \<and>
    (recovers F \<longrightarrow> view ob' = view ob)"
proof -
  have "ob' = ob1 \<and> (recovers F \<longrightarrow> \<not> has_dir ob k) \<or> has_dir ob k \<and> ob' = from_archive k ob1" "\<not> is_ok r"
    using assms(2) by (auto simp: rename_failed_def Let_def recovers_def split: if_splits option.splits)
  then show ?thesis
    using assms(1) target_clear_outcome[OF assms(1), of src] target_clear_restored[OF assms(1)] target_clear_same[OF assms(1)]
    by (auto simp: target_clear_def intro: move_outcome.kept)
qed

lemma moved_back: "d a = Some f \<Longrightarrow> a \<noteq> b \<Longrightarrow> (d(a := None, b \<mapsto> f))(b := None, a \<mapsto> f) = d(b := None)"
  by (rule ext) auto

lemma moved_over: "(d(b := None))(a := None, b \<mapsto> f) = d(a := None, b \<mapsto> f)"
  by (rule ext) auto

lemma roll_back_outcome:
  fixes ob ob2 :: "('b, 'c) outbox"
  assumes "map_of (ob_dirs ob) src = Some f" "src \<noteq> k" "ob_batches ob2 = ob_batches ob"
    and "view ob2 = ((map_of (ob_dirs ob))(src := None, k \<mapsto> f), ob_archive ob @ previous_at (map_of (ob_dirs ob)) k)"
    and "roll_back F src k (has_dir ob k) ob2 = (detail, ob')"
  shows "move_outcome src k (view ob) (view ob') \<and> ob_batches ob' = ob_batches ob \<and> (recovers F \<longrightarrow> view ob' = view ob)"
proof (cases "move_dir (tf_rollback F) k src ob2")
  case (Pair r ob3)
  show ?thesis
  proof (cases r)
    case (Inl e)
    then have "ob' = ob2" using assms(5) Pair move_dir_Err[of _ _ _ ob2 e ob3] by (simp add: roll_back_def Let_def)
    moreover have "\<not> recovers F"
      using Pair Inl assms(4) by (auto simp: recovers_def move_dir_def view_def)
    ultimately show ?thesis
      using move_outcome.moved[of "map_of (ob_dirs ob)" src f f k "ob_archive ob"] assms(1,3,4) by (simp add: view_def)
  next
    case (Inr u)
    from move_dir_Ok[OF Pair[unfolded Inr]] obtain h where "map_of (ob_dirs ob2) k = Some h"
      "ob_batches ob3 = ob_batches ob2" "view ob3 = ((map_of (ob_dirs ob2))(k := None, src \<mapsto> h), ob_archive ob2)" by blast
    then have c: "target_clear k ob ob3"
      using assms(1-4) moved_back[of "map_of (ob_dirs ob)" src f k] by (auto simp: target_clear_def view_def)
    have "ob' = ob3 \<and> (recovers F \<longrightarrow> \<not> has_dir ob k) \<or> has_dir ob k \<and> ob' = from_archive k ob3"
      using assms(5) Pair Inr by (auto simp: roll_back_def Let_def recovers_def split: if_splits option.splits)
    then show ?thesis
      using target_clear_outcome[OF c, of src] target_clear_restored[OF c] target_clear_same[OF c] c
      by (auto simp: target_clear_def intro: move_outcome.kept)
  qed
qed

lemma drop_raw_view:
  assumes "map_of (ob_dirs ob) k = Some f"
  shows "\<exists>g. same_but_raw f g \<and> view (drop_raw F k new ob) = ((map_of (ob_dirs ob))(k \<mapsto> g), ob_archive ob)"
    and "ob_batches (drop_raw F k new ob) = ob_batches ob"
proof -
  have "\<exists>g. same_but_raw f g \<and> view (fold (\<lambda>kind ob. if tf_unlink F kind then ob else put_file k (raw_name kind) Absent ob) kinds ob) =
      ((map_of (ob_dirs ob))(k \<mapsto> g), ob_archive ob)" for kinds
    using assms
  proof (induction kinds arbitrary: ob f)
    case Nil
    then show ?case by (intro exI[of _ f]) (auto simp: view_def)
  next
    case (Cons kind kinds)
    let ?ob = "if tf_unlink F kind then ob else put_file k (raw_name kind) Absent ob"
    have f: "map_of (ob_dirs ?ob) k = Some (if tf_unlink F kind then f else f(raw_name kind := Absent))"
      using Cons.prems by (simp add: dir_simps)
    from Cons.IH[OF f] obtain g where g: "same_but_raw (if tf_unlink F kind then f else f(raw_name kind := Absent)) g"
      "view (fold (\<lambda>kind ob. if tf_unlink F kind then ob else put_file k (raw_name kind) Absent ob) kinds ?ob) =
       ((map_of (ob_dirs ?ob))(k \<mapsto> g), ob_archive ?ob)" by blast
    then have "same_but_raw f g" by (auto simp: same_but_raw_def split: if_splits)
    with g(2) show ?case by (intro exI[of _ g]) (auto simp: dir_simps)
  qed
  moreover have "ob_batches (fold (\<lambda>kind ob. if tf_unlink F kind then ob else put_file k (raw_name kind) Absent ob) kinds ob) = ob_batches ob" for kinds
    by (induction kinds arbitrary: ob) auto
  moreover have "same_but_raw f f \<and> view ob = ((map_of (ob_dirs ob))(k \<mapsto> f), ob_archive ob)"
    using assms by (simp add: view_def map_upd_triv)
  ultimately show "\<exists>g. same_but_raw f g \<and> view (drop_raw F k new ob) = ((map_of (ob_dirs ob))(k \<mapsto> g), ob_archive ob)"
    and "ob_batches (drop_raw F k new ob) = ob_batches ob"
    by (auto simp: drop_raw_def intro: exI[of _ f])
qed

lemma project_transition_view:
  "project_transition P e new ob = (r, ob') \<Longrightarrow> view ob' = view ob \<and> ob_batches ob' = ob_batches ob"
  by (auto simp: project_transition_def view_def split: option.splits prod.splits sum.splits)

definition target :: "outbox_entry \<Rightarrow> outbox_state \<Rightarrow> place" where
  "target e new = (st_wallet (e_staged e), st_chain (e_staged e), new, st_id (e_staged e))"

lemma finish_move_cases:
  fixes ob ob2 ob' :: "('b, 'c) outbox"
  assumes "finish_move P F e new k (has_dir ob k) ob2 = (r, ob')" "e_dir e \<noteq> k"
    and "map_of (ob_dirs ob) (e_dir e) = Some f" "ob_batches ob2 = ob_batches ob"
    and "view ob2 = ((map_of (ob_dirs ob))(e_dir e := None, k \<mapsto> f), ob_archive ob @ previous_at (map_of (ob_dirs ob)) k)"
  obtains (failed) "\<not> is_ok r" "move_outcome (e_dir e) k (view ob) (view ob')" "ob_batches ob' = ob_batches ob"
      "recovers F \<longrightarrow> view ob' = view ob"
  | (succeeded) g where "r = Ok k" "same_but_raw f g" "ob_batches ob' = ob_batches ob"
      "view ob' = ((map_of (ob_dirs ob))(e_dir e := None, k \<mapsto> g), ob_archive ob @ previous_at (map_of (ob_dirs ob)) k)"
proof (cases "tf_sync F")
  case (Some m)
  then show thesis
    using assms(1,3-5) failed move_outcome.moved[of "map_of (ob_dirs ob)" "e_dir e" f f k "ob_archive ob"]
    by (auto simp: finish_move_def view_def recovers_def)
next
  case None
  obtain p ob1 where p: "project_transition P e new ob2 = (p, ob1)" by fastforce
  note v = project_transition_view[OF p]
  show thesis
  proof (cases p)
    case (Inl am)
    obtain detail ob3 where "roll_back F (e_dir e) k (has_dir ob k) ob1 = (detail, ob3)" by fastforce
    then show thesis
      using roll_back_outcome[of ob "e_dir e" f k ob1 F detail ob3] assms v failed
      by (cases am) (auto simp: finish_move_def None p Inl)
  next
    case (Inr u)
    have "map_of (ob_dirs ob1) k = Some f" using v assms(5) by (simp add: view_def)
    from drop_raw_view[OF this, of F new] obtain g where "same_but_raw f g"
      "view (drop_raw F k new ob1) = ((map_of (ob_dirs ob1))(k \<mapsto> g), ob_archive ob1)"
      "ob_batches (drop_raw F k new ob1) = ob_batches ob1" by blast
    then show thesis
      using assms(1,4,5) v by (intro succeeded[of g]) (auto simp: finish_move_def None p Inr view_def)
  qed
qed

text \<open>The outcomes of a transition: refused or failed, or moved with the target as its result.\<close>

lemma move_entry_cases:
  fixes ob ob' :: "('b, 'c) outbox"
  assumes "move_entry P F e new k ob = (r, ob')" "e_dir e \<noteq> k"
  obtains (failed) "\<not> is_ok r" "move_outcome (e_dir e) k (view ob) (view ob')" "ob_batches ob' = ob_batches ob"
      "recovers F \<longrightarrow> view ob' = view ob"
  | (succeeded) f g where "map_of (ob_dirs ob) (e_dir e) = Some f" "r = Ok k" "same_but_raw f g"
      "ob_batches ob' = ob_batches ob"
      "view ob' = ((map_of (ob_dirs ob))(e_dir e := None, k \<mapsto> g), ob_archive ob @ previous_at (map_of (ob_dirs ob)) k)"
proof -
  obtain sa ob1 where sa: "set_aside F k ob = (sa, ob1)" by fastforce
  show thesis
  proof (cases sa)
    case (Inl err)
    then show thesis using set_aside_Err[of F k ob err ob1 "e_dir e"] sa assms(1) failed
      by (auto simp: move_entry_def then_st_def)
  next
    case (Inr previous)
    have c: "previous = has_dir ob k" "target_clear k ob ob1"
      using set_aside_Ok[of F k ob previous ob1] sa Inr by (auto simp: target_clear_def)
    obtain mv ob2 where mv: "move_dir (tf_rename F) (e_dir e) k ob1 = (mv, ob2)" by fastforce
    show thesis
    proof (cases mv)
      case (Inl m)
      then show thesis
        using rename_failed_outcome[OF c(2), of F m r ob' "e_dir e"] move_dir_Err[OF mv[unfolded Inl]] mv sa Inr assms(1) c(1) failed
        by (auto simp: move_entry_def then_st_def)
    next
      case (Inr u)
      from move_dir_Ok[OF mv[unfolded Inr]] obtain f where f: "map_of (ob_dirs ob1) (e_dir e) = Some f"
        "ob_batches ob2 = ob_batches ob1" "view ob2 = ((map_of (ob_dirs ob1))(e_dir e := None, k \<mapsto> f), ob_archive ob1)" by blast
      have g: "map_of (ob_dirs ob) (e_dir e) = Some f" "ob_batches ob2 = ob_batches ob"
          "view ob2 = ((map_of (ob_dirs ob))(e_dir e := None, k \<mapsto> f), ob_archive ob @ previous_at (map_of (ob_dirs ob)) k)"
        using f c(2) assms(2) by (auto simp: target_clear_def view_def moved_over)
      have fm: "finish_move P F e new k (has_dir ob k) ob2 = (r, ob')"
        using assms(1) sa \<open>sa = Inr previous\<close> mv Inr c(1) by (simp add: move_entry_def then_st_def)
      show thesis
        by (rule finish_move_cases[OF fm assms(2) g]) (use failed succeeded g(1) in blast)+
    qed
  qed
qed

lemma transition_cases:
  fixes ob ob' :: "('b, 'c) outbox"
  assumes "outbox_transition P F e new ob = (r, ob')" "e_dir e \<noteq> target e new"
  obtains (already) "e_state e = new" "r = Ok (e_dir e)" "ob' = ob"
  | (failed) "e_state e \<noteq> new" "\<not> is_ok r" "move_outcome (e_dir e) (target e new) (view ob) (view ob')"
      "ob_batches ob' = ob_batches ob" "recovers F \<longrightarrow> view ob' = view ob"
  | (succeeded) f g where "e_state e \<noteq> new" "map_of (ob_dirs ob) (e_dir e) = Some f" "r = Ok (target e new)" "same_but_raw f g"
      "ob_batches ob' = ob_batches ob"
      "view ob' = ((map_of (ob_dirs ob))(e_dir e := None, target e new \<mapsto> g),
                   ob_archive ob @ previous_at (map_of (ob_dirs ob)) (target e new))"
proof (cases "e_state e \<noteq> new \<and> is_ok (state_dir (st_wallet (e_staged e)) (st_chain (e_staged e)) new) \<and> tf_parent F = None")
  case True
  then have "move_entry P F e new (target e new) ob = (r, ob')"
    using assms(1) by (auto simp: outbox_transition_def target_def is_ok_iff)
  then show thesis
    by (rule move_entry_cases[OF _ assms(2)]) (use True failed succeeded in blast)+
next
  case False
  then show thesis
    using assms(1) already failed
    by (cases "e_state e = new")
      (auto simp: outbox_transition_def is_ok_iff intro: move_outcome.kept split: sum.splits option.splits)
qed

definition entry_ok :: "outbox_entry \<Rightarrow> bool" where
  "entry_ok e \<longleftrightarrow> e_dir e = target e (e_state e)"

lemma entry_ok_target: "entry_ok e \<Longrightarrow> e_state e \<noteq> new \<Longrightarrow> e_dir e \<noteq> target e new"
  by (auto simp: entry_ok_def target_def)

text \<open>
  C11: moving an entry is safe against every failure. Whatever file system calls fail and whatever the
  central store answers, the files of the entry are still at their place or at the target, and there
  they differ at most in the raw transactions; a record that was at the target is still there or in the
  archive; every other entry and the rest of the archive are untouched. An error with no failure in a
  step that undoes or syncs a move leaves the outbox as it was, and a success has moved the entry.
\<close>

theorem transition_loses_nothing:
  assumes "outbox_transition P F e new ob = (r, ob')" "entry_ok e" "e_state e \<noteq> new"
    and "map_of (ob_dirs ob) (e_dir e) = Some f"
  shows "(map_of (ob_dirs ob') (e_dir e) = Some f \<or>
      (\<exists>g. map_of (ob_dirs ob') (e_dir e) = None \<and> map_of (ob_dirs ob') (target e new) = Some g \<and> same_but_raw f g)) \<and>
    (case map_of (ob_dirs ob) (target e new) of
       Some p \<Rightarrow> map_of (ob_dirs ob') (target e new) = Some p \<or> (slot (target e new), p) \<in> set (ob_archive ob')
     | None \<Rightarrow> True) \<and>
    (\<exists>added. ob_archive ob' = ob_archive ob @ added) \<and>
    (\<forall>k. k = e_dir e \<or> k = target e new \<or> map_of (ob_dirs ob') k = map_of (ob_dirs ob) k) \<and>
    (is_ok r \<or> \<not> recovers F \<or>
      map_of (ob_dirs ob') = map_of (ob_dirs ob) \<and> ob_archive ob' = ob_archive ob) \<and>
    (\<not> is_ok r \<or> r = Ok (target e new) \<and> map_of (ob_dirs ob') (e_dir e) = None)"
  using assms(1) entry_ok_target[OF assms(2,3)]
proof (cases rule: transition_cases)
  case failed
  from failed(3) show ?thesis
    using failed(2,5) assms(4) entry_ok_target[OF assms(2,3)]
    by (cases rule: move_outcome.cases) (auto simp: view_def previous_at_def split: option.splits)
next
  case (succeeded f' g)
  then show ?thesis
    using assms(4) entry_ok_target[OF assms(2,3)] by (auto simp: view_def previous_at_def split: option.splits)
qed (use assms(3) in simp)

section \<open>What the libraries promise\<close>

definition staged_u :: "staged_tx \<Rightarrow> bool" where
  "staged_u t \<longleftrightarrow> st_nonce t < 2 ^ 64 \<and> st_chain_id t < 2 ^ 64 \<and> st_gas_limit t < 2 ^ 64 \<and>
     st_created_ms t < 2 ^ 128 \<and> st_expires_ms t < 2 ^ 128"

text \<open>
  The JSON of an intent reads back, up to its floating-point field; a decoded intent has integers of
  their types; a signing state reads back.
\<close>

definition ob_lib_ok :: "('b, 'd, 'a) ob_lib \<Rightarrow> bool" where
  "ob_lib_ok L \<longleftrightarrow>
     (\<forall>t. staged_u t \<longrightarrow> (\<exists>v. dec_intent L (enc_intent L t) = Ok (t\<lparr>st_usd_value := v\<rparr>))) \<and>
     (\<forall>b t. dec_intent L b = Ok t \<longrightarrow> staged_u t) \<and>
     (\<forall>s. dec_signing L (enc_signing L s) = Some s)"

lemma ob_lib_okD:
  assumes "ob_lib_ok L"
  shows "staged_u t \<Longrightarrow> \<exists>v. dec_intent L (enc_intent L t) = Ok (t\<lparr>st_usd_value := v\<rparr>)"
    and "dec_intent L b = Ok t \<Longrightarrow> staged_u t"
    and "dec_signing L (enc_signing L s) = Some s"
  using assms by (auto simp: ob_lib_ok_def)

section \<open>Coherence and held evidence\<close>

definition slot_of :: "staged_tx \<Rightarrow> string \<times> string \<times> string" where
  "slot_of t = (st_wallet t, st_chain t, st_id t)"

definition coherent_at :: "('b, 'd, 'a) ob_lib \<Rightarrow> place \<Rightarrow> 'b files \<Rightarrow> bool" where
  "coherent_at L k f \<longleftrightarrow> (\<forall>t. read_intent L (f INTENT) = Ok t \<longrightarrow> slot_of t = slot k)"

text \<open>Every readable intent names the directory it is in.\<close>

definition coherent :: "('b, 'd, 'a) ob_lib \<Rightarrow> ('b, 'c) outbox \<Rightarrow> bool" where
  "coherent L ob \<longleftrightarrow> (\<forall>k f. map_of (ob_dirs ob) k = Some f \<longrightarrow> coherent_at L k f)"

definition dispatched_in :: "('b, 'd, 'a) ob_lib \<Rightarrow> 'b files \<Rightarrow> bool" where
  "dispatched_in L f \<longleftrightarrow> signing_dispatched L (f SIGNING_STATE_FILE)"

text \<open>A dispatched signing request is kept in a pending or sent entry, or in the archive.\<close>

definition held :: "('b, 'd, 'a) ob_lib \<Rightarrow> ('b, 'c) outbox \<Rightarrow> string \<times> string \<times> string \<Rightarrow> bool" where
  "held L ob s \<longleftrightarrow>
     (\<exists>k f. slot k = s \<and> state_of k \<noteq> Ob_Failed \<and> map_of (ob_dirs ob) k = Some f \<and> dispatched_in L f) \<or>
     (\<exists>f. (s, f) \<in> set (ob_archive ob) \<and> dispatched_in L f)"

definition safe_step :: "('b, 'd, 'a) ob_lib \<Rightarrow> ('b, 'c) outbox \<Rightarrow> ('b, 'c) outbox \<Rightarrow> bool" where
  "safe_step L ob ob' \<longleftrightarrow> (coherent L ob \<longrightarrow> coherent L ob' \<and> (\<forall>s. held L ob s \<longrightarrow> held L ob' s))"

lemma safe_refl [simp, intro]: "safe_step L ob ob"
  by (simp add: safe_step_def)

lemma safe_trans [trans]: "safe_step L a b \<Longrightarrow> safe_step L b c \<Longrightarrow> safe_step L a c"
  by (auto simp: safe_step_def)

lemma names_distinct [simp]:
  "marker_name kind \<noteq> SIGNING_STATE_FILE" "raw_name kind \<noteq> SIGNING_STATE_FILE"
  "marker_name kind \<noteq> INTENT" "raw_name kind \<noteq> INTENT" "SIGNING_UNKNOWN_FILE \<noteq> SIGNING_STATE_FILE"
  "SIGNING_UNKNOWN_FILE \<noteq> INTENT" "SIGNING_STATE_FILE \<noteq> INTENT" "INTENT \<noteq> SIGNING_STATE_FILE"
  by (cases kind; simp add: file_names)+

lemma same_but_raw_evidence:
  assumes "same_but_raw f g"
  shows "dispatched_in L g = dispatched_in L f" "coherent_at L k g = coherent_at L k f"
  using assms names_distinct(2,4) unfolding same_but_raw_def dispatched_in_def coherent_at_def by metis+

lemma heldI:
  "map_of (ob_dirs ob) k = Some f \<Longrightarrow> dispatched_in L f \<Longrightarrow> state_of k \<noteq> Ob_Failed \<Longrightarrow> held L ob (slot k)"
  "(s, f) \<in> set (ob_archive ob) \<Longrightarrow> dispatched_in L f \<Longrightarrow> held L ob s"
  unfolding held_def by blast+

lemma coherentD: "coherent L ob \<Longrightarrow> map_of (ob_dirs ob) k = Some f \<Longrightarrow> coherent_at L k f"
  unfolding coherent_def by blast

lemma safe_stepI:
  assumes "\<And>k f. coherent L ob \<Longrightarrow> map_of (ob_dirs ob') k = Some f \<Longrightarrow> coherent_at L k f"
    and "\<And>k f. coherent L ob \<Longrightarrow> map_of (ob_dirs ob) k = Some f \<Longrightarrow> dispatched_in L f \<Longrightarrow> state_of k \<noteq> Ob_Failed \<Longrightarrow>
      held L ob' (slot k)"
    and "set (ob_archive ob) \<subseteq> set (ob_archive ob')"
  shows "safe_step L ob ob'"
  unfolding safe_step_def coherent_def[of L ob'] held_def[of L ob]
  using assms heldI(2)[of _ _ ob' L] by blast

text \<open>Changing one file is safe when it keeps the evidence and the name in the intent.\<close>

lemma safe_put_file:
  assumes "has_dir ob k" "coherent_at L k (files_at ob k) \<Longrightarrow> coherent_at L k ((files_at ob k)(n := x))"
    and "dispatched_in L (files_at ob k) \<Longrightarrow> dispatched_in L ((files_at ob k)(n := x))"
  shows "safe_step L ob (put_file k n x ob)"
proof (rule safe_stepI)
  fix k' f assume "coherent L ob" "map_of (ob_dirs (put_file k n x ob)) k' = Some f"
  then show "coherent_at L k' f"
    using assms(1,2) by (auto simp: dir_simps has_dir_iff split: if_splits dest: coherentD)
next
  fix k' f assume "map_of (ob_dirs ob) k' = Some f" "dispatched_in L f" "state_of k' \<noteq> Ob_Failed"
  then show "held L (put_file k n x ob) (slot k')"
    using assms(3) by (intro heldI(1)[where f = "if k' = k then f(n := x) else f"]) (auto simp: dir_simps)
qed simp

lemma evidence_upd:
  "n \<noteq> SIGNING_STATE_FILE \<Longrightarrow> dispatched_in L (f(n := x)) = dispatched_in L f"
  "n \<noteq> INTENT \<Longrightarrow> coherent_at L k (f(n := x)) = coherent_at L k f"
  by (simp_all add: dispatched_in_def coherent_at_def)

lemma read_intent_simps [simp]:
  "read_intent L (File b) = map_err Serde (dec_intent L b)" "read_intent L Absent = Err (Io ENOENT)"
  by (simp_all add: read_intent_def)

lemma coherent_at_intent:
  assumes "ob_lib_ok L" "staged_u t" "slot_of t = slot k"
  shows "coherent_at L k (f(INTENT := File (enc_intent L t)))"
  using ob_lib_okD(1)[OF assms(1,2)] assms(3) by (auto simp: coherent_at_def slot_of_def)

lemma faulty_state: "faulty fault ob ob' = (r, ob2) \<Longrightarrow> ob2 = ob \<or> ob2 = ob'"
  by (auto simp: faulty_def split: option.splits prod.splits)

lemma safe_write:
  assumes "write_artefact fault k n b ob = (r, ob')"
    and "n \<noteq> SIGNING_STATE_FILE" "n \<noteq> INTENT \<or> (\<forall>f. coherent_at L k (f(INTENT := File b)))"
  shows "safe_step L ob ob'"
proof -
  have "ob' = ob \<or> has_dir ob k \<and> ob' = put_file k n (File b) ob"
    using assms(1) faulty_state[of fault ob "put_file k n (File b) ob"] by (auto simp: write_artefact_def split: if_splits)
  moreover have "coherent_at L k f \<Longrightarrow> coherent_at L k (f(n := File b))" for f
    using assms(3) by (cases "n = INTENT") (simp_all add: evidence_upd)
  ultimately show ?thesis
    using safe_put_file[of ob k L n "File b"] assms(2) by (auto simp: evidence_upd)
qed

lemma safe_dispatch_write:
  assumes "ob_lib_ok L" "sg_dispatched sg" "write_artefact fault k SIGNING_STATE_FILE (enc_signing L sg) ob = (r, ob')"
  shows "safe_step L ob ob'" "r = Ok () \<Longrightarrow> state_of k \<noteq> Ob_Failed \<Longrightarrow> held L ob' (slot k)"
proof -
  have w: "ob' = ob \<and> \<not> is_ok r \<or> has_dir ob k \<and> ob' = put_file k SIGNING_STATE_FILE (File (enc_signing L sg)) ob"
    using assms(3) by (auto simp: write_artefact_def faulty_def split: if_splits option.splits prod.splits)
  have d: "dispatched_in L (f(SIGNING_STATE_FILE := File (enc_signing L sg)))" for f
    using assms(1,2) by (simp add: dispatched_in_def signing_dispatched_def ob_lib_okD(3))
  then show "safe_step L ob ob'"
    using w safe_put_file[of ob k L SIGNING_STATE_FILE "File (enc_signing L sg)"] by (auto simp: evidence_upd)
  assume "r = Ok ()" "state_of k \<noteq> Ob_Failed"
  then show "held L ob' (slot k)" using w d by (auto simp: dir_simps intro!: heldI(1))
qed

lemma safe_ensure_dir: "safe_step L ob (ensure_dir k ob)"
proof (rule safe_stepI)
  fix k' f assume "coherent L ob" "map_of (ob_dirs (ensure_dir k ob)) k' = Some f"
  then show "coherent_at L k' f"
    by (cases "map_of (ob_dirs ob) k'")
      (auto simp: dir_simps coherent_at_def[of L k "\<lambda>_. Absent"] split: if_splits dest: coherentD)
qed (auto simp: dir_simps intro!: heldI(1))

lemma viewD: "view ob = (d, a) \<Longrightarrow> map_of (ob_dirs ob) = d \<and> ob_archive ob = a"
  by (simp add: view_def)

lemma safe_view: "view ob' = view ob \<Longrightarrow> safe_step L ob ob'"
  by (rule safe_stepI) (auto simp: view_def intro: heldI(1) dest: coherentD)

lemma coherent_at_slot: "slot k = slot k' \<Longrightarrow> coherent_at L k f = coherent_at L k' f"
  by (simp add: coherent_at_def)

lemma safe_move:
  assumes "move_outcome src k (view ob) (view ob')" "slot src = slot k"
    and "state_of k \<noteq> Ob_Failed \<or> \<not> dispatched_in L (files_at ob src)"
  shows "safe_step L ob ob'"
  using assms(1)
proof (cases rule: move_outcome.cases)
  case kept
  then show ?thesis by (intro safe_view) simp
next
  case (aside d p a)
  note v = viewD[OF aside(1)] viewD[OF aside(2)]
  show ?thesis
  proof (rule safe_stepI)
    fix k' f assume "map_of (ob_dirs ob) k' = Some f" "dispatched_in L f" "state_of k' \<noteq> Ob_Failed"
    then show "held L ob' (slot k')"
      using v aside(3) by (cases "k' = k") (auto intro: heldI)
  qed (use v in \<open>auto dest: coherentD split: if_splits\<close>)
next
  case (moved d f g a)
  note v = viewD[OF moved(1)] viewD[OF moved(2)]
  note e = same_but_raw_evidence[OF moved(4)]
  have f: "files_at ob src = f" using v(1) moved(3) by simp
  show ?thesis
  proof (rule safe_stepI)
    fix k' h assume "coherent L ob" "map_of (ob_dirs ob') k' = Some h"
    then show "coherent_at L k' h"
      using v moved(3) e(2)[of L src] coherentD[of L ob src f] coherent_at_slot[OF assms(2)]
      by (auto split: if_splits dest: coherentD)
  next
    fix k' h assume h: "map_of (ob_dirs ob) k' = Some h" "dispatched_in L h" "state_of k' \<noteq> Ob_Failed"
    consider "k' = src" | "k' \<noteq> src" "k' = k" | "k' \<noteq> src" "k' \<noteq> k" by blast
    then show "held L ob' (slot k')"
    proof cases
      case 1
      then have "h = f" "state_of k \<noteq> Ob_Failed" using h v(1) moved(3) assms(3) f by auto
      then show ?thesis using 1 h(2) v(2) e(1)[of L] assms(2) heldI(1)[of ob' k g L] by auto
    next
      case 2
      then show ?thesis using h v by (auto simp: previous_at_def intro: heldI(2))
    next
      case 3
      then show ?thesis using h v by (auto intro: heldI(1))
    qed
  qed (use v in auto)
qed

lemma slot_target [simp]: "slot (target e new) = slot_of (e_staged e)" "state_of (target e new) = new"
  by (simp_all add: target_def slot_of_def)

lemma safe_transition:
  assumes "outbox_transition P F e new ob = (r, ob')" "entry_ok e"
    and "new \<noteq> Ob_Failed \<or> \<not> dispatched_in L (files_at ob (e_dir e))"
  shows "safe_step L ob ob'"
proof (cases "e_state e = new")
  case True
  then show ?thesis using assms(1) by (simp add: outbox_transition_def)
next
  case False
  have s: "slot (e_dir e) = slot (target e new)" using assms(2) by (simp add: entry_ok_def)
  from assms(1) entry_ok_target[OF assms(2) False] show ?thesis
  proof (cases rule: transition_cases)
    case failed
    then show ?thesis using safe_move[OF failed(3) s] assms(3) by simp
  next
    case (succeeded f g)
    have "move_outcome (e_dir e) (target e new) (view ob) (view ob')"
      using move_outcome.moved[of "map_of (ob_dirs ob)" "e_dir e" f g "target e new" "ob_archive ob"] succeeded
      by (simp add: view_def)
    then show ?thesis using safe_move[OF _ s] assms(3) by simp
  qed simp
qed

lemma transition_Ok:
  assumes "outbox_transition P F e new ob = (Ok k, ob')" "entry_ok e"
  shows "k = target e new"
proof (cases "e_state e = new")
  case True
  then show ?thesis using assms by (simp add: outbox_transition_def entry_ok_def)
next
  case False
  from assms(1) entry_ok_target[OF assms(2) False] show ?thesis
    by (cases rule: transition_cases) (use False in auto)
qed

lemma read_intent_staged_u: "ob_lib_ok L \<Longrightarrow> read_intent L n = Ok t \<Longrightarrow> staged_u t"
  by (cases n) (auto simp: read_intent_def dest: ob_lib_okD(2))

lemma safe_transition_with_status:
  assumes "ob_lib_ok L" "coherent L ob" "transition_with_status L P F fault e status ob = (r, ob')" "entry_ok e"
    and "from_status status \<noteq> Ob_Failed \<or> \<not> dispatched_in L (files_at ob (e_dir e))"
  shows "safe_step L ob ob'"
proof -
  obtain r1 ob1 where t: "outbox_transition P F e (from_status status) ob = (r1, ob1)" by fastforce
  have s1: "safe_step L ob ob1" by (rule safe_transition[OF t assms(4,5)])
  then have c: "coherent L ob1" using assms(2) by (simp add: safe_step_def)
  show ?thesis
  proof (cases r1)
    case (Inl m)
    then show ?thesis using s1 assms(3) t by (simp add: transition_with_status_def then_st_def)
  next
    case (Inr k)
    have k: "k = target e (from_status status)" using transition_Ok[OF t[unfolded Inr] assms(4)] .
    show ?thesis
    proof (cases "read_intent L (files_at ob1 k INTENT)")
      case (Inl m)
      then show ?thesis using s1 assms(3) t Inr by (simp add: transition_with_status_def then_st_def)
    next
      case r: (Inr t')
      have "map_of (ob_dirs ob1) k \<noteq> None" using r by (cases "map_of (ob_dirs ob1) k") auto
      then have "slot_of t' = slot k" "staged_u t'"
        using r coherentD[OF c, of k] read_intent_staged_u[OF assms(1)] by (auto simp: coherent_at_def)
      then have ci: "coherent_at L k (f(INTENT := File (enc_intent L (t'\<lparr>st_status := status\<rparr>))))" for f
        by (intro coherent_at_intent[OF assms(1)]) (simp_all add: staged_u_def slot_of_def)
      obtain r2 ob2 where w: "write_artefact fault k INTENT (enc_intent L (t'\<lparr>st_status := status\<rparr>)) ob1 = (r2, ob2)" by fastforce
      have "safe_step L ob1 ob2" by (rule safe_write[OF w]) (use ci in auto)
      moreover have "ob' = ob2"
        using assms(3) t Inr r w by (auto simp: transition_with_status_def then_st_def split: sum.splits)
      ultimately show ?thesis using s1 safe_trans by blast
    qed
  qed
qed

section \<open>Operations on the outbox\<close>

lemma read_in_state_Ok:
  assumes "read_in_state L w c i st ob = Ok e"
  shows "e_state e = st \<and> e_dir e = (w, c, st, i) \<and> read_intent L (files_at ob (w, c, st, i) INTENT) = Ok (e_staged e)"
  using assms by (auto simp: read_in_state_def and_then_Ok_iff Let_def split: if_splits option.splits)

lemma read_in_state_entry_ok:
  assumes "read_in_state L w c i st ob = Ok e" "coherent L ob"
  shows "entry_ok e" "slot_of (e_staged e) = (w, c, i)"
proof -
  note r = read_in_state_Ok[OF assms(1)]
  obtain f where "map_of (ob_dirs ob) (w, c, st, i) = Some f"
    using r by (cases "map_of (ob_dirs ob) (w, c, st, i)") auto
  then show "slot_of (e_staged e) = (w, c, i)" using r coherentD[OF assms(2)] by (auto simp: coherent_at_def)
  then show "entry_ok e" using r by (auto simp: entry_ok_def target_def slot_of_def)
qed

lemma unsigned_not_dispatched: "\<not> possibly_signed L f t bi \<Longrightarrow> \<not> dispatched_in L f"
  by (simp add: possibly_signed_def dispatched_in_def)

lemma text_names [simp]:
  "''cancel.txt'' \<noteq> SIGNING_STATE_FILE" "''expired.txt'' \<noteq> SIGNING_STATE_FILE"
  "''plan.md'' \<noteq> SIGNING_STATE_FILE" "''policy_check.json'' \<noteq> SIGNING_STATE_FILE"
  by (simp_all add: file_names)

text \<open>Discarding after the check is safe, and so is the note left afterwards.\<close>

lemma safe_discard:
  assumes "ob_lib_ok L" "coherent L ob" "read_in_state L w c i Ob_Pending ob = Ok e"
    and "\<not> possibly_signed L (files_at ob (e_dir e)) (e_staged e) bi"
    and "transition_with_status L P F fault e status ob = (r, ob1)"
  shows "safe_step L ob ob1"
  using safe_transition_with_status[OF assms(1,2,5) read_in_state_entry_ok(1)[OF assms(3,2)]]
    unsigned_not_dispatched[OF assms(4)] by blast

lemma safe_cancel:
  assumes "ob_lib_ok L" "coherent L ob" "outbox_cancel L P F w c i ob = (r, ob')"
  shows "safe_step L ob ob'"
proof (cases "read_in_state L w c i Ob_Pending ob")
  case (Inl m)
  then show ?thesis using assms(3) by (auto simp: outbox_cancel_def split: option.splits)
next
  case (Inr e)
  obtain r1 ob1 where t: "transition_with_status L P (df_move F) (df_intent F) e Tx_Cancelled ob = (r1, ob1)" by fastforce
  have u: "ob' = ob \<or> \<not> possibly_signed L (files_at ob (e_dir e)) (e_staged e) (batch_index L ob) \<and>
      (ob' = ob1 \<or> (\<exists>k. write_artefact (df_note F) k ''cancel.txt'' (enc_text L ''cancelled by user'') ob1 = (r, ob')))"
    using assms(3) Inr t
    by (auto simp: outbox_cancel_def then_st_def Let_def split: option.splits if_splits sum.splits)
  have w: "safe_step L ob1 ob'" if "write_artefact (df_note F) k ''cancel.txt'' (enc_text L ''cancelled by user'') ob1 = (r, ob')" for k
    by (rule safe_write[OF that]) simp_all
  show ?thesis
    using u safe_discard[OF assms(1,2) Inr _ t] w safe_trans[of L ob ob1 ob'] safe_refl by blast
qed

lemma safe_retire_one:
  assumes "ob_lib_ok L" "coherent L ob" "retire_one L P F bi sel (n, ob) = (n', ob')"
  shows "safe_step L ob ob'"
proof (cases "read_in_state L (st_wallet (e_staged sel)) (st_chain (e_staged sel)) (st_id (e_staged sel)) Ob_Pending ob")
  case (Inl m)
  then show ?thesis using assms(3) by (simp add: retire_one_def Let_def)
next
  case (Inr e)
  obtain r1 ob1 where t: "transition_with_status L P (df_move F) (df_intent F) e Tx_Failed ob = (r1, ob1)" by fastforce
  have u: "ob' = ob \<or> \<not> possibly_signed L (files_at ob (e_dir e)) (e_staged e) bi \<and>
      (ob' = ob1 \<or> (\<exists>k. ob' = snd (write_artefact (df_note F) k ''expired.txt'' (enc_text L ''expired before approval'') ob1)))"
    using assms(3) Inr t by (auto simp: retire_one_def Let_def split: if_splits sum.splits)
  have w: "safe_step L ob1 (snd (write_artefact (df_note F) k ''expired.txt'' (enc_text L ''expired before approval'') ob1))" for k
    by (rule safe_write[OF prod.collapse[symmetric]]) simp_all
  show ?thesis
    using u safe_discard[OF assms(1,2) Inr _ t] w safe_trans[of L ob ob1 ob'] safe_refl by blast
qed

lemma safe_retire_expired:
  assumes "ob_lib_ok L" "coherent L ob" "retire_expired L P lf sel ob = (r, ob')"
  shows "safe_step L ob ob'"
proof -
  have f: "safe_step L ob (snd (fold (\<lambda>(e, F). retire_one L P F bi e) sel (n, ob)))" for bi n
    using assms(2)
  proof (induction sel arbitrary: n ob)
    case (Cons x sel)
    obtain n1 ob1 where x: "retire_one L P (snd x) bi (fst x) (n, ob) = (n1, ob1)" by fastforce
    have s: "safe_step L ob ob1" by (rule safe_retire_one[OF assms(1) Cons.prems x])
    with Cons.prems have "coherent L ob1" by (simp add: safe_step_def)
    from safe_trans[OF s Cons.IH[OF this, of n1]] show ?case using x by (simp add: case_prod_unfold)
  qed simp
  show ?thesis
    using assms(3) f[of "batch_index L ob" 0]
    by (auto simp: retire_expired_def Let_def case_prod_unfold split: if_splits option.splits)
qed

lemma safe_then:
  assumes "safe_step L ob (snd m)" "\<And>a ob1. m = (Ok a, ob1) \<Longrightarrow> safe_step L ob1 (snd (k a ob1))"
  shows "safe_step L ob (snd (then_st m k))"
  using assms by (cases m; cases "fst m") (auto simp: then_st_def intro: safe_trans)

lemma safe_write_snd:
  "n \<noteq> SIGNING_STATE_FILE \<Longrightarrow> n \<noteq> INTENT \<or> (\<forall>f. coherent_at L k (f(INTENT := File b))) \<Longrightarrow>
     safe_step L ob (snd (write_artefact fault k n b ob))"
  by (rule safe_write[OF prod.collapse[symmetric]])

lemma safe_stage_files:
  assumes "ob_lib_ok L" "staged_u t"
  shows "safe_step L ob (snd (stage_files L F t plan ob))"
proof -
  have c: "coherent_at L (st_wallet t, st_chain t, Ob_Pending, st_id t) (f(INTENT := File (enc_intent L t)))" for f
    by (rule coherent_at_intent[OF assms]) (simp add: slot_of_def)
  have "safe_step L ob (snd (create_dir_durable (sf_dir F) k ob))" for k
    by (auto simp: create_dir_durable_def faulty_def split: option.splits prod.splits intro: safe_ensure_dir)
  then show ?thesis
    unfolding stage_files_def Let_def
    by (auto split: sum.splits intro!: safe_then safe_write_snd c)
qed

lemma project_stage_view:
  assumes "project_stage L pj t plan ob = (r, ob')" "staged_u t"
  shows "view ob' = view ob \<and> (\<forall>t'. r = Ok t' \<longrightarrow> slot_of t' = slot_of t \<and> staged_u t')"
  using assms
  by (auto simp: project_stage_def Let_def view_def slot_of_def staged_u_def
      split: sum.splits outbox_error.splits prod.splits)

lemma safe_write_pending:
  assumes "ob_lib_ok L" "staged_u t"
  shows "safe_step L ob (snd (write_pending L P F t plan ob))"
proof -
  let ?m = "case P of None \<Rightarrow> (Ok t, ob) | Some pj \<Rightarrow> project_stage L pj t plan ob"
  have v: "view (snd ?m) = view ob" "\<And>t' ob1. ?m = (Ok t', ob1) \<Longrightarrow> staged_u t'"
    using assms(2) by (auto split: option.splits dest: project_stage_view[OF prod.collapse[symmetric]] project_stage_view)
  have "safe_step L ob (snd (then_st ?m (\<lambda>t' ob1. stage_files L F t' plan ob1)))"
    by (rule safe_then[OF safe_view[OF v(1)]]) (rule safe_stage_files[OF assms(1) v(2)])
  then show ?thesis by (auto simp: write_pending_def split: sum.splits)
qed

lemma safe_mark_one: "safe_step L ob (snd (mark_one L bi fault_of x (marked, ob)))"
proof (cases x)
  case (fields w c i)
  let ?w = "\<lambda>b. write_artefact (fault_of (w, c, Ob_Failed, i)) (w, c, Ob_Failed, i) SIGNING_UNKNOWN_FILE b ob"
  have "safe_step L ob (snd (?w b))" for b by (rule safe_write_snd) simp_all
  then have "?w b = (r, ob1) \<Longrightarrow> safe_step L ob ob1" for b r ob1 by (metis snd_conv)
  then show ?thesis
    by (auto simp: mark_one_def fields Let_def split: sum.splits prod.splits)
qed

lemma safe_mark: "safe_step L ob (snd (mark_possibly_signed_failed L fault_of listing ob))"
proof -
  have "safe_step L ob (snd (fold (mark_one L bi fault_of) names (marked, ob)))" for bi names marked
  proof (induction names arbitrary: marked ob)
    case (Cons x names)
    obtain m1 ob1 where "mark_one L bi fault_of x (marked, ob) = (m1, ob1)" by fastforce
    then show ?case using safe_mark_one[of L ob bi fault_of x marked] safe_trans[OF _ Cons.IH[of ob1 m1]] by simp
  qed simp
  then show ?thesis
    by (auto simp: mark_possibly_signed_failed_def Let_def case_prod_unfold split: sum.splits)
qed

section \<open>Interleavings\<close>

text \<open>
  The steps that the daemon, the engine and the sweeps interleave. A retirement acts on a selection made
  in any earlier state. Releasing a refused or rejected request (\<open>set_aside_rejected_attempt\<close>, and the
  engine's rewrite of a refused signing state) is not among them: it is the one way evidence is withdrawn.
\<close>

datatype 'b ob_op =
  StageOp stage_faults staged_tx string
  | DispatchOp "string option" fault nat outbox_entry string
  | AttemptOp fault outbox_entry attempt_kind broadcast_attempt
  | RawOp fault outbox_entry attempt_kind 'b
  | DependsOp fault string string string string
  | CancelOp discard_faults string string string
  | RetireOp "string option" "(outbox_entry \<times> discard_faults) list"
  | SentOp move_faults outbox_entry
  | MarkOp "place \<Rightarrow> fault" "(outbox_error, (string \<times> string \<times> string) list) result"

fun ob_step :: "('b, 'd, 'a) ob_lib \<Rightarrow> ('b, 'c) central_projection option \<Rightarrow> 'b ob_op \<Rightarrow> ('b, 'c) outbox \<Rightarrow> ('b, 'c) outbox" where
  "ob_step L P (StageOp F t plan) ob = snd (write_pending L P F t plan ob)"
| "ob_step L P (DispatchOp lf fault now e action) ob = snd (dispatch_signing L lf fault now e action ob)"
| "ob_step L P (AttemptOp fault e kind a) ob = snd (write_broadcast_attempt L fault e kind a ob)"
| "ob_step L P (RawOp fault e kind raw) ob = snd (write_broadcast_raw_tx fault e kind raw ob)"
| "ob_step L P (DependsOp fault w c i dep) ob = snd (set_pending_depends_on L fault w c i dep ob)"
| "ob_step L P (CancelOp F w c i) ob = snd (outbox_cancel L P F w c i ob)"
| "ob_step L P (RetireOp lf sel) ob = snd (retire_expired L P lf sel ob)"
| "ob_step L P (SentOp F e) ob = snd (outbox_transition P F e Ob_Sent ob)"
| "ob_step L P (MarkOp fault_of listing) ob = snd (mark_possibly_signed_failed L fault_of listing ob)"

fun ob_pre :: "'b ob_op \<Rightarrow> bool" where
  "ob_pre (StageOp F t plan) = staged_u t"
| "ob_pre (SentOp F e) = entry_ok e"
| "ob_pre _ = True"

lemma safe_depends:
  assumes "ob_lib_ok L" "coherent L ob"
  shows "safe_step L ob (snd (set_pending_depends_on L fault w c i dep ob))"
proof (cases "read_in_state L w c i Ob_Pending ob")
  case (Inr e)
  note r = read_in_state_Ok[OF Inr]
  have "coherent_at L (e_dir e) (f(INTENT := File (enc_intent L ((e_staged e)\<lparr>st_depends_on := Some dep\<rparr>))))" for f
    by (rule coherent_at_intent[OF assms(1)])
      (use r read_in_state_entry_ok[OF Inr assms(2)] read_intent_staged_u[OF assms(1)] in \<open>auto simp: staged_u_def slot_of_def\<close>)
  then show ?thesis by (simp add: set_pending_depends_on_def Inr safe_write_snd)
qed (simp add: set_pending_depends_on_def)

lemma safe_dispatch:
  assumes "ob_lib_ok L"
  shows "safe_step L ob (snd (dispatch_signing L lf fault now e action ob))"
  using safe_dispatch_write(1)[OF assms, of "\<lparr>sg_dispatched = True, sg_action_id = action\<rparr>" fault "e_dir e" ob]
  by (auto simp: dispatch_signing_def split: sum.splits prod.splits)

lemma safe_ob_step:
  assumes "ob_lib_ok L" "coherent L ob" "ob_pre op"
  shows "safe_step L ob (ob_step L P op ob)"
proof (cases op)
  case (SentOp F e)
  then show ?thesis
    using assms(3) safe_transition[where P = P and F = F and e = e and new = Ob_Sent and ob = ob and L = L,
        OF prod.collapse[symmetric]] by simp
qed (use assms in \<open>simp_all add: safe_write_pending safe_dispatch safe_depends safe_mark safe_write_snd
    write_broadcast_attempt_def write_broadcast_raw_tx_def
    safe_cancel[OF _ _ prod.collapse[symmetric]] safe_retire_expired[OF _ _ prod.collapse[symmetric]]\<close>)

interpretation outbox_runs: op_machine "ob_step L P" "\<lambda>ob. coherent L ob \<and> (\<forall>s \<in> kept. held L ob s)"
    "\<lambda>op. ob_lib_ok L \<and> ob_pre op" for L :: "('b, 'd, 'a) ob_lib" and P :: "('b, 'c) central_projection option" and kept
  using safe_ob_step[of L] by unfold_locales (auto simp: safe_step_def)

lemma dispatch_held:
  assumes "ob_lib_ok L" "e_state e \<noteq> Ob_Failed" "entry_ok e" "dispatch_signing L lf fault now e action ob = (Ok (), ob1)"
  shows "held L ob1 (slot (e_dir e))"
proof -
  have "write_artefact fault (e_dir e) SIGNING_STATE_FILE (enc_signing L \<lparr>sg_dispatched = True, sg_action_id = action\<rparr>) ob = (Ok (), ob1)"
    using assms(4) by (auto simp: dispatch_signing_def split: sum.splits prod.splits)
  from safe_dispatch_write(2)[OF assms(1) _ this] show ?thesis using assms(2,3) by (auto simp: entry_ok_def)
qed

text \<open>
  C2: a transaction whose signing was dispatched is never discarded. Once the engine has recorded the
  dispatch of a pending or sent entry, no interleaving of stagings, dispatches, broadcast attempts,
  dependency edits, cancellations, expiry sweeps working on stale selections, moves to sent and markings,
  with any of their file system calls failing and any central store, leaves the record with the dispatch
  anywhere but in the entry's pending or sent directory or its archive.
\<close>

theorem dispatched_never_discarded:
  assumes "ob_lib_ok L" "coherent L ob" "entry_ok e" "e_state e \<noteq> Ob_Failed"
    and "dispatch_signing L lf fault now e action ob = (Ok (), ob1)" "list_all ob_pre ops"
    and "ob2 = fold (ob_step L P) ops ob1"
  shows "\<exists>f. signing_dispatched L (f SIGNING_STATE_FILE) \<and>
    (map_of (ob_dirs ob2) (target e Ob_Pending) = Some f \<or> map_of (ob_dirs ob2) (target e Ob_Sent) = Some f \<or>
     (slot_of (e_staged e), f) \<in> set (ob_archive ob2))"
proof -
  have "coherent L ob1" using safe_dispatch[OF assms(1)] assms(2,5) by (metis safe_step_def snd_conv)
  moreover have s: "slot (e_dir e) = slot_of (e_staged e)" using assms(3) by (simp add: entry_ok_def)
  ultimately have "held L ob2 (slot_of (e_staged e))"
    using outbox_runs.run_inv[where L = L and kept = "{slot_of (e_staged e)}" and s = ob1 and ops = ops and P = P] dispatch_held[OF assms(1,4,3,5)] assms(1,6,7)
    by (simp add: list_all_iff)
  then show ?thesis
    unfolding held_def
  proof (elim disjE exE conjE)
    fix k f assume "slot k = slot_of (e_staged e)" "state_of k \<noteq> Ob_Failed" "map_of (ob_dirs ob2) k = Some f" "dispatched_in L f"
    moreover have "k = target e (state_of k)" using \<open>slot k = _\<close> by (cases k) (simp add: target_def slot_of_def)
    ultimately show ?thesis
      by (cases "state_of k") (auto simp: dispatched_in_def)
  qed (auto simp: dispatched_in_def)
qed

section \<open>Discarding without failures\<close>

definition no_move_fault :: "move_faults \<Rightarrow> bool" where
  "no_move_fault F \<longleftrightarrow> recovers F \<and> tf_parent F = None \<and> tf_archive F = None \<and> tf_backup F = None \<and> tf_rename F = None"

definition no_discard_fault :: "discard_faults \<Rightarrow> bool" where
  "no_discard_fault F \<longleftrightarrow> no_move_fault (df_move F) \<and> df_lock F = None \<and> df_intent F = None \<and> df_note F = None"

definition central_accepts :: "('b, 'c) central_projection option \<Rightarrow> outbox_entry \<Rightarrow> outbox_state \<Rightarrow> 'c \<Rightarrow> bool" where
  "central_accepts P e new c \<longleftrightarrow>
     (case (P, st_action_id (e_staged e)) of
        (Some pj, Some action) \<Rightarrow> is_ok (fst (pj_transition pj action (dirname (e_state e)) (dirname new) c))
      | _ \<Rightarrow> True)"

lemma project_accepts:
  assumes "central_accepts P e new (ob_central ob)"
  obtains ob' where "project_transition P e new ob = (Ok (), ob')"
proof -
  have "fst (project_transition P e new ob) = Ok ()"
    using assms
    by (auto simp: central_accepts_def project_transition_def is_ok_iff split: option.splits prod.splits sum.splits)
  then show thesis using that by (cases "project_transition P e new ob") simp
qed

lemma central_to_archive [simp]: "ob_central (to_archive k ob) = ob_central ob"
  by (cases k) simp

lemma transition_total:
  assumes "no_move_fault F" "central_accepts P e new (ob_central ob)" "entry_ok e" "e_state e \<noteq> new"
    and "has_dir ob (e_dir e)" "is_ok (wallet_chain_dir (st_wallet (e_staged e)) (st_chain (e_staged e)))"
  obtains ob' where "outbox_transition P F e new ob = (Ok (target e new), ob')"
proof -
  let ?k = "target e new"
  let ?ob1 = "if has_dir ob ?k then to_archive ?k ob else ob"
  have sa: "set_aside F ?k ob = (Ok (has_dir ob ?k), ?ob1)"
    using assms(1) by (simp add: set_aside_def no_move_fault_def recovers_def)
  obtain f where f: "map_of (ob_dirs ob) (e_dir e) = Some f" using assms(5) by (auto simp: has_dir_iff)
  have "map_of (ob_dirs ?ob1) (e_dir e) = Some f"
    using f entry_ok_target[OF assms(3,4)] by (simp add: dir_simps)
  then have mv: "move_dir (tf_rename F) (e_dir e) ?k ?ob1 =
      (Ok (), ?ob1\<lparr>ob_dirs := AList.update ?k f (AList.delete (e_dir e) (ob_dirs ?ob1))\<rparr>)" (is "_ = (_, ?ob2)")
    using assms(1) by (simp add: move_dir_def no_move_fault_def)
  have "ob_central ?ob2 = ob_central ob" by simp
  then obtain ob3 where pt: "project_transition P e new ?ob2 = (Ok (), ob3)"
    using project_accepts[of P e new ?ob2] assms(2) by metis
  have "move_entry P F e new ?k ob = (Ok ?k, drop_raw F ?k new ob3)"
    unfolding move_entry_def sa then_st_def
    using mv pt assms(1) by (simp add: finish_move_def no_move_fault_def recovers_def)
  then have "outbox_transition P F e new ob = (Ok ?k, drop_raw F ?k new ob3)"
    using assms(1,4,6) by (auto simp: outbox_transition_def target_def state_dir_def no_move_fault_def is_ok_iff)
  then show thesis by (rule that)
qed

lemma write_ok:
  "has_dir ob k \<Longrightarrow> CHR ''/'' \<notin> set n \<Longrightarrow> CHR 0x5C \<notin> set n \<Longrightarrow> write_artefact None k n b ob = (Ok (), put_file k n (File b) ob)"
  by (simp add: write_artefact_def faulty_def)

text \<open>A discard that passed its check, with nothing failing: the entry is in \<open>failed/\<close> with the new status.\<close>

lemma discard_done:
  assumes "ob_lib_ok L" "coherent L ob" "read_in_state L w c i Ob_Pending ob = Ok e"
    and "no_move_fault F" "central_accepts P e Ob_Failed (ob_central ob)" "from_status status = Ob_Failed"
  obtains ob1 g v where "transition_with_status L P F None e status ob = (Ok (w, c, Ob_Failed, i), ob1)"
    "map_of (ob_dirs ob1) = (map_of (ob_dirs ob))((w, c, Ob_Pending, i) := None, (w, c, Ob_Failed, i) \<mapsto> g)"
    "read_intent L (g INTENT) = Ok ((e_staged e)\<lparr>st_status := status, st_usd_value := v\<rparr>)"
proof -
  note r = read_in_state_Ok[OF assms(3)]
  note eo = read_in_state_entry_ok[OF assms(3,2)]
  have k: "target e Ob_Failed = (w, c, Ob_Failed, i)" using eo(2) by (simp add: target_def slot_of_def)
  obtain f where f: "map_of (ob_dirs ob) (w, c, Ob_Pending, i) = Some f"
    using r by (cases "map_of (ob_dirs ob) (w, c, Ob_Pending, i)") auto
  have "is_ok (wallet_chain_dir w c)"
    using assms(3) by (auto simp: read_in_state_def state_dir_def and_then_Ok_iff is_ok_iff)
  then obtain ob1 where t: "outbox_transition P F e Ob_Failed ob = (Ok (w, c, Ob_Failed, i), ob1)"
    using transition_total[OF assms(4,5) eo(1)] r f eo(2) k by (auto simp: has_dir_iff slot_of_def)
  have "e_dir e \<noteq> target e Ob_Failed" using r k by simp
  from t this obtain g where g: "same_but_raw f g"
    "map_of (ob_dirs ob1) = (map_of (ob_dirs ob))((w, c, Ob_Pending, i) := None, (w, c, Ob_Failed, i) \<mapsto> g)"
    by (cases rule: transition_cases) (use r f k in \<open>auto simp: view_def\<close>)
  have i: "read_intent L (g INTENT) = Ok (e_staged e)"
    using g(1) r f names_distinct(4) unfolding same_but_raw_def by (metis files_at_Some)
  let ?t = "(e_staged e)\<lparr>st_status := status\<rparr>"
  have "staged_u ?t" using read_intent_staged_u[OF assms(1) i] by (simp add: staged_u_def)
  from ob_lib_okD(1)[OF assms(1) this] obtain v where v: "dec_intent L (enc_intent L ?t) = Ok (?t\<lparr>st_usd_value := v\<rparr>)" ..
  have h: "has_dir ob1 (w, c, Ob_Failed, i)" "files_at ob1 (w, c, Ob_Failed, i) = g" using g(2) by (auto simp: has_dir_def)
  let ?ob2 = "put_file (w, c, Ob_Failed, i) INTENT (File (enc_intent L ?t)) ob1"
  have w: "write_artefact None (w, c, Ob_Failed, i) INTENT (enc_intent L ?t) ob1 = (Ok (), ?ob2)"
    by (rule write_ok[OF h(1)]) simp_all
  show thesis
  proof (rule that[of ?ob2 "g(INTENT := File (enc_intent L ?t))" v])
    show "transition_with_status L P F None e status ob = (Ok (w, c, Ob_Failed, i), ?ob2)"
      using t i h(2) w assms(6) by (simp add: transition_with_status_def then_st_def)
  qed (use g(2) h(2) v in \<open>simp_all add: dir_simps\<close>)
qed

lemma failed_not_signable:
  assumes "\<not> has_dir ob (w, c, Ob_Pending, i)" "\<not> has_dir ob (w, c, Ob_Sent, i)"
    and "map_of (ob_dirs ob) (w, c, Ob_Failed, i) = Some g" "st_chain t = c" "st_id t = i"
  shows "\<not> is_ok (lock_signing_dispatch L lf now w [t] ob)"
proof -
  have "\<not> is_ok (outbox_read L w c i ob) \<or> (\<exists>e. outbox_read L w c i ob = Ok e \<and> e_state e = Ob_Failed)"
    using assms(1-3)
    by (auto simp: outbox_read_def ALL_STATES_def has_dir_def is_ok_iff and_then_Ok_iff Let_def
        split: sum.splits fs_error.splits)
  then show ?thesis
    using assms(4,5) by (auto simp: lock_signing_dispatch_def is_ok_iff Let_def split: option.splits sum.splits outbox_error.splits)
qed

lemma evidence_unreadable:
  "possibly_signed L f t bi \<Longrightarrow> signing_evidence_of L f t bi = Ev_UnreadableBatch \<Longrightarrow> bi_unreadable bi"
  by (auto simp: signing_evidence_of_def possibly_signed_def covers_def split: if_splits option.splits)

text \<open>
  C14: cancel discards exactly what is provably unsigned. When nothing fails, cancelling a pending entry
  is refused, without any change, when the entry or a batch may have signed it, and the refusal blames
  an unreadable batch record only when there is one. Otherwise the entry is in \<open>failed/\<close>, cancelled,
  with a note; and if it was not also sent, the engine refuses from then on to sign it.
\<close>

theorem cancel_exact:
  assumes "ob_lib_ok L" "coherent L ob" "read_in_state L w c i Ob_Pending ob = Ok e"
    and "no_discard_fault F" "central_accepts P e Ob_Failed (ob_central ob)"
    and "outbox_cancel L P F w c i ob = (r, ob')"
  shows "if possibly_signed L (files_at ob (w, c, Ob_Pending, i)) (e_staged e) (batch_index L ob)
    then ob' = ob \<and> (\<exists>ev. r = Err (PossiblySigned w i (recorded_hash L (files_at ob (w, c, Ob_Pending, i)) (e_staged e)) ev) \<and>
      (ev \<noteq> Ev_UnreadableBatch \<or> bi_unreadable (batch_index L ob)))
    else r = Ok () \<and> \<not> has_dir ob' (w, c, Ob_Pending, i) \<and>
      (\<exists>g v. map_of (ob_dirs ob') (w, c, Ob_Failed, i) = Some g \<and> g ''cancel.txt'' = File (enc_text L ''cancelled by user'') \<and>
         read_intent L (g INTENT) = Ok ((e_staged e)\<lparr>st_status := Tx_Cancelled, st_usd_value := v\<rparr>)) \<and>
      (has_dir ob (w, c, Ob_Sent, i) \<or> \<not> is_ok (lock_signing_dispatch L lf now w [e_staged e] ob'))"
proof -
  note r = read_in_state_Ok[OF assms(3)]
  have d: "e_dir e = (w, c, Ob_Pending, i)" using r by simp
  let ?bi = "batch_index L ob"
  show ?thesis
  proof (cases "possibly_signed L (files_at ob (w, c, Ob_Pending, i)) (e_staged e) ?bi")
    case True
    then show ?thesis
      using assms(3,4,6) evidence_unreadable[OF True] d by (auto simp: outbox_cancel_def no_discard_fault_def Let_def)
  next
    case False
    have F: "no_move_fault (df_move F)" "df_lock F = None" "df_intent F = None" "df_note F = None"
      using assms(4) by (simp_all add: no_discard_fault_def)
    obtain ob1 g v where t: "transition_with_status L P (df_move F) None e Tx_Cancelled ob = (Ok (w, c, Ob_Failed, i), ob1)"
      "map_of (ob_dirs ob1) = (map_of (ob_dirs ob))((w, c, Ob_Pending, i) := None, (w, c, Ob_Failed, i) \<mapsto> g)"
      "read_intent L (g INTENT) = Ok ((e_staged e)\<lparr>st_status := Tx_Cancelled, st_usd_value := v\<rparr>)"
      using discard_done[OF assms(1-3) F(1) assms(5), of Tx_Cancelled] by auto
    let ?b = "enc_text L ''cancelled by user''"
    have h: "has_dir ob1 (w, c, Ob_Failed, i)" "files_at ob1 (w, c, Ob_Failed, i) = g" using t(2) by (auto simp: has_dir_def)
    have w: "write_artefact None (w, c, Ob_Failed, i) ''cancel.txt'' ?b ob1 =
        (Ok (), put_file (w, c, Ob_Failed, i) ''cancel.txt'' (File ?b) ob1)"
      by (rule write_ok[OF h(1)]) simp_all
    have o: "r = Ok ()" "ob' = put_file (w, c, Ob_Failed, i) ''cancel.txt'' (File ?b) ob1"
      using assms(3,6) False F t(1) w d by (auto simp: outbox_cancel_def then_st_def Let_def)
    have m: "map_of (ob_dirs ob') = (map_of (ob_dirs ob))((w, c, Ob_Pending, i) := None,
        (w, c, Ob_Failed, i) \<mapsto> g(''cancel.txt'' := File ?b))"
      using o(2) t(2) h(2) by (simp add: dir_simps)
    have "has_dir ob (w, c, Ob_Sent, i) \<or> \<not> is_ok (lock_signing_dispatch L lf now w [e_staged e] ob')"
      using failed_not_signable[of ob' w c i "g(''cancel.txt'' := File ?b)" "e_staged e" L lf now]
        read_in_state_entry_ok(2)[OF assms(3,2)] by (auto simp: m has_dir_def slot_of_def)
    then show ?thesis using False o(1) m t(3) by (auto simp: has_dir_def)
  qed
qed

text \<open>An entry the sweep has retired.\<close>

definition retired_at :: "('b, 'd, 'a) ob_lib \<Rightarrow> ('b, 'c) outbox \<Rightarrow> string \<Rightarrow> string \<Rightarrow> string \<Rightarrow> bool" where
  "retired_at L ob w c i \<longleftrightarrow> \<not> has_dir ob (w, c, Ob_Pending, i) \<and>
     (\<exists>g t. map_of (ob_dirs ob) (w, c, Ob_Failed, i) = Some g \<and> read_intent L (g INTENT) = Ok t \<and> st_status t = Tx_Failed)"

lemma read_absent: "\<not> has_dir ob (w, c, st, i) \<Longrightarrow> read_in_state L w c i st ob \<noteq> Ok e"
  using read_in_state_Ok[of L w c i st ob e] by (auto simp: has_dir_def)

lemma retire_one_effect:
  assumes "ob_lib_ok L" "coherent L ob" "no_discard_fault F" "slot_of (e_staged sel) = (w, c, i)"
    and "\<And>e ct. central_accepts P e Ob_Failed ct" "retire_one L P F bi sel (n, ob) = (n', ob')"
  shows "case read_in_state L w c i Ob_Pending ob of
      Inl _ \<Rightarrow> ob' = ob
    | Inr e \<Rightarrow>
        if possibly_signed L (files_at ob (w, c, Ob_Pending, i)) (e_staged e) bi then ob' = ob
        else retired_at L ob' w c i \<and> (\<forall>k. slot k = (w, c, i) \<or> map_of (ob_dirs ob') k = map_of (ob_dirs ob) k)"
proof (cases "read_in_state L w c i Ob_Pending ob")
  case (Inl m)
  then show ?thesis using assms(4,6) by (simp add: retire_one_def Let_def slot_of_def)
next
  case (Inr e)
  have d: "e_dir e = (w, c, Ob_Pending, i)" using read_in_state_Ok[OF Inr] by simp
  show ?thesis
  proof (cases "possibly_signed L (files_at ob (w, c, Ob_Pending, i)) (e_staged e) bi")
    case True
    then show ?thesis using assms(4,6) Inr d by (simp add: retire_one_def Let_def slot_of_def)
  next
    case False
    have F: "no_move_fault (df_move F)" "df_intent F = None" "df_note F = None"
      using assms(3) by (simp_all add: no_discard_fault_def)
    obtain ob1 g v where t: "transition_with_status L P (df_move F) None e Tx_Failed ob = (Ok (w, c, Ob_Failed, i), ob1)"
      "map_of (ob_dirs ob1) = (map_of (ob_dirs ob))((w, c, Ob_Pending, i) := None, (w, c, Ob_Failed, i) \<mapsto> g)"
      "read_intent L (g INTENT) = Ok ((e_staged e)\<lparr>st_status := Tx_Failed, st_usd_value := v\<rparr>)"
      using discard_done[OF assms(1,2) Inr F(1) assms(5), of Tx_Failed] by auto
    let ?b = "enc_text L ''expired before approval''"
    have h: "has_dir ob1 (w, c, Ob_Failed, i)" "files_at ob1 (w, c, Ob_Failed, i) = g" using t(2) by (auto simp: has_dir_def)
    have "write_artefact None (w, c, Ob_Failed, i) ''expired.txt'' ?b ob1 =
        (Ok (), put_file (w, c, Ob_Failed, i) ''expired.txt'' (File ?b) ob1)"
      by (rule write_ok[OF h(1)]) simp_all
    then have "ob' = put_file (w, c, Ob_Failed, i) ''expired.txt'' (File ?b) ob1"
      using assms(4,6) Inr d False F t(1) by (simp add: retire_one_def Let_def slot_of_def)
    then have m: "map_of (ob_dirs ob') = (map_of (ob_dirs ob))((w, c, Ob_Pending, i) := None,
        (w, c, Ob_Failed, i) \<mapsto> g(''expired.txt'' := File ?b))"
      using t(2) h(2) by (simp add: dir_simps)
    then show ?thesis using Inr False t(3) by (auto simp: retired_at_def has_dir_def)
  qed
qed

definition same_slot :: "string \<times> string \<times> string \<Rightarrow> ('b, 'c) outbox \<Rightarrow> ('b, 'c) outbox \<Rightarrow> bool" where
  "same_slot s ob ob' \<longleftrightarrow> (\<forall>k. slot k = s \<longrightarrow> map_of (ob_dirs ob') k = map_of (ob_dirs ob) k)"

lemma same_slotD:
  assumes "same_slot (w, c, i) ob ob'"
  shows "map_of (ob_dirs ob') (w, c, st, i) = map_of (ob_dirs ob) (w, c, st, i)"
    and "files_at ob' (w, c, st, i) = files_at ob (w, c, st, i)"
  using assms by (simp_all add: same_slot_def files_at_def)

lemma same_slot_read:
  assumes "same_slot (w, c, i) ob ob'"
  shows "read_in_state L w c i st ob' = read_in_state L w c i st ob" "retired_at L ob' w c i = retired_at L ob w c i"
  by (simp_all add: read_in_state_def retired_at_def has_dir_def same_slotD[OF assms] cong: if_cong)

lemma same_slot_trans: "same_slot s ob ob1 \<Longrightarrow> same_slot s ob1 ob2 \<Longrightarrow> same_slot s ob ob2"
  by (simp add: same_slot_def)

text \<open>The effect of the whole loop on one entry.\<close>

definition retire_effect ::
  "('b, 'd, 'a) ob_lib \<Rightarrow> 'd batch_index_rec \<Rightarrow> bool \<Rightarrow> string \<times> string \<times> string \<Rightarrow> ('b, 'c) outbox \<Rightarrow> ('b, 'c) outbox \<Rightarrow> bool" where
  "retire_effect L bi chosen = (\<lambda>(w, c, i) ob ob'.
     case read_in_state L w c i Ob_Pending ob of
       Inl _ \<Rightarrow> same_slot (w, c, i) ob ob'
     | Inr e \<Rightarrow>
         if chosen \<and> \<not> possibly_signed L (files_at ob (w, c, Ob_Pending, i)) (e_staged e) bi
         then retired_at L ob' w c i else same_slot (w, c, i) ob ob')"

lemma retire_one_slot:
  assumes "ob_lib_ok L" "coherent L ob" "no_discard_fault F" "\<And>e ct. central_accepts P e Ob_Failed ct"
    and "retire_one L P F bi sel (n, ob) = (n', ob')"
  shows "retire_effect L bi (slot_of (e_staged sel) = (w, c, i)) (w, c, i) ob ob'"
proof -
  obtain w' c' i' where s: "slot_of (e_staged sel) = (w', c', i')" by (cases "slot_of (e_staged sel)")
  note e = retire_one_effect[OF assms(1-3) s assms(4,5)]
  show ?thesis
  proof (cases "(w', c', i') = (w, c, i)")
    case True
    then show ?thesis using e s by (auto simp: retire_effect_def same_slot_def split: sum.splits if_splits)
  next
    case False
    have "ob' = ob \<or> (\<forall>k. slot k = (w', c', i') \<or> map_of (ob_dirs ob') k = map_of (ob_dirs ob) k)"
      using e by (auto simp del: split_paired_All split: sum.splits if_splits)
    then have "same_slot (w, c, i) ob ob'"
      using False unfolding same_slot_def by metis
    then show ?thesis using False s by (auto simp: retire_effect_def split: sum.splits)
  qed
qed

lemma retire_effect_trans:
  assumes "retire_effect L bi a (w, c, i) ob ob1" "retire_effect L bi b (w, c, i) ob1 ob2"
  shows "retire_effect L bi (a \<or> b) (w, c, i) ob ob2"
proof (cases "same_slot (w, c, i) ob ob1")
  case True
  note t = same_slot_read(1)[OF True, of L Ob_Pending] same_slotD(2)[OF True, of Ob_Pending]
  show ?thesis
  proof (cases "read_in_state L w c i Ob_Pending ob")
    case (Inl m)
    then show ?thesis using assms(2) t same_slot_trans[OF True] by (simp add: retire_effect_def)
  next
    case (Inr e)
    have "\<not> retired_at L ob w c i" using read_absent[of ob w c Ob_Pending i L e] Inr by (auto simp: retired_at_def)
    then have "\<not> retired_at L ob1 w c i" using same_slot_read(2)[OF True, of L] by simp
    then show ?thesis
      using assms Inr t same_slot_trans[OF True, of ob2] by (auto simp: retire_effect_def split: if_splits)
  qed
next
  case False
  then obtain e where e: "read_in_state L w c i Ob_Pending ob = Ok e" "a"
      "\<not> possibly_signed L (files_at ob (w, c, Ob_Pending, i)) (e_staged e) bi" and r: "retired_at L ob1 w c i"
    using assms(1) by (auto simp: retire_effect_def split: sum.splits if_splits)
  have "read_in_state L w c i Ob_Pending ob1 \<noteq> Ok x" for x
    using r by (intro read_absent) (simp add: retired_at_def)
  then have "same_slot (w, c, i) ob1 ob2"
    using assms(2) by (auto simp: retire_effect_def split: sum.splits)
  then show ?thesis using e r same_slot_read(2)[of w c i ob1 ob2 L] by (simp add: retire_effect_def)
qed

lemma retire_loop:
  assumes "ob_lib_ok L" "coherent L ob" "list_all (\<lambda>x. no_discard_fault (snd x)) sel"
    and "\<And>e ct. central_accepts P e Ob_Failed ct"
  shows "retire_effect L bi (\<exists>x \<in> set sel. slot_of (e_staged (fst x)) = (w, c, i)) (w, c, i) ob
    (snd (fold (\<lambda>(e, F). retire_one L P F bi e) sel (n, ob)))"
  using assms(2,3)
proof (induction sel arbitrary: n ob)
  case Nil
  then show ?case by (simp add: retire_effect_def same_slot_def split: sum.splits)
next
  case (Cons x sel)
  obtain n1 ob1 where x: "retire_one L P (snd x) bi (fst x) (n, ob) = (n1, ob1)" by fastforce
  have F: "no_discard_fault (snd x)" using Cons.prems(2) by simp
  have "coherent L ob1" using safe_retire_one[OF assms(1) Cons.prems(1) x] Cons.prems(1) by (simp add: safe_step_def)
  from retire_effect_trans[OF retire_one_slot[OF assms(1) Cons.prems(1) F assms(4) x] Cons.IH[OF this, of n1]]
  show ?case using Cons.prems(2) x by (simp add: case_prod_unfold)
qed

lemma read_pending_iff:
  "(\<exists>e. read_in_state L w c i Ob_Pending ob = Ok e \<and> Q (e_staged e)) \<longleftrightarrow>
   is_ok (wallet_chain_dir w c) \<and> (\<exists>t. read_intent L (files_at ob (w, c, Ob_Pending, i) INTENT) = Ok t \<and> Q t)"
proof -
  have "path_exists n" if "read_intent L n = Ok t" for n t
    using that by (cases n) (auto simp: read_intent_def)
  then show ?thesis
    by (auto simp: read_in_state_def state_dir_def is_ok_iff and_then_Ok_iff Let_def split: option.splits if_splits)
qed

lemma set_map_filter: "set (List.map_filter f xs) = {y. \<exists>x \<in> set xs. f x = Some y}"
  by (force simp: List.map_filter_def)

lemma selected_slot:
  assumes "coherent L ob" "expired_entry L now bi ob (w, c, i) = Some e"
  shows "slot_of (e_staged e) = (w, c, i)"
proof -
  have r: "read_intent L (files_at ob (w, c, Ob_Pending, i) INTENT) = Ok (e_staged e)"
    using assms(2) by (auto simp: expired_entry_def Let_def split: if_splits sum.splits)
  then obtain f where "map_of (ob_dirs ob) (w, c, Ob_Pending, i) = Some f"
    by (cases "map_of (ob_dirs ob) (w, c, Ob_Pending, i)") auto
  then show ?thesis using r coherentD[OF assms(1)] by (auto simp: coherent_at_def)
qed

text \<open>
  C24: the expiry sweep retires exactly the expired, provably unsigned entries. When nothing fails, an
  entry that the listing shows, whose intent has expired and that nothing may have signed, is in
  \<open>failed/\<close> with status failed afterwards; every other pending entry is untouched, whatever its
  expiry.
\<close>

theorem sweep_exact:
  assumes "ob_lib_ok L" "coherent L ob" "\<And>e. no_discard_fault (faults_of e)" "\<And>e ct. central_accepts P e Ob_Failed ct"
    and "sweep_expired L P None faults_of now (Ok names) ob ob = (r, ob')" "is_ok (wallet_chain_dir w c)"
  shows "if (w, c, i) \<in> set names \<and>
      (\<exists>t. read_intent L (files_at ob (w, c, Ob_Pending, i) INTENT) = Ok t \<and> expired now t \<and>
         \<not> possibly_signed L (files_at ob (w, c, Ob_Pending, i)) t (batch_index L ob))
    then retired_at L ob' w c i
    else map_of (ob_dirs ob') (w, c, Ob_Pending, i) = map_of (ob_dirs ob) (w, c, Ob_Pending, i)"
proof -
  let ?bi = "batch_index L ob" and ?f = "files_at ob (w, c, Ob_Pending, i)"
  let ?sel = "List.map_filter (expired_entry L now ?bi ob) names"
  let ?loop = "snd (fold (\<lambda>(e, F). retire_one L P F ?bi e) (map (\<lambda>e. (e, faults_of e)) ?sel) (0, ob))"
  have o: "ob' = ?loop"
    using assms(5)
    by (auto simp: sweep_expired_def expired_pending_def retire_expired_def case_prod_unfold Let_def split: if_splits)
  have ch: "(\<exists>x \<in> set (map (\<lambda>e. (e, faults_of e)) ?sel). slot_of (e_staged (fst x)) = (w, c, i)) \<longleftrightarrow>
      (w, c, i) \<in> set names \<and> expired_entry L now ?bi ob (w, c, i) \<noteq> None" (is "?chosen = ?listed")
  proof
    assume ?chosen
    then obtain w' c' i' e where x: "(w', c', i') \<in> set names" "expired_entry L now ?bi ob (w', c', i') = Some e"
      "slot_of (e_staged e) = (w, c, i)" by (auto simp: set_map_filter)
    then show ?listed using selected_slot[OF assms(2) x(2)] by auto
  next
    assume ?listed
    then show ?chosen using selected_slot[OF assms(2), of now ?bi w c i] by (auto simp: set_map_filter)
  qed
  have eff: "retire_effect L ?bi ?listed (w, c, i) ob ob'"
    using retire_loop[OF assms(1,2) _ assms(4), of "map (\<lambda>e. (e, faults_of e)) ?sel" ?bi w c i 0] assms(3)
    unfolding o ch by (simp add: list_all_iff)
  have ee: "expired_entry L now ?bi ob (w, c, i) \<noteq> None \<longleftrightarrow>
      (\<exists>t. read_intent L (?f INTENT) = Ok t \<and> expired now t \<and> \<not> possibly_signed L ?f t ?bi)"
    by (auto simp: expired_entry_def Let_def may_exist_def split: sum.splits)
  show ?thesis
  proof (cases "?listed")
    case True
    then obtain t where t: "read_intent L (?f INTENT) = Ok t" "expired now t" "\<not> possibly_signed L ?f t ?bi"
      using ee by blast
    then obtain e where "read_in_state L w c i Ob_Pending ob = Ok e" "e_staged e = t"
      using read_pending_iff[of L w c i ob "\<lambda>x. x = t"] assms(6) by auto
    then show ?thesis using eff True t ee by (auto simp: retire_effect_def)
  next
    case False
    then have "same_slot (w, c, i) ob ob'" using eff by (auto simp: retire_effect_def split: sum.splits)
    then show ?thesis using False ee same_slotD(1) by (auto simp del: split_paired_Ex)
  qed
qed

section \<open>Nonces, identifiers and dependencies\<close>

definition pending_nonce :: "('b, 'd, 'a) ob_lib \<Rightarrow> 'a \<Rightarrow> 'b files \<Rightarrow> nat \<Rightarrow> bool" where
  "pending_nonce L addr f n \<longleftrightarrow>
     (\<exists>t. read_intent L (f INTENT) = Ok t \<and> parse_addr L (st_from t) = Some addr \<and> st_nonce t = n)"

lemma read_intent_exists: "read_intent L n = Ok t \<Longrightarrow> path_exists n"
  by (cases n) (auto simp: read_intent_def)

lemma max_nonce_bound:
  assumes "max_nonce L addr fs acc = Ok h"
  shows "(\<forall>m. acc = Some m \<longrightarrow> (\<exists>h'. h = Some h' \<and> m \<le> h')) \<and>
    (\<forall>f \<in> set fs. \<forall>n. pending_nonce L addr f n \<longrightarrow> (\<exists>h'. h = Some h' \<and> n \<le> h')) \<and>
    (h = acc \<or> (\<exists>f \<in> set fs. \<exists>n. pending_nonce L addr f n \<and> h = Some n))"
  using assms
proof (induction fs arbitrary: acc)
  case (Cons f fs)
  show ?case
  proof (cases "path_exists (f INTENT)")
    case False
    then have "\<not> pending_nonce L addr f n" for n
      by (auto simp: pending_nonce_def dest: read_intent_exists)
    then show ?thesis using Cons False by auto
  next
    case True
    then obtain t where t: "read_intent L (f INTENT) = Ok t"
      and m: "max_nonce L addr fs (if parse_addr L (st_from t) = Some addr
           then Some (case acc of None \<Rightarrow> st_nonce t | Some m \<Rightarrow> max m (st_nonce t)) else acc) = Ok h"
      using Cons.prems by (auto simp: and_then_Ok_iff)
    have p: "pending_nonce L addr f n \<longleftrightarrow> parse_addr L (st_from t) = Some addr \<and> st_nonce t = n" for n
      using t by (auto simp: pending_nonce_def)
    let ?acc = "if parse_addr L (st_from t) = Some addr
           then Some (case acc of None \<Rightarrow> st_nonce t | Some m \<Rightarrow> max m (st_nonce t)) else acc"
    have a: "acc = Some m \<Longrightarrow> \<exists>y. ?acc = Some y \<and> m \<le> y" "pending_nonce L addr f n \<Longrightarrow> \<exists>y. ?acc = Some y \<and> n \<le> y"
      "?acc = acc \<or> (\<exists>n. pending_nonce L addr f n \<and> ?acc = Some n)" for m n
      using p by (auto simp: max_def split: option.splits)
    note i = Cons.IH[OF m]
    have up: "?acc = Some y \<Longrightarrow> \<exists>h'. h = Some h' \<and> y \<le> h'" for y using i by blast
    show ?thesis
    proof (intro conjI allI impI ballI)
      show "\<exists>h'. h = Some h' \<and> k \<le> h'" if "acc = Some k" for k
        using a(1)[OF that] up le_trans by blast
      show "\<exists>h'. h = Some h' \<and> n \<le> h'" if "g \<in> set (f # fs)" "pending_nonce L addr g n" for g n
        using that a(2)[of n] up i le_trans by (metis set_ConsD)
      show "h = acc \<or> (\<exists>g \<in> set (f # fs). \<exists>n. pending_nonce L addr g n \<and> h = Some n)"
        using a(3) i by (metis list.set_intros)
    qed
  qed
qed simp

lemma dirs_in_at: "map_of (ob_dirs ob) (w, c, st, i) = Some f \<Longrightarrow> f \<in> set (map snd (dirs_in w c st ob))"
  by (force simp: dirs_in_def dest: map_of_SomeD)

text \<open>
  the nonce given to a new transaction is free. It is not below the chain's next nonce, it is above
  the nonce of every pending transaction of the account whose nonce is not the largest 64-bit number,
  and it is the chain's or directly follows a pending one.
\<close>

theorem next_nonce_free:
  assumes "next_nonce L w c addr chain_nonce ob = Ok n"
  shows "(\<forall>m. highest_pending_nonce L w c addr ob = Ok (Some m) \<and> m < 2 ^ 64 - 1 \<longrightarrow> chain_nonce \<le> n \<and>
      (\<forall>i h. pending_nonce L addr (files_at ob (w, c, Ob_Pending, i)) h \<longrightarrow> h < unat n)) \<and>
    (n = chain_nonce \<or> (\<exists>f \<in> set (map snd (dirs_in w c Ob_Pending ob)). \<exists>h. pending_nonce L addr f h \<and> n = word_of_nat h + 1))"
proof -
  obtain high where h: "highest_pending_nonce L w c addr ob = Ok high"
    and n: "n = (case high of None \<Rightarrow> chain_nonce | Some h \<Rightarrow> max chain_nonce (word_of_nat h + 1))"
    using assms by (auto simp: next_nonce_def and_then_Ok_iff)
  have m: "max_nonce L addr (map snd (dirs_in w c Ob_Pending ob)) None = Ok high"
    using h by (auto simp: highest_pending_nonce_def and_then_Ok_iff)
  note b = max_nonce_bound[OF m]
  have above: "k < unat n" if hx: "high = Some x" "x < 2 ^ 64 - 1" "pending_nonce L addr (files_at ob (w, c, Ob_Pending, i)) k" for x i k
  proof -
    obtain f where f: "map_of (ob_dirs ob) (w, c, Ob_Pending, i) = Some f"
      using hx(3) by (cases "map_of (ob_dirs ob) (w, c, Ob_Pending, i)") (auto simp: pending_nonce_def)
    have "k \<le> x" using b dirs_in_at[OF f] hx(1,3) files_at_Some[OF f] by auto
    moreover have "unat (word_of_nat x + 1 :: 64 word) = x + 1"
      using hx(2) by (simp add: unat_word_ariths unat_of_nat)
    moreover have "word_of_nat x + 1 \<le> n" using n hx(1) by simp
    ultimately show ?thesis by (simp add: word_le_nat_alt)
  qed
  show ?thesis
    using above b n h by (auto simp: max_def split: option.splits if_splits)
qed

text \<open>
  an intent that exists and cannot be read or parsed blocks staging. It makes the search for the
  highest pending nonce fail for every address of its wallet and chain, and with it the allocation of
  the next nonce.
\<close>

theorem unreadable_intent_blocks_staging:
  assumes "map_of (ob_dirs ob) (w, c, Ob_Pending, i) = Some f" "path_exists (f INTENT)" "\<not> is_ok (read_intent L (f INTENT))"
  shows "\<not> is_ok (highest_pending_nonce L w c addr ob) \<and> \<not> is_ok (next_nonce L w c addr chain_nonce ob)"
proof -
  have "\<not> is_ok (max_nonce L addr fs acc)" if "f \<in> set fs" for fs acc
    using that
  proof (induction fs arbitrary: acc)
    case (Cons g fs)
    then show ?case using assms(2,3) by (cases "f = g") (auto simp: is_ok_iff and_then_Ok_iff)
  qed simp
  then show ?thesis
    using dirs_in_at[OF assms(1)] by (auto simp: highest_pending_nonce_def next_nonce_def is_ok_iff and_then_Ok_iff)
qed

text \<open>
  a dependent transaction is released only by success. The gate passes only when the predecessor is
  not pending any more, is in \<open>sent/\<close> with a readable intent, and its receipt there records success.
\<close>

theorem dependency_released_by_success:
  assumes "ensure_dependency_satisfied L w c dep ob = Ok ()"
  shows "fs_read (files_at ob (w, c, Ob_Pending, dep) INTENT) = Err Fs_NotFound \<and>
    is_ok (read_intent L (files_at ob (w, c, Ob_Sent, dep) INTENT)) \<and>
    (\<exists>b r. files_at ob (w, c, Ob_Sent, dep) RECEIPT_FILE = File b \<and> dec_receipt L b = Ok r \<and> mr_outcome r = ''success'')"
proof -
  obtain e r where e: "outbox_read L w c dep ob = Ok e" "e_state e = Ob_Sent" "read_receipt L w c dep ob = Ok (Some r)"
      "receipt_is_success r"
    using assms
    by (auto simp: ensure_dependency_satisfied_def Let_def split: sum.splits outbox_error.splits outbox_state.splits option.splits if_splits)
  have p: "fs_read (files_at ob (w, c, Ob_Pending, dep) INTENT) = Err Fs_NotFound"
      "is_ok (read_intent L (files_at ob (w, c, Ob_Sent, dep) INTENT))" "e_dir e = (w, c, Ob_Sent, dep)"
    using e(1,2)
    by (auto simp: outbox_read_def ALL_STATES_def Let_def and_then_Ok_iff is_ok_iff read_intent_def
        split: sum.splits fs_error.splits)
  have "read_json (dec_receipt L) (files_at ob (w, c, Ob_Sent, dep) RECEIPT_FILE) = Ok (Some r)"
    using e(1,3) p(3) by (simp add: read_receipt_def)
  then show ?thesis
    using p e(4)
    by (cases "files_at ob (w, c, Ob_Sent, dep) RECEIPT_FILE")
      (auto simp: read_json_def and_then_Ok_iff receipt_is_success_def)
qed

definition no_stage_faults :: stage_faults where
  "no_stage_faults = \<lparr>sf_dir = None, sf_plan = None, sf_checks = None, sf_intent = None\<rparr>"

lemma stage_files_done:
  assumes "is_ok (wallet_chain_dir (st_wallet t) (st_chain t))"
  obtains ob' f where "stage_files L no_stage_faults t plan ob = (Ok (st_wallet t, st_chain t, Ob_Pending, st_id t), ob')"
    "map_of (ob_dirs ob') = (map_of (ob_dirs ob))((st_wallet t, st_chain t, Ob_Pending, st_id t) \<mapsto> f)"
    "f INTENT = File (enc_intent L t)"
proof -
  let ?k = "(st_wallet t, st_chain t, Ob_Pending, st_id t)"
  have h: "has_dir (ensure_dir ?k ob) ?k" "\<And>n x ob. has_dir (put_file ?k n x ob) ?k"
    by (simp_all add: has_dir_def dir_simps)
  obtain u where u: "wallet_chain_dir (st_wallet t) (st_chain t) = Ok u" using assms by (auto simp: is_ok_iff)
  let ?ob = "put_file ?k INTENT (File (enc_intent L t)) (put_file ?k ''policy_check.json'' (File (enc_checks L (st_policy_checks t)))
      (put_file ?k ''plan.md'' (File (enc_text L plan)) (ensure_dir ?k ob)))"
  show thesis
  proof (rule that[of ?ob "files_at ?ob ?k"])
    show "stage_files L no_stage_faults t plan ob = (Ok ?k, ?ob)"
      by (simp add: stage_files_def state_dir_def u no_stage_faults_def create_dir_durable_def faulty_def then_st_def
          write_ok h Let_def)
  qed (simp_all add: dir_simps files_at_def)
qed

text \<open>
  C35: a restarted daemon can overwrite a pending transaction. An identifier is the counter of the
  process, which restarts at one, and the clock modulo one hundred seconds: two processes started with
  a whole multiple of that between their first stagings allocate the same identifier, and staging the
  second transaction replaces the first one's pending intent without an error.
\<close>

theorem restart_overwrites_pending:
  assumes "ob_lib_ok L" "staged_u t2" "is_ok (origin_validate (resolved_execution_origin t2))"
    and "is_ok (wallet_chain_dir (st_wallet t2) (st_chain t2))"
    and "st_id t1 = fst (allocate_id now (outbox_new ob0))" "st_id t2 = fst (allocate_id (now + 100000 * n) (outbox_new ob))"
    and "st_wallet t1 = st_wallet t2" "st_chain t1 = st_chain t2"
  shows "\<exists>ob' f v. write_pending L None no_stage_faults t2 plan ob = (Ok (st_wallet t1, st_chain t1, Ob_Pending, st_id t1), ob') \<and>
    map_of (ob_dirs ob') (st_wallet t1, st_chain t1, Ob_Pending, st_id t1) = Some f \<and>
    read_intent L (f INTENT) = Ok (t2\<lparr>st_usd_value := v\<rparr>)"
proof -
  have i: "st_id t1 = st_id t2" using assms(5,6) by (simp add: allocate_id_def outbox_new_def)
  obtain ob' f where s: "stage_files L no_stage_faults t2 plan ob = (Ok (st_wallet t2, st_chain t2, Ob_Pending, st_id t2), ob')"
    "map_of (ob_dirs ob') = (map_of (ob_dirs ob))((st_wallet t2, st_chain t2, Ob_Pending, st_id t2) \<mapsto> f)"
    "f INTENT = File (enc_intent L t2)" by (rule stage_files_done[OF assms(4)])
  obtain v where "dec_intent L (enc_intent L t2) = Ok (t2\<lparr>st_usd_value := v\<rparr>)" using ob_lib_okD(1)[OF assms(1,2)] ..
  then show ?thesis
    using assms(3,7,8) i s by (auto simp: write_pending_def is_ok_iff then_st_def)
qed

section \<open>A library that meets the contract\<close>

datatype content =
  C_Intent staged_tx | C_Text string | C_Checks "policy_check list" | C_Attempt broadcast_attempt
  | C_Signing signing_summary | C_Batch "string batch_summary" | C_Receipt mined_receipt | C_Unknown signing_unknown

definition ob_ref :: "(content, string, string) ob_lib" where
  "ob_ref = \<lparr>enc_intent = C_Intent,
     dec_intent = (\<lambda>b. case b of C_Intent t \<Rightarrow> if staged_u t then Ok t else Err ''out of range'' | _ \<Rightarrow> Err ''invalid type''),
     same_json = (=), enc_text = C_Text, enc_checks = C_Checks, enc_attempt = C_Attempt,
     dec_attempt = (\<lambda>b. case b of C_Attempt a \<Rightarrow> Ok a | _ \<Rightarrow> Err ''invalid type''),
     enc_signing = C_Signing, dec_signing = (\<lambda>b. case b of C_Signing s \<Rightarrow> Some s | _ \<Rightarrow> None),
     dec_batch = (\<lambda>b. case b of C_Batch s \<Rightarrow> Some s | _ \<Rightarrow> None),
     dec_receipt = (\<lambda>b. case b of C_Receipt r \<Rightarrow> Ok r | _ \<Rightarrow> Err ''invalid type''),
     enc_unknown = C_Unknown, bytes_b3 = (\<lambda>b. case b of C_Text s \<Rightarrow> s | _ \<Rightarrow> []),
     payload_digest = (\<lambda>t. Some (st_data_hex t)), parse_addr = Some\<rparr>"

lemma ob_ref_ok: "ob_lib_ok ob_ref"
proof -
  have "\<exists>v. t = t\<lparr>st_usd_value := v\<rparr>" for t :: staged_tx by (rule exI[of _ "st_usd_value t"]) simp
  then show ?thesis by (auto simp: ob_lib_ok_def ob_ref_def split: content.splits if_splits)
qed

definition sample_place :: place where "sample_place = (''main'', ''base'', Ob_Pending, ''0002-tx'')"

definition sample_files :: "content files" where
  "sample_files = (\<lambda>_. Absent)(INTENT := File (C_Intent sample_transfer))"

definition sample_box :: "(content, unit) outbox" where
  "sample_box = \<lparr>ob_dirs = [(sample_place, sample_files)], ob_archive = [], ob_batches = No_Batches, ob_central = (), ob_next_id = 3\<rparr>"

definition sample_entry :: outbox_entry where
  "sample_entry = \<lparr>e_state = Ob_Pending, e_staged = sample_transfer, e_dir = sample_place\<rparr>"

definition no_move_faults :: move_faults where
  "no_move_faults = \<lparr>tf_parent = None, tf_archive = None, tf_backup = None, tf_backup_sync = None, tf_rename = None,
     tf_restore = None, tf_restore_sync = None, tf_sync = None, tf_rollback = None, tf_rollback_sync = None,
     tf_reinstate = None, tf_reinstate_sync = None, tf_unlink = (\<lambda>_. False), tf_attempt = ''attempt-1''\<rparr>"

definition no_discard_faults :: discard_faults where
  "no_discard_faults = \<lparr>df_lock = None, df_move = no_move_faults, df_intent = None, df_note = None\<rparr>"

lemma no_faults: "no_move_fault no_move_faults" "no_discard_fault no_discard_faults"
  by (simp_all add: no_move_fault_def recovers_def no_move_faults_def no_discard_fault_def no_discard_faults_def)

lemma sample_ok:
  "entry_ok sample_entry" "staged_u sample_transfer" "coherent ob_ref sample_box"
  "map_of (ob_dirs sample_box) sample_place = Some sample_files"
  "read_intent ob_ref (sample_files INTENT) = Ok sample_transfer"
proof -
  show u: "staged_u sample_transfer" by (simp add: staged_u_def sample_transfer_def)
  show i: "read_intent ob_ref (sample_files INTENT) = Ok sample_transfer"
    using u by (simp add: sample_files_def ob_ref_def)
  show "entry_ok sample_entry"
    by (simp add: entry_ok_def target_def sample_entry_def sample_place_def sample_transfer_def)
  show "map_of (ob_dirs sample_box) sample_place = Some sample_files" by (simp add: sample_box_def)
  show "coherent ob_ref sample_box"
    using i by (auto simp: coherent_def sample_box_def coherent_at_def sample_place_def slot_of_def sample_transfer_def split: if_splits)
qed

theorem transition_loses_nothing_witness:
  "(\<exists>g. map_of (ob_dirs (snd (outbox_transition None no_move_faults sample_entry Ob_Sent sample_box)))
       (target sample_entry Ob_Sent) = Some g \<and> same_but_raw sample_files g) \<and>
   ob_archive (snd (outbox_transition None no_move_faults sample_entry Ob_Sent sample_box)) = []"
proof -
  let ?r = "outbox_transition None no_move_faults sample_entry Ob_Sent sample_box"
  have d: "e_dir sample_entry = sample_place" "e_state sample_entry = Ob_Pending" by (simp_all add: sample_entry_def)
  have n: "e_state sample_entry \<noteq> Ob_Sent" using d by simp
  have "is_ok (fst ?r)"
    by (simp add: outbox_transition_def state_dir_def wallet_chain_dir_def validate_segment_def sample_entry_def sample_transfer_def
        no_move_faults_def move_entry_def set_aside_def has_dir_def sample_box_def sample_place_def then_st_def move_dir_def
        finish_move_def project_transition_def)
  moreover have "ob_archive (snd ?r) = []"
    by (simp add: outbox_transition_def state_dir_def wallet_chain_dir_def validate_segment_def sample_entry_def sample_transfer_def
        no_move_faults_def move_entry_def set_aside_def has_dir_def sample_box_def sample_place_def then_st_def move_dir_def
        finish_move_def project_transition_def drop_raw_def ALL_KINDS_def)
  ultimately show ?thesis
    using transition_loses_nothing[OF prod.collapse[symmetric] sample_ok(1) n,
        where f = sample_files and P = None and F = no_move_faults and ob = sample_box] sample_ok(4) d
    by (auto simp del: split_paired_All)
qed

theorem restart_overwrites_pending_witness:
  "\<exists>ob' f v. write_pending ob_ref None no_stage_faults (sample_transfer\<lparr>st_id := ''0001-00000''\<rparr>) ''plan''
       (sample_box\<lparr>ob_dirs := [((''main'', ''base'', Ob_Pending, ''0001-00000''), sample_files)]\<rparr>) =
     (Ok (''main'', ''base'', Ob_Pending, ''0001-00000''), ob') \<and>
   map_of (ob_dirs ob') (''main'', ''base'', Ob_Pending, ''0001-00000'') = Some f \<and>
   read_intent ob_ref (f INTENT) = Ok (sample_transfer\<lparr>st_id := ''0001-00000'', st_usd_value := v\<rparr>)"
proof -
  let ?t = "sample_transfer\<lparr>st_id := ''0001-00000''\<rparr>"
  let ?ob = "sample_box\<lparr>ob_dirs := [((''main'', ''base'', Ob_Pending, ''0001-00000''), sample_files)]\<rparr>"
  have pads: "pad_nat 4 (Suc 0) = ''0001''" "pad_nat 5 0 = ''00000''" by code_simp+
  have i: "fst (allocate_id (0 + 100000 * 3) (outbox_new ?ob)) = ''0001-00000''" "fst (allocate_id 0 (outbox_new sample_box)) = ''0001-00000''"
    using pads by (simp_all add: allocate_id_def outbox_new_def)
  have u: "staged_u ?t" using sample_ok(2) by (simp add: staged_u_def)
  have o: "is_ok (origin_validate (resolved_execution_origin ?t))" "is_ok (wallet_chain_dir (st_wallet ?t) (st_chain ?t))"
    "st_wallet ?t = ''main''" "st_chain ?t = ''base''"
    by (simp_all add: sample_transfer_def resolved_execution_origin_def) code_simp+
  show ?thesis
    using restart_overwrites_pending[OF ob_ref_ok u o(1,2), of ?t 0 sample_box 3 ?ob "''plan''"] i o(3,4) by simp
qed

lemma sample_names: "st_wallet sample_transfer = ''main''" "st_chain sample_transfer = ''base''" "st_id sample_transfer = ''0002-tx''"
  "st_expires_ms sample_transfer = 200000" "st_nonce sample_transfer = 1" "st_from sample_transfer = ''0xf''"
  "st_tx_hash sample_transfer = None" "st_action_id sample_transfer = None"
  by (simp_all add: sample_transfer_def)

lemma sample_dir: "is_ok (wallet_chain_dir ''main'' ''base'')" "wallet_chain_dir ''main'' ''base'' = Ok ()"
  by code_simp+

lemma sample_files_at: "files_at sample_box (''main'', ''base'', Ob_Pending, ''0002-tx'') = sample_files"
  using sample_ok(4) by (simp add: sample_place_def)

lemma sample_reads:
  "read_in_state ob_ref ''main'' ''base'' ''0002-tx'' Ob_Pending sample_box = Ok sample_entry"
  "outbox_read ob_ref ''main'' ''base'' ''0002-tx'' sample_box = Ok sample_entry"
proof -
  have f: "fs_read (sample_files INTENT) = Ok (C_Intent sample_transfer)" "path_exists (sample_files INTENT)"
      "sample_files RECEIPT_FILE = Absent" "dec_intent ob_ref (C_Intent sample_transfer) = Ok sample_transfer"
    using sample_ok(2) by (simp_all add: sample_files_def RECEIPT_FILE_def ob_ref_def)
  then show "read_in_state ob_ref ''main'' ''base'' ''0002-tx'' Ob_Pending sample_box = Ok sample_entry"
    using sample_ok(5)
    by (simp add: read_in_state_def state_dir_def sample_dir sample_files_at sample_entry_def sample_place_def)
  show "outbox_read ob_ref ''main'' ''base'' ''0002-tx'' sample_box = Ok sample_entry"
    using f
    by (simp add: outbox_read_def ALL_STATES_def state_dir_def sample_dir sample_files_at sample_entry_def sample_place_def read_status_def)
qed

lemma sample_unsigned: "\<not> possibly_signed ob_ref sample_files sample_transfer (batch_index ob_ref sample_box)"
  by (simp add: possibly_signed_def sample_names ALL_KINDS_def may_exist_def sample_files_def signing_dispatched_def file_names
      covers_def covering_def batch_index_def sample_box_def batch_index_default_def)

theorem dispatched_never_discarded_witness:
  "\<exists>f. signing_dispatched ob_ref (f SIGNING_STATE_FILE) \<and>
     (let ob2 = fold (ob_step ob_ref None)
          [CancelOp no_discard_faults ''main'' ''base'' ''0002-tx'', RetireOp None [(sample_entry, no_discard_faults)],
           SentOp no_move_faults sample_entry]
          (snd (dispatch_signing ob_ref None None 150000 sample_entry ''8453:0002-tx'' sample_box))
      in map_of (ob_dirs ob2) (target sample_entry Ob_Pending) = Some f \<or> map_of (ob_dirs ob2) (target sample_entry Ob_Sent) = Some f \<or>
         (slot_of (e_staged sample_entry), f) \<in> set (ob_archive ob2))"
proof -
  have "lock_signing_dispatch ob_ref None 150000 ''main'' [sample_transfer] sample_box = Ok ()"
    using sample_reads(2)
    by (simp add: lock_signing_dispatch_def sample_names Let_def sample_entry_def expired_def ob_ref_def)
  moreover have "has_dir sample_box sample_place" using sample_ok(4) by (simp add: has_dir_def)
  ultimately have d: "dispatch_signing ob_ref None None 150000 sample_entry ''8453:0002-tx'' sample_box =
      (Ok (), snd (dispatch_signing ob_ref None None 150000 sample_entry ''8453:0002-tx'' sample_box))"
    by (simp add: dispatch_signing_def sample_entry_def sample_names write_artefact_def faulty_def SIGNING_STATE_FILE_def)
  have s: "e_state sample_entry \<noteq> Ob_Failed" by (simp add: sample_entry_def)
  show ?thesis
    using dispatched_never_discarded[OF ob_ref_ok sample_ok(3,1) s d _ refl, where P = None and
        ops = "[CancelOp no_discard_faults ''main'' ''base'' ''0002-tx'', RetireOp None [(sample_entry, no_discard_faults)],
           SentOp no_move_faults sample_entry]"] sample_ok(1)
    by (simp add: Let_def)
qed

theorem cancel_exact_witness:
  "fst (outbox_cancel ob_ref None no_discard_faults ''main'' ''base'' ''0002-tx'' sample_box) = Ok () \<and>
   \<not> is_ok (lock_signing_dispatch ob_ref None 150000 ''main'' [sample_transfer]
     (snd (outbox_cancel ob_ref None no_discard_faults ''main'' ''base'' ''0002-tx'' sample_box)))"
proof -
  have e: "e_staged sample_entry = sample_transfer" by (simp add: sample_entry_def)
  have c: "central_accepts None sample_entry Ob_Failed (ob_central sample_box)" by (simp add: central_accepts_def)
  have "\<not> has_dir sample_box (''main'', ''base'', Ob_Sent, ''0002-tx'')" by (simp add: has_dir_def sample_box_def sample_place_def)
  then show ?thesis
    using cancel_exact[OF ob_ref_ok sample_ok(3) sample_reads(1) no_faults(2) c prod.collapse[symmetric], of None 150000]
      sample_unsigned by (simp add: e sample_files_at)
qed

theorem sweep_exact_witness:
  "retired_at ob_ref (snd (sweep_expired ob_ref None None (\<lambda>_. no_discard_faults) 200000
      (Ok [(''main'', ''base'', ''0002-tx'')]) sample_box sample_box)) ''main'' ''base'' ''0002-tx''"
proof -
  have x: "expired 200000 sample_transfer" by (simp add: expired_def sample_names)
  have "central_accepts (None :: (content, unit) central_projection option) e Ob_Failed ct" for e ct by (simp add: central_accepts_def)
  then show ?thesis
    using sweep_exact[OF ob_ref_ok sample_ok(3) no_faults(2) _ prod.collapse[symmetric] sample_dir(1),
        where names = "[(''main'', ''base'', ''0002-tx'')]" and now = 200000 and P = None and i = "''0002-tx''"]
      x sample_unsigned sample_ok(5) by (simp add: sample_files_at)
qed

lemma sample_next: "highest_pending_nonce ob_ref ''main'' ''base'' ''0xf'' sample_box = Ok (Some 1)"
  "next_nonce ob_ref ''main'' ''base'' ''0xf'' 0 sample_box = Ok 2"
proof -
  have "path_exists (sample_files INTENT)" by (simp add: sample_files_def)
  then show h: "highest_pending_nonce ob_ref ''main'' ''base'' ''0xf'' sample_box = Ok (Some 1)"
    using sample_ok(5)
    by (simp add: highest_pending_nonce_def state_dir_def sample_dir dirs_in_def sample_box_def sample_place_def sample_names ob_ref_def)
  show "next_nonce ob_ref ''main'' ''base'' ''0xf'' 0 sample_box = Ok 2"
    by (simp add: next_nonce_def h max_def)
qed

theorem next_nonce_free_witness:
  "next_nonce ob_ref ''main'' ''base'' ''0xf'' 0 sample_box = Ok 2 \<and>
   pending_nonce ob_ref ''0xf'' (files_at sample_box (''main'', ''base'', Ob_Pending, ''0002-tx'')) 1 \<and> 1 < unat (2 :: 64 word)"
proof -
  have p: "pending_nonce ob_ref ''0xf'' (files_at sample_box (''main'', ''base'', Ob_Pending, ''0002-tx'')) 1"
    using sample_ok(5) by (simp add: pending_nonce_def sample_files_at sample_names ob_ref_def)
  have "1 < unat (2 :: 64 word)"
    using next_nonce_free[OF sample_next(2)] sample_next(1) p by fastforce
  then show ?thesis using p sample_next(2) by simp
qed

definition broken_box :: "(content, unit) outbox" where
  "broken_box = sample_box\<lparr>ob_dirs := [(sample_place, (\<lambda>_. Absent)(INTENT := File (C_Text ''torn'')))]\<rparr>"

theorem unreadable_intent_blocks_staging_witness:
  "\<not> is_ok (next_nonce ob_ref ''main'' ''base'' ''0xf'' 0 broken_box)"
  using unreadable_intent_blocks_staging[where ob = broken_box and L = ob_ref and w = "''main''" and c = "''base''" and i = "''0002-tx''"
      and f = "(\<lambda>_. Absent)(INTENT := File (C_Text ''torn''))" and addr = "''0xf''" and chain_nonce = 0]
  by (simp add: broken_box_def sample_place_def ob_ref_def)

definition mined_box :: "(content, unit) outbox" where
  "mined_box = sample_box\<lparr>ob_dirs := [((''main'', ''base'', Ob_Sent, ''0002-tx''),
     sample_files(''receipt.json'' := File (C_Receipt \<lparr>mr_outcome = ''success'', mr_tx_hash = ''0xh'', mr_block_number = None,
       mr_contract_address = None, mr_revert_reason = None\<rparr>)))]\<rparr>"

theorem dependency_released_by_success_witness:
  "ensure_dependency_satisfied ob_ref ''main'' ''base'' ''0002-tx'' mined_box = Ok () \<and>
   is_ok (read_intent ob_ref (files_at mined_box (''main'', ''base'', Ob_Sent, ''0002-tx'') INTENT))"
proof -
  have f: "files_at mined_box (''main'', ''base'', Ob_Pending, ''0002-tx'') = (\<lambda>_. Absent)"
      "files_at mined_box (''main'', ''base'', Ob_Sent, ''0002-tx'') INTENT = File (C_Intent sample_transfer)"
      "files_at mined_box (''main'', ''base'', Ob_Sent, ''0002-tx'') RECEIPT_FILE =
         File (C_Receipt \<lparr>mr_outcome = ''success'', mr_tx_hash = ''0xh'', mr_block_number = None,
           mr_contract_address = None, mr_revert_reason = None\<rparr>)"
    by (simp_all add: mined_box_def files_at_def sample_files_def RECEIPT_FILE_def)
  have d: "dec_intent ob_ref (C_Intent sample_transfer) = Ok sample_transfer" "dec_receipt ob_ref (C_Receipt x) = Ok x" for x
    using sample_ok(2) by (simp_all add: ob_ref_def)
  have r: "outbox_read ob_ref ''main'' ''base'' ''0002-tx'' mined_box =
      Ok \<lparr>e_state = Ob_Sent, e_staged = sample_transfer, e_dir = (''main'', ''base'', Ob_Sent, ''0002-tx'')\<rparr>"
    by (simp add: outbox_read_def ALL_STATES_def state_dir_def sample_dir f d read_status_def)
  have "ensure_dependency_satisfied ob_ref ''main'' ''base'' ''0002-tx'' mined_box = Ok ()"
    by (simp add: ensure_dependency_satisfied_def r read_receipt_def read_json_def f d receipt_is_success_def)
  then show ?thesis using dependency_released_by_success by blast
qed

end
