(* ===== verification/Policy_Engine.thy ===== *)
theory Policy_Engine
  imports Policy
begin

text \<open>
  Policy checks of a staged transaction: \<open>crates/bloom-tx/src/policy_engine.rs\<close>. \<open>evaluate\<close> is
  split at the source's own section comments (caps, USD caps, lists, legacy blocks). The address
  type and its \<open>{:#x}\<close> rendering are the \<open>alloy\<close> crate's: a type variable and the parameter \<open>hx\<close>.
  The lemmas say exactly when an evaluation denies, that the class of every check follows its
  outcome, and what the floating-point cap means for the exact amount.
\<close>

record 'a address_context =
  ctx_contract :: "'a option"
  ctx_token :: "'a option"
  ctx_recipient :: "'a option"
  ctx_token_symbol :: "string option"
  destination_is_contract :: bool
  ctx_usd_value :: "f64 option"
  usd_spent_last_24h :: "f64 option"

section \<open>Lists\<close>

definition address_lc :: "('a \<Rightarrow> string) \<Rightarrow> 'a option \<Rightarrow> string option" where
  "address_lc hx a = map_option (\<lambda>x. to_ascii_lowercase (hx x)) a"

definition matches_one :: "string option \<Rightarrow> string option \<Rightarrow> string \<Rightarrow> bool" where
  "matches_one target symbol entry =
     (let e = trim entry in
      (case target of Some t \<Rightarrow> eq_ignore_ascii_case e t | None \<Rightarrow> False) \<or>
      (case symbol of Some s \<Rightarrow> eq_ignore_ascii_case e s | None \<Rightarrow> False))"

definition shown :: "string option \<Rightarrow> string option \<Rightarrow> string" where
  "shown target symbol =
     (case target of Some t \<Rightarrow> t | None \<Rightarrow> (case symbol of Some s \<Rightarrow> s | None \<Rightarrow> ''(unknown)''))"

definition check_allow_deny ::
  "string \<Rightarrow> policy_allow_deny \<Rightarrow> string option \<Rightarrow> string option \<Rightarrow> policy_check list" where
  "check_allow_deny sect block target symbol =
     (if ad_deny block \<noteq> {} \<and> (\<exists>s \<in> ad_deny block. matches_one target symbol s)
      then [hard (sect @ ''.deny'') Deny [S (shown target symbol), S '' on deny list'']] else []) @
     (if ad_allow block \<noteq> {} then
        if \<exists>s \<in> ad_allow block. matches_one target symbol s
        then [informational (sect @ ''.allow'') Pass [S (shown target symbol), S '' on allow list'']]
        else [hard (sect @ ''.allow'') Deny [S (shown target symbol), S '' not on allow list'']]
      else [])"

datatype list_mode = AllowMode | DenyMode

definition check_lists ::
  "('a \<Rightarrow> string) \<Rightarrow> string \<Rightarrow> string set \<Rightarrow> 'a option \<Rightarrow> list_mode \<Rightarrow> policy_check list" where
  "check_lists hx rule lst addr mode =
     (if lst = {} then []
      else case addr of
        None \<Rightarrow>
          (if mode = AllowMode
           then [hard rule Deny [S ''allowlist set but tx has no relevant address'']] else [])
      | Some target \<Rightarrow>
          (let target_lc = to_ascii_lowercase (hx target);
               hit = (\<exists>s \<in> lst. to_ascii_lowercase (trim s) = target_lc)
           in case (mode, hit) of
                (DenyMode, True) \<Rightarrow> [hard rule Deny [S target_lc, S '' is denylisted'']]
              | (DenyMode, False) \<Rightarrow> []
              | (AllowMode, True) \<Rightarrow> [informational rule Pass [S target_lc, S '' is on allowlist'']]
              | (AllowMode, False) \<Rightarrow> [hard rule Deny [S target_lc, S '' not on allowlist'']]))"

section \<open>Caps\<close>

definition effective_caps :: "wallet_policy \<Rightarrow> string \<Rightarrow> policy_caps" where
  "effective_caps p chain_name =
     (case per_chain p chain_name of
        Some per \<Rightarrow> most_restrictive (caps p) per
      | None \<Rightarrow> caps p)"

definition evaluate_caps :: "wallet_policy \<Rightarrow> policy_caps \<Rightarrow> string \<Rightarrow> f64 \<Rightarrow> policy_check list" where
  "evaluate_caps p eff value_human value_f =
     (case max_value_eth eff of
        None \<Rightarrow> []
      | Some cap \<Rightarrow>
          if f64_gt value_f cap
          then [hard ''caps.max_value_eth'' Deny [S ''value '', S value_human, S '' > max '', V cap]]
          else [informational ''caps.max_value_eth'' Pass
                  [S ''value '', S value_human, S '' <= max '', V cap]]) @
     (case require_override_above_eth eff of
        None \<Rightarrow> []
      | Some sft \<Rightarrow>
          if f64_gt value_f sft
          then [soft ''caps.require_override_above_eth'' Warn
                  [S ''value '', S value_human, S '' > soft '', V sft,
                   S ('' '' @ em_dash @ '' write '' @ backquote @ ''override'' @ backquote @ '' to confirm'')]]
          else []) @
     (case auto_confirm_below_eth (automation p) of
        None \<Rightarrow> []
      | Some below \<Rightarrow>
          if f64_le value_f below
          then [informational ''automation.auto_confirm_below_eth'' Pass
                  [S ''value within auto-confirm threshold'']]
          else [])"

definition evaluate_usd_quoted :: "policy_caps \<Rightarrow> f64 \<Rightarrow> f64 option \<Rightarrow> policy_check list" where
  "evaluate_usd_quoted eff usd spent =
     (case caps_per_tx_usd eff of
        None \<Rightarrow> []
      | Some cap \<Rightarrow>
          if f64_gt usd cap
          then [hard ''caps.per_tx_usd'' Deny [S ''usd '', V2 usd, S '' > max '', V2 cap]]
          else [informational ''caps.per_tx_usd'' Pass [S ''usd '', V2 usd, S '' <= max '', V2 cap]]) @
     (case require_confirm_above_usd eff of
        None \<Rightarrow> []
      | Some sft \<Rightarrow>
          if f64_gt usd sft
          then [soft ''caps.require_confirm_above_usd'' Warn
                  [S ''usd '', V2 usd, S '' > soft '', V2 sft,
                   S ('' '' @ em_dash @ '' write override token to confirm'')]]
          else []) @
     (case caps_per_day_usd eff of
        None \<Rightarrow> []
      | Some per_day \<Rightarrow>
          (case spent of
             Some prior \<Rightarrow>
               (let tot = f64_add prior usd in
                if f64_gt tot per_day
                then [hard ''caps.per_day_usd'' Deny
                        [S ''rolling 24h usd '', V2 prior, S '' + '', V2 usd, S '' > cap '', V2 per_day]]
                else [informational ''caps.per_day_usd'' Pass
                        [S ''rolling 24h usd '', V2 tot, S '' <= cap '', V2 per_day]])
           | None \<Rightarrow>
               [soft ''caps.per_day_usd'' Warn
                  [S ''per_day_usd cap '', V2 per_day,
                   S '' configured but rolling-window state unavailable'']]))"

definition any_usd_rule :: "policy_caps \<Rightarrow> bool" where
  "any_usd_rule eff \<longleftrightarrow> caps_per_tx_usd eff \<noteq> None \<or> require_confirm_above_usd eff \<noteq> None \<or>
     caps_per_day_usd eff \<noteq> None"

definition evaluate_usd :: "policy_caps \<Rightarrow> f64 option \<Rightarrow> f64 option \<Rightarrow> policy_check list" where
  "evaluate_usd eff usd_value spent =
     (case (any_usd_rule eff, usd_value) of
        (True, Some usd) \<Rightarrow> evaluate_usd_quoted eff usd spent
      | (True, None) \<Rightarrow>
          [soft ''caps.usd'' Warn
             [S ''USD caps configured but no price quote available; rule skipped'']]
      | (False, _) \<Rightarrow> [])"

definition evaluate_lists ::
  "('a \<Rightarrow> string) \<Rightarrow> wallet_policy \<Rightarrow> 'a address_context \<Rightarrow> policy_check list" where
  "evaluate_lists hx p ctx =
     check_lists hx ''denylists.contracts'' (l_contracts (denylists p)) (ctx_contract ctx) DenyMode @
     check_lists hx ''denylists.tokens'' (l_tokens (denylists p)) (ctx_token ctx) DenyMode @
     check_lists hx ''denylists.recipients'' (l_recipients (denylists p)) (ctx_recipient ctx) DenyMode @
     check_lists hx ''allowlists.contracts'' (l_contracts (allowlists p)) (ctx_contract ctx) AllowMode @
     check_lists hx ''allowlists.tokens'' (l_tokens (allowlists p)) (ctx_token ctx) AllowMode @
     check_lists hx ''allowlists.recipients'' (l_recipients (allowlists p)) (ctx_recipient ctx) AllowMode"

definition evaluate_legacy ::
  "('a \<Rightarrow> string) \<Rightarrow> wallet_policy \<Rightarrow> 'a address_context \<Rightarrow> policy_check list" where
  "evaluate_legacy hx p ctx =
     (if destination_is_contract ctx
      then check_allow_deny ''contracts'' (contracts p) (address_lc hx (ctx_contract ctx)) None
      else []) @
     (if ctx_token ctx \<noteq> None
      then check_allow_deny ''tokens'' (tokens p) (address_lc hx (ctx_token ctx)) (ctx_token_symbol ctx)
      else [])"

definition value_as_f64 :: "u256_lib \<Rightarrow> nat \<Rightarrow> nat \<Rightarrow> f64" where
  "value_as_f64 L value_wei decimals =
     (case f64_from_str (format_units L value_wei decimals) of Some x \<Rightarrow> x | None \<Rightarrow> F_fin 0)"

definition evaluate ::
  "u256_lib \<Rightarrow> ('a \<Rightarrow> string) \<Rightarrow> wallet_policy \<Rightarrow> string \<Rightarrow> nat \<Rightarrow> nat \<Rightarrow> 'a address_context \<Rightarrow>
   policy_check list" where
  "evaluate L hx p chain_name value_wei native_decimals ctx =
     (let value_human = format_units L value_wei native_decimals;
          value_f = value_as_f64 L value_wei native_decimals;
          eff = effective_caps p chain_name
      in evaluate_caps p eff value_human value_f @
         evaluate_usd eff (ctx_usd_value ctx) (usd_spent_last_24h ctx) @
         evaluate_lists hx p ctx @ evaluate_legacy hx p ctx)"

definition has_hard_violation :: "policy_check list \<Rightarrow> bool" where
  "has_hard_violation cs \<longleftrightarrow> list_ex (\<lambda>c. chk_outcome c = Deny) cs"

definition has_warning :: "policy_check list \<Rightarrow> bool" where
  "has_warning cs \<longleftrightarrow> list_ex (\<lambda>c. chk_outcome c = Warn) cs"

section \<open>Class and outcome\<close>

definition classified :: "policy_check \<Rightarrow> bool" where
  "classified c \<longleftrightarrow> chk_class c = for_outcome (chk_outcome c)"

lemma classified_simps [simp]:
  "classified (hard r Deny m)" "classified (soft r Warn m)" "classified (informational r Pass m)"
  "classified (for_venue v r out m)"
  by (simp_all add: classified_def check_defs)

lemma outcome_simps [simp]:
  "chk_outcome (hard r out m) = out" "chk_outcome (soft r out m) = out"
  "chk_outcome (informational r out m) = out" "chk_outcome (for_venue v r out m) = out"
  "chk_rule (hard r out m) = r" "chk_rule (soft r out m) = r"
  "chk_rule (informational r out m) = r" "chk_rule (for_venue v r out m) = v @ ''.'' @ r"
  by (simp_all add: check_defs)

lemma classified_violations:
  assumes "classified c"
  shows "is_hard_violation c \<longleftrightarrow> chk_outcome c = Deny" "is_soft_violation c \<longleftrightarrow> chk_outcome c = Warn"
  using assms by (cases "chk_outcome c"; simp add: classified_def check_defs)+

lemma list_ex_cong_mem: "(\<And>x. x \<in> set xs \<Longrightarrow> P x = Q x) \<Longrightarrow> list_ex P xs = list_ex Q xs"
  by (auto simp: list_ex_iff)

lemma classified_list:
  assumes "list_all classified cs"
  shows "has_deny cs \<longleftrightarrow> has_hard_violation cs" "has_soft_violation cs \<longleftrightarrow> has_warning cs"
  using assms
  by (auto simp: has_deny_def has_hard_violation_def has_soft_violation_def has_warning_def
      list_all_iff classified_violations intro!: list_ex_cong_mem)

lemma classified_parts:
  "list_all classified (evaluate_caps p eff h f)"
  "list_all classified (evaluate_usd eff u sp)"
  "list_all classified (check_lists hx r l a m)"
  "list_all classified (check_allow_deny sect b t y)"
  by (auto simp: evaluate_caps_def evaluate_usd_def evaluate_usd_quoted_def check_lists_def
      check_allow_deny_def Let_def split: option.splits list_mode.splits bool.splits)

text \<open>
  in every result of \<open>evaluate\<close> the class of a check is the one of its outcome, so the engine's
  test for a denial (\<open>has_hard_violation\<close>, any outcome \<open>Deny\<close>) and the authorizer's
  (\<open>has_deny\<close>, class and outcome) agree, and so do the two tests for a warning.
\<close>

theorem evaluate_classified:
  "let cs = evaluate L hx p chain_name value_wei decimals ctx
   in list_all classified cs \<and> has_deny cs = has_hard_violation cs \<and>
      has_soft_violation cs = has_warning cs"
proof -
  have "list_all classified (evaluate L hx p chain_name value_wei decimals ctx)"
    by (simp add: evaluate_def Let_def evaluate_lists_def evaluate_legacy_def classified_parts)
  then show ?thesis using classified_list by (simp add: Let_def)
qed

section \<open>When an evaluation denies\<close>

definition list_hit :: "('a \<Rightarrow> string) \<Rightarrow> string set \<Rightarrow> 'a \<Rightarrow> bool" where
  "list_hit hx lst a \<longleftrightarrow> (\<exists>s \<in> lst. to_ascii_lowercase (trim s) = to_ascii_lowercase (hx a))"

definition denylisted :: "('a \<Rightarrow> string) \<Rightarrow> string set \<Rightarrow> 'a option \<Rightarrow> bool" where
  "denylisted hx lst a \<longleftrightarrow> (\<exists>x. a = Some x \<and> list_hit hx lst x)"

definition not_allowlisted :: "('a \<Rightarrow> string) \<Rightarrow> string set \<Rightarrow> 'a option \<Rightarrow> bool" where
  "not_allowlisted hx lst a \<longleftrightarrow> lst \<noteq> {} \<and> \<not> (\<exists>x. a = Some x \<and> list_hit hx lst x)"

definition block_denies :: "policy_allow_deny \<Rightarrow> string option \<Rightarrow> string option \<Rightarrow> bool" where
  "block_denies b t y \<longleftrightarrow> (\<exists>s \<in> ad_deny b. matches_one t y s) \<or>
     ad_allow b \<noteq> {} \<and> \<not> (\<exists>s \<in> ad_allow b. matches_one t y s)"

definition usd_denies :: "policy_caps \<Rightarrow> f64 option \<Rightarrow> f64 option \<Rightarrow> bool" where
  "usd_denies eff usd spent \<longleftrightarrow> (\<exists>u. usd = Some u \<and>
     (exceeds u (caps_per_tx_usd eff) \<or>
      (\<exists>prior. spent = Some prior \<and> exceeds (f64_add prior u) (caps_per_day_usd eff))))"

lemma violation_append [simp]:
  "has_hard_violation (xs @ ys) \<longleftrightarrow> has_hard_violation xs \<or> has_hard_violation ys"
  "\<not> has_hard_violation []"
  by (simp_all add: has_hard_violation_def)

lemma violation_single [simp]: "has_hard_violation [c] \<longleftrightarrow> chk_outcome c = Deny"
  by (simp add: has_hard_violation_def)

lemma violation_parts [simp]:
  "has_hard_violation (check_lists hx r l a DenyMode) \<longleftrightarrow> denylisted hx l a"
  "has_hard_violation (check_lists hx r l a AllowMode) \<longleftrightarrow> not_allowlisted hx l a"
  "has_hard_violation (check_allow_deny sect b t y) \<longleftrightarrow> block_denies b t y"
  "has_hard_violation (evaluate_caps p eff h f) \<longleftrightarrow> exceeds f (max_value_eth eff)"
  by (auto simp: check_lists_def denylisted_def not_allowlisted_def list_hit_def block_denies_def
      check_allow_deny_def evaluate_caps_def exceeds_def Let_def split: option.splits bool.splits)

lemma violation_usd [simp]: "has_hard_violation (evaluate_usd eff usd spent) \<longleftrightarrow> usd_denies eff usd spent"
  by (auto simp: evaluate_usd_def evaluate_usd_quoted_def usd_denies_def exceeds_def any_usd_rule_def
      Let_def split: option.splits bool.splits)

text \<open>
  C20: exactly when \<open>evaluate\<close> denies. A transaction is denied if and only if its value exceeds the
  effective cap, its USD value exceeds the per-transaction or rolling daily USD cap, one of its
  addresses is on a deny list or missing from a non-empty allow list, or a legacy contract or token
  block rejects it.
\<close>

theorem evaluate_denies_iff:
  "has_hard_violation (evaluate L hx p chain_name value_wei decimals ctx) \<longleftrightarrow>
     exceeds (value_as_f64 L value_wei decimals) (max_value_eth (effective_caps p chain_name)) \<or>
     usd_denies (effective_caps p chain_name) (ctx_usd_value ctx) (usd_spent_last_24h ctx) \<or>
     denylisted hx (l_contracts (denylists p)) (ctx_contract ctx) \<or>
     denylisted hx (l_tokens (denylists p)) (ctx_token ctx) \<or>
     denylisted hx (l_recipients (denylists p)) (ctx_recipient ctx) \<or>
     not_allowlisted hx (l_contracts (allowlists p)) (ctx_contract ctx) \<or>
     not_allowlisted hx (l_tokens (allowlists p)) (ctx_token ctx) \<or>
     not_allowlisted hx (l_recipients (allowlists p)) (ctx_recipient ctx) \<or>
     destination_is_contract ctx \<and>
       block_denies (contracts p) (address_lc hx (ctx_contract ctx)) None \<or>
     ctx_token ctx \<noteq> None \<and>
       block_denies (tokens p) (address_lc hx (ctx_token ctx)) (ctx_token_symbol ctx)"
  unfolding evaluate_def Let_def evaluate_lists_def evaluate_legacy_def by auto

section \<open>Per-chain caps\<close>

lemma usd_denies_merge:
  "usd_denies (most_restrictive a b) u sp \<longleftrightarrow> usd_denies a u sp \<or> usd_denies b u sp"
  by (auto simp: usd_denies_def most_restrictive_def)

text \<open>
  the caps of a chain and the global caps are both enforced. With a per-chain entry, the caps
  deny a transaction exactly when the global caps or the chain's caps alone would deny it, so a
  per-chain entry can only add denials.
\<close>

theorem per_chain_caps_only_tighten:
  "per_chain p chain_name = Some per \<Longrightarrow>
   let eff = effective_caps p chain_name in
     (exceeds v (max_value_eth eff) \<longleftrightarrow> exceeds v (max_value_eth (caps p)) \<or> exceeds v (max_value_eth per)) \<and>
     (usd_denies eff u sp \<longleftrightarrow> usd_denies (caps p) u sp \<or> usd_denies per u sp)"
  by (simp add: effective_caps_def usd_denies_merge Let_def) (simp add: most_restrictive_def)

definition sample_caps :: "rat \<Rightarrow> policy_caps" where
  "sample_caps x = policy_caps_default\<lparr>max_value_eth := Some (F_fin x)\<rparr>"

theorem per_chain_caps_only_tighten_witness:
  "let p = permissive\<lparr>caps := sample_caps 5, per_chain := [''base'' \<mapsto> sample_caps 1]\<rparr> in
   per_chain p ''base'' = Some (sample_caps 1) \<and>
   exceeds (F_fin 2) (max_value_eth (effective_caps p ''base''))"
  using per_chain_caps_only_tighten[of
      "permissive\<lparr>caps := sample_caps 5, per_chain := [''base'' \<mapsto> sample_caps 1]\<rparr>" "''base''"
      "sample_caps 1" "F_fin 2" None None]
  by (simp add: Let_def sample_caps_def exceeds_def)

section \<open>What the floating-point cap means\<close>

lemma dec_rat_scaled:
  assumes "length G \<le> d" "scaled W G d = v"
  shows "dec_rat W G = of_nat v / 10 ^ d"
proof -
  have "v = dec_val (W @ G) * 10 ^ (d - length G)"
    using assms by (auto simp: scaled_def dec_val_append add_mult_distrib power_add[symmetric])
  then have "of_nat v = (of_nat (dec_val (W @ G)) :: rat) * 10 ^ (d - length G)" by simp
  moreover have "(10 :: rat) ^ d = 10 ^ length G * 10 ^ (d - length G)"
    using assms(1) by (simp flip: power_add)
  ultimately show ?thesis by (simp add: dec_rat_def)
qed

lemma value_as_f64_exact:
  assumes "u256_lib_ok L" "v < u256_bound"
  shows "value_as_f64 L v d = f64_of_rat (of_nat v / 10 ^ d)"
proof -
  obtain W G where G: "all_digits W" "W \<noteq> []" "all_digits G" "length G \<le> d" "scaled W G d = v"
    "format_units L v d = numeral_of W G (G \<noteq> [])" using format_units_shape[OF assms] by blast
  have "numeral_of W G (G \<noteq> []) = W @ (if G = [] then [] else CHR ''.'' # G)"
    by (simp add: numeral_of_def)
  then show ?thesis
    using f64_from_str_numeral[OF G(1,3,2)] dec_rat_scaled[OF G(4,5)] G(6)
    by (simp add: value_as_f64_def)
qed

lemma tiny_unit: "d < 256 \<Longrightarrow> pow2 (- 1022) \<le> 1 / 10 ^ d"
proof -
  assume "d < 256"
  then have "(10 :: rat) ^ d \<le> 10 ^ 255" by (intro power_increasing) auto
  also have "\<dots> \<le> 16 ^ 255" by (rule power_mono) auto
  also have "\<dots> = (2 ^ 4) ^ 255" by simp
  also have "\<dots> = 2 ^ (4 * 255)" by (simp only: power_mult)
  also have "\<dots> \<le> 2 ^ 1022" by (rule power_increasing) auto
  finally show ?thesis by (simp add: pow2_def frac_le)
qed

text \<open>
  the native-value cap compares the amount as an \<open>f64\<close>. It never denies an amount at or below
  the cap, and an amount it lets through exceeds the cap by less than one part in \<open>2 ^ 52\<close>: for a
  finite cap \<open>c\<close>, denied implies \<open>value > c\<close>, and not denied implies \<open>value * (1 - 2^-53) \<le> c\<close>, with
  \<open>value\<close> the exact amount in whole units.
\<close>

theorem value_cap_precision:
  assumes "u256_lib_ok L" "v < u256_bound" "d < 256" "f64_valid (F_fin c)" "0 \<le> c"
  shows "(exceeds (value_as_f64 L v d) (Some (F_fin c)) \<longrightarrow> c < of_nat v / 10 ^ d) \<and>
    (\<not> exceeds (value_as_f64 L v d) (Some (F_fin c)) \<longrightarrow>
       of_nat v / 10 ^ d * (1 - pow2 (- 53)) \<le> c)"
proof -
  let ?q = "of_nat v / 10 ^ d :: rat"
  have f: "value_as_f64 L v d = f64_of_rat ?q" by (rule value_as_f64_exact[OF assms(1,2)])
  have "?q * (1 - pow2 (- 53)) \<le> c" if n: "\<not> f64_gt (f64_of_rat ?q) (F_fin c)"
  proof (cases "v = 0")
    case False
    then have "1 / 10 ^ d \<le> ?q" by (simp add: divide_right_mono)
    then show ?thesis using tiny_unit[OF assms(3)] n by (intro f64_not_gt_bound) auto
  qed (use assms(5) in simp)
  then show ?thesis using f f64_gt_exact[OF assms(4), of ?q] by (simp add: exceeds_def)
qed

theorem value_cap_precision_witness:
  "u256_lib_ok u256_ref \<and> f64_valid (F_fin 1) \<and>
   \<not> exceeds (value_as_f64 u256_ref 999999999999999999 18) (Some (F_fin 1))"
proof -
  have "f64_valid (F_fin 1)" by code_simp
  moreover have "\<not> (1 :: rat) < of_nat 999999999999999999 / 10 ^ 18" "(999999999999999999 :: nat) < u256_bound"
    by simp_all
  moreover have "(18 :: nat) < 256" "(0 :: rat) \<le> 1" by simp_all
  ultimately show ?thesis using value_cap_precision[OF u256_ref_ok] u256_ref_ok by blast
qed

text \<open>
  the cap is not exact. The cap's documentation says any value above it is rejected; with
  \<open>max_value_eth = 1\<close>, a transaction of one ether and one wei is not denied by any check.
\<close>

theorem one_wei_over_cap_passes:
  "let p = permissive\<lparr>caps := sample_caps 1\<rparr>;
       ctx = \<lparr>ctx_contract = None, ctx_token = None, ctx_recipient = None, ctx_token_symbol = None,
              destination_is_contract = False, ctx_usd_value = None, usd_spent_last_24h = None\<rparr>
   in \<not> has_hard_violation (evaluate u256_ref id p ''ethereum'' (10 ^ 18 + 1) 18 ctx)"
proof -
  have "value_as_f64 u256_ref (10 ^ 18 + 1) 18 = F_fin 1" by code_simp
  then show ?thesis
    by (simp add: Let_def evaluate_def evaluate_lists_def evaluate_legacy_def effective_caps_def
        sample_caps_def exceeds_def usd_denies_def denylisted_def not_allowlisted_def list_hit_def
        policy_defaults)
qed

end
