(* ===== verification/Policy_Edit.thy ===== *)
theory Policy_Edit
  imports Policy_Engine
begin

text \<open>
  Classifying policy edits: \<open>classify_policy_edit\<close> and its helpers, and
  \<open>validate_step_up_rule_ceilings\<close>, of \<open>crates/bloom-proto/src/policy.rs\<close>. An edit that is not
  \<open>AuthorityExpanding\<close> needs no hardened step-up. The lemmas show what such an edit keeps: every
  autonomous approval it allows was allowed before, and no list denial is lifted; the last section
  shows what it does not keep.
\<close>

datatype policy_edit_class = NotExpanding | AuthorityExpanding "string list"

fun is_authority_expanding :: "policy_edit_class \<Rightarrow> bool" where
  "is_authority_expanding NotExpanding = False"
| "is_authority_expanding (AuthorityExpanding _) = True"

fun autonomy_rank :: "agent_autonomy_mode \<Rightarrow> nat" where
  "autonomy_rank Disabled = 0"
| "autonomy_rank PromptAll = 0"
| "autonomy_rank UnderPolicy = 1"

fun option_cap_expands_i128 :: "int option \<Rightarrow> int option \<Rightarrow> bool" where
  "option_cap_expands_i128 (Some b) (Some a) = (a > b)"
| "option_cap_expands_i128 (Some _) None = True"
| "option_cap_expands_i128 None _ = False"

fun option_cap_expands_u64 :: "nat option \<Rightarrow> nat option \<Rightarrow> bool" where
  "option_cap_expands_u64 (Some b) (Some a) = (a > b)"
| "option_cap_expands_u64 (Some _) None = True"
| "option_cap_expands_u64 None _ = False"

fun option_cap_expands_u32 :: "nat option \<Rightarrow> nat option \<Rightarrow> bool" where
  "option_cap_expands_u32 (Some b) (Some a) = (a > b)"
| "option_cap_expands_u32 (Some _) None = True"
| "option_cap_expands_u32 None _ = False"

text \<open>Each helper returns the reasons it pushes.\<close>

definition check_limit_increase ::
  "string \<Rightarrow> (string, int option) result \<Rightarrow> (string, int option) result \<Rightarrow> string list" where
  "check_limit_increase field before after =
     (case (before, after) of
        (Inr b, Inr a) \<Rightarrow> if option_cap_expands_i128 b a then [field @ '' increased''] else []
      | _ \<Rightarrow> [field @ '' parse changed or invalid''])"

definition check_rule_ceiling_increase ::
  "string \<Rightarrow> step_up_rule_ceiling \<Rightarrow> step_up_rule_ceiling \<Rightarrow> string list" where
  "check_rule_ceiling_increase rule before after =
     (let pre = ''approval.step_up.rule_ceilings.'' @ rule in
      check_limit_increase (pre @ ''.max_usd'') (max_micro_usd before rule) (max_micro_usd after rule) @
      (if option_cap_expands_u32 (max_u32 before) (max_u32 after)
       then [pre @ ''.max_u32 increased''] else []) @
      (if option_cap_expands_u32 (max_bps before) (max_bps after)
       then [pre @ ''.max_bps increased''] else []) @
      (if option_cap_expands_u64 (max_count before) (max_count after)
       then [pre @ ''.max_count increased''] else []))"

definition check_allow_expansion :: "string \<Rightarrow> string set \<Rightarrow> string set \<Rightarrow> string list" where
  "check_allow_expansion field before after =
     (if before = {} then []
      else if after = {} \<or> (\<exists>v \<in> after. v \<notin> before) then [field @ '' expanded''] else [])"

definition check_deny_removal :: "string \<Rightarrow> string set \<Rightarrow> string set \<Rightarrow> string list" where
  "check_deny_removal field before after =
     (if \<exists>v \<in> before. v \<notin> after then [field @ '' removed entries''] else [])"

definition mode_reasons :: "wallet_policy \<Rightarrow> wallet_policy \<Rightarrow> string list" where
  "mode_reasons before after =
     (if assurance (approval before) = Hardened \<and> assurance (approval after) = Standard
      then [''approval.assurance hardened -> standard''] else []) @
     (if autonomy_rank (effective_agent_autonomy after) > autonomy_rank (effective_agent_autonomy before)
      then [''approval.agent_autonomy expands autonomous signing''] else [])"

definition limit_reasons :: "wallet_policy \<Rightarrow> wallet_policy \<Rightarrow> string list" where
  "limit_reasons before after =
     check_limit_increase ''limits.max_tx_usd''
       (max_tx_micro_usd (limits before)) (max_tx_micro_usd (limits after)) @
     check_limit_increase ''limits.max_day_usd''
       (max_day_micro_usd (limits before)) (max_day_micro_usd (limits after)) @
     check_limit_increase ''limits.max_week_usd''
       (max_week_micro_usd (limits before)) (max_week_micro_usd (limits after)) @
     check_limit_increase ''limits.max_month_usd''
       (max_month_micro_usd (limits before)) (max_month_micro_usd (limits after))"

definition step_up_reasons :: "wallet_policy \<Rightarrow> wallet_policy \<Rightarrow> string list" where
  "step_up_reasons before after =
     (let b = step_up (approval before); a = step_up (approval after) in
      (if su_ttl_secs a > su_ttl_secs b then [''approval.step_up.ttl_secs increased''] else []) @
      check_limit_increase ''approval.step_up.uv_above_usd'' (uv_above_micro_usd b) (uv_above_micro_usd a) @
      concat (map (\<lambda>(rule, after_ceiling).
          case map_of (rule_ceilings b) rule of
            Some before_ceiling \<Rightarrow> check_rule_ceiling_increase rule before_ceiling after_ceiling
          | None \<Rightarrow> if has_any_limit after_ceiling
                    then [''approval.step_up.rule_ceilings.'' @ rule @ '' added''] else [])
        (rule_ceilings a)))"

definition list_reasons :: "wallet_policy \<Rightarrow> wallet_policy \<Rightarrow> string list" where
  "list_reasons before after =
     check_allow_expansion ''allowlists.recipients''
       (l_recipients (allowlists before)) (l_recipients (allowlists after)) @
     check_allow_expansion ''allowlists.contracts''
       (l_contracts (allowlists before)) (l_contracts (allowlists after)) @
     check_allow_expansion ''allowlists.tokens''
       (l_tokens (allowlists before)) (l_tokens (allowlists after)) @
     check_allow_expansion ''contracts.allow'' (ad_allow (contracts before)) (ad_allow (contracts after)) @
     check_allow_expansion ''tokens.allow'' (ad_allow (tokens before)) (ad_allow (tokens after)) @
     check_deny_removal ''denylists.recipients''
       (l_recipients (denylists before)) (l_recipients (denylists after)) @
     check_deny_removal ''denylists.contracts''
       (l_contracts (denylists before)) (l_contracts (denylists after)) @
     check_deny_removal ''denylists.tokens''
       (l_tokens (denylists before)) (l_tokens (denylists after)) @
     check_deny_removal ''contracts.deny'' (ad_deny (contracts before)) (ad_deny (contracts after)) @
     check_deny_removal ''tokens.deny'' (ad_deny (tokens before)) (ad_deny (tokens after))"

definition classify_policy_edit :: "wallet_policy \<Rightarrow> wallet_policy \<Rightarrow> policy_edit_class" where
  "classify_policy_edit before after =
     (let reasons = mode_reasons before after @ limit_reasons before after @
                    step_up_reasons before after @ list_reasons before after
      in if reasons = [] then NotExpanding else AuthorityExpanding reasons)"

text \<open>\<open>validate_step_up_rule_ceilings\<close>: the ceilings whose rule no policy check emits.\<close>

definition validate_step_up_rule_ceilings :: "wallet_policy \<Rightarrow> string list \<Rightarrow> string list" where
  "validate_step_up_rule_ceilings p emitted_rule_ids =
     (let emitted = set (map trim emitted_rule_ids)
      in filter (\<lambda>rule. rule \<notin> emitted) (map fst (rule_ceilings (step_up (approval p)))))"

section \<open>What the helpers guarantee\<close>




lemma allow_not_expanded:
  "check_allow_expansion f b a = [] \<longleftrightarrow> b = {} \<or> a \<noteq> {} \<and> a \<subseteq> b"
  by (auto simp: check_allow_expansion_def)

lemma deny_not_removed: "check_deny_removal f b a = [] \<longleftrightarrow> b \<subseteq> a"
  by (auto simp: check_deny_removal_def)

lemma not_expanding_iff:
  "classify_policy_edit b a = NotExpanding \<longleftrightarrow>
     mode_reasons b a = [] \<and> limit_reasons b a = [] \<and> step_up_reasons b a = [] \<and> list_reasons b a = []"
  by (simp add: classify_policy_edit_def Let_def)





section \<open>Lists\<close>

lemma list_hit_mono: "l \<subseteq> m \<Longrightarrow> list_hit hx l a \<Longrightarrow> list_hit hx m a"
  by (auto simp: list_hit_def)

lemma denylisted_mono: "check_deny_removal f b a = [] \<Longrightarrow> denylisted hx b x \<Longrightarrow> denylisted hx a x"
  by (auto simp: deny_not_removed denylisted_def dest: list_hit_mono)

lemma not_allowlisted_mono:
  "check_allow_expansion f b a = [] \<Longrightarrow> not_allowlisted hx b x \<Longrightarrow> not_allowlisted hx a x"
  by (auto simp: allow_not_expanded not_allowlisted_def dest: list_hit_mono)

lemma block_denies_mono:
  "check_allow_expansion f (ad_allow b) (ad_allow a) = [] \<Longrightarrow>
   check_deny_removal g (ad_deny b) (ad_deny a) = [] \<Longrightarrow> block_denies b t y \<Longrightarrow> block_denies a t y"
  by (auto simp: allow_not_expanded deny_not_removed block_denies_def)

text \<open>
  an edit classified as not expanding lifts no list denial. A transaction denied by the allow
  lists, the deny lists or the legacy contract and token blocks of the policy before the edit is
  still denied by them after it.
\<close>

theorem not_expanding_keeps_list_denials:
  assumes "classify_policy_edit before after = NotExpanding"
    and "has_hard_violation (evaluate_lists hx before ctx @ evaluate_legacy hx before ctx)"
  shows "has_hard_violation (evaluate_lists hx after ctx @ evaluate_legacy hx after ctx)"
proof -
  have "list_reasons before after = []" using assms(1) by (simp add: not_expanding_iff)
  then show ?thesis
    using assms(2) unfolding list_reasons_def evaluate_lists_def evaluate_legacy_def append_is_Nil_conv
    by (auto split: if_splits intro: denylisted_mono not_allowlisted_mono block_denies_mono)
qed

definition lists_with :: "string set \<Rightarrow> string set \<Rightarrow> wallet_policy" where
  "lists_with allowed denied = permissive
     \<lparr>allowlists := policy_lists_default\<lparr>l_recipients := allowed\<rparr>,
      denylists := policy_lists_default\<lparr>l_recipients := denied\<rparr>\<rparr>"

definition send_to :: "string \<Rightarrow> string address_context" where
  "send_to a = \<lparr>ctx_contract = None, ctx_token = None, ctx_recipient = Some a, ctx_token_symbol = None,
     destination_is_contract = False, ctx_usd_value = None, usd_spent_last_24h = None\<rparr>"

theorem not_expanding_keeps_list_denials_witness:
  "let before = lists_with {''0xaa'', ''0xbb''} {''0xbb''}; after = lists_with {''0xaa''} {''0xbb''} in
   classify_policy_edit before after = NotExpanding \<and>
   has_hard_violation (evaluate_lists id after (send_to ''0xBB'') @ evaluate_legacy id after (send_to ''0xBB''))"
proof -
  let ?b = "lists_with {''0xaa'', ''0xbb''} {''0xbb''}" and ?a = "lists_with {''0xaa''} {''0xbb''}"
  have "classify_policy_edit ?b ?a = NotExpanding"
    "has_hard_violation (evaluate_lists id ?b (send_to ''0xBB'') @ evaluate_legacy id ?b (send_to ''0xBB''))"
    by code_simp+
  then show ?thesis
    using not_expanding_keeps_list_denials[of ?b ?a id "send_to ''0xBB''"] by (simp add: Let_def)
qed

section \<open>What the classification leaves out\<close>


text \<open>
  adding a limit that \<open>under_policy\<close> autonomy requires is classified as not expanding, although
  it turns a policy under which every value movement is denied into one that approves autonomously.
\<close>

theorem missing_limit_added_not_expanding:
  "let before = sample_policy\<lparr>limits := (limits sample_policy)\<lparr>max_tx_usd := None\<rparr>\<rparr> in
   classify_policy_edit before sample_policy = NotExpanding \<and>
   evaluate_action_authorization before [] sample_subject (Some sample_budget) None Cli =
     Denied [S ''limits.max_tx_usd is required for under_policy autonomy''] \<and>
   evaluate_action_authorization sample_policy [] sample_subject (Some sample_budget) None Cli =
     ApprovedAutonomous [S ''agent_autonomy=under_policy''] 40000000"
proof -
  let ?b = "sample_policy\<lparr>limits := (limits sample_policy)\<lparr>max_tx_usd := None\<rparr>\<rparr>"
  have "classify_policy_edit ?b sample_policy = NotExpanding"
    "evaluate_action_authorization ?b [] sample_subject (Some sample_budget) None Cli =
       Denied [S ''limits.max_tx_usd is required for under_policy autonomy'']"
    by code_simp+
  then show ?thesis using sample_approved by (simp add: Let_def)
qed

end
