(* ===== verification/Defi_Policy.thy ===== *)
theory Defi_Policy
  imports Policy_Engine
begin

text \<open>
  DeFi route policy: \<open>crates/bloom-proto/src/defi_policy.rs\<close>. \<open>evaluate_defi_route\<close> is split at the
  source's own section comments. \<open>str::to_lowercase\<close> follows the Unicode tables, which are not
  reproduced: it is the parameter \<open>lc\<close>, and nothing is assumed of it. The lemmas give the exact
  condition under which a route is not denied, and that the default policy denies every route.
\<close>

datatype receiver_class = WalletEoa | AddressbookAlias | KnownSystemAddress | Unknown

fun receiver_class_str :: "receiver_class \<Rightarrow> string" where
  "receiver_class_str WalletEoa = ''wallet_eoa''"
| "receiver_class_str AddressbookAlias = ''addressbook_alias''"
| "receiver_class_str KnownSystemAddress = ''known_system_address''"
| "receiver_class_str Unknown = ''unknown''"

record defi_route_ctx =
  route_wallet :: string
  source_chain :: string
  destination_chain :: string
  cross_chain :: bool
  receiver :: string
  token_out :: string
  route_receiver_class :: receiver_class
  router :: string
  protocols :: "string list"
  protocols_unknown :: bool
  input_microusd :: "nat option"
  native_value_wei :: nat
  min_out_enforced :: bool
  receiver_verified :: bool

definition defi_check :: "string \<Rightarrow> policy_outcome \<Rightarrow> message \<Rightarrow> policy_check" where
  "defi_check rule outcome m = for_venue ''defi'' rule outcome m"

definition receiver_literal :: "(string \<Rightarrow> string) \<Rightarrow> defi_route_ctx \<Rightarrow> string" where
  "receiver_literal lc ctx =
     lc (destination_chain ctx) @ '':'' @ lc (token_out ctx) @ '':'' @ lc (receiver ctx)"

definition receiver_set_matches :: "(string \<Rightarrow> string) \<Rightarrow> string set \<Rightarrow> defi_route_ctx \<Rightarrow> bool" where
  "receiver_set_matches lc rs ctx \<longleftrightarrow>
     receiver_literal lc ctx \<in> rs \<or> ''class:'' @ receiver_class_str (route_receiver_class ctx) \<in> rs"

section \<open>The evaluation\<close>

definition defi_master_gate :: "defi_policy \<Rightarrow> policy_check list" where
  "defi_master_gate p =
     (if \<not> defi_enabled p then
        [defi_check ''enabled'' Deny
           [S ''generic DeFi routes are disabled for this wallet; set [defi] enabled = true in the wallet policy to opt in'']]
      else [defi_check ''enabled'' Pass [S ''DeFi routes enabled'']])"

definition defi_chains :: "(string \<Rightarrow> string) \<Rightarrow> defi_policy \<Rightarrow> defi_route_ctx \<Rightarrow> policy_check list" where
  "defi_chains lc p ctx =
     (if \<exists>c \<in> allowed_source_chains p. lc c = lc (source_chain ctx) then
        [defi_check ''source_chain'' Pass [S ''source chain '', S (source_chain ctx), S '' allowed'']]
      else
        [defi_check ''source_chain'' Deny
           [S ''source chain '', S (source_chain ctx),
            S '' not allowed; add it to [defi] allowed_source_chains'']]) @
     (if cross_chain ctx then
        if \<exists>c \<in> allowed_destination_chains p. lc c = lc (destination_chain ctx) then
          [defi_check ''destination_chain'' Pass
             [S ''destination chain '', S (destination_chain ctx), S '' allowed'']]
        else
          [defi_check ''destination_chain'' Deny
             [S ''destination chain '', S (destination_chain ctx),
              S '' not allowed; add it to [defi] allowed_destination_chains'']]
      else [])"

definition defi_receiver :: "(string \<Rightarrow> string) \<Rightarrow> defi_policy \<Rightarrow> defi_route_ctx \<Rightarrow> policy_check list" where
  "defi_receiver lc p ctx =
     (let cls = receiver_class_str (route_receiver_class ctx) in
      if receiver_set_matches lc (denied_receivers p) ctx then
        [defi_check ''receiver'' Deny
           [S ''receiver '', S (receiver ctx), S '' ('', S cls, S '') is denylisted'']]
      else if receiver_set_matches lc (allowed_receivers p) ctx then
        [defi_check ''receiver'' Pass
           [S ''receiver '', S (receiver ctx), S '' permitted ('', S cls, S '')'']]
      else
        [defi_check ''receiver'' Deny
           [S ''receiver '', S (receiver ctx), S '' ('', S cls,
            S ('') is not allowlisted; add '' @ [CHR 0x22]), S (receiver_literal lc ctx),
            S ([CHR 0x22] @ '' or '' @ [CHR 0x22] @ ''class:''), S cls,
            S ([CHR 0x22] @ '' to [defi] allowed_receivers'')]])"

definition defi_receiver_verified :: "defi_policy \<Rightarrow> defi_route_ctx \<Rightarrow> policy_check list" where
  "defi_receiver_verified p ctx =
     (if \<not> receiver_verified ctx then
        (let outcome = (if cross_chain ctx \<or> \<not> require_calldata_verification p then Warn else Deny);
             m = (if cross_chain ctx then
                    ''cross-chain receiver is from the route request, not yet proven on the destination chain ''
                    @ em_dash @ '' enforced at settlement (wait_settlement)''
                  else if require_calldata_verification p then
                    ''route receiver is unverified (calldata not decoded / not simulated); refusing rather than enforcing policy against an unproven destination (set [defi] require_calldata_verification = false to accept this risk)''
                  else
                    ''route receiver is the requested address but not calldata-verified (require_calldata_verification = false)'')
         in [defi_check ''receiver_verified'' outcome [S m]])
      else [])"

definition defi_min_output :: "defi_policy \<Rightarrow> defi_route_ctx \<Rightarrow> policy_check list" where
  "defi_min_output p ctx =
     (if \<not> min_out_enforced ctx then
        (let outcome = (if require_calldata_verification p then Deny else Warn);
             m = (if require_calldata_verification p then
                    ''no verified minimum-output floor (slippage/min-out is quote-only, not calldata-decoded or simulated) ''
                    @ em_dash @
                    '' refusing: a stale quote or sandwich could deliver near-zero output with every other check passing (set [defi] require_calldata_verification = false to accept the quote floor)''
                  else
                    ''minimum-output is the route quote floor, not calldata-verified (require_calldata_verification = false)'')
         in [defi_check ''min_output'' outcome [S m]])
      else [defi_check ''min_output'' Pass [S ''minimum-output floor is enforced'']])"

definition defi_router_key :: "(string \<Rightarrow> string) \<Rightarrow> defi_route_ctx \<Rightarrow> string" where
  "defi_router_key lc ctx = lc (source_chain ctx) @ '':'' @ lc (router ctx)"

definition defi_router :: "(string \<Rightarrow> string) \<Rightarrow> defi_policy \<Rightarrow> defi_route_ctx \<Rightarrow> policy_check list" where
  "defi_router lc p ctx =
     (if defi_router_key lc ctx \<in> allowed_routers p then
        [defi_check ''router'' Pass [S ''router '', S (router ctx), S '' allowlisted'']]
      else
        [defi_check ''router'' Deny
           [S ''router '', S (router ctx), S ('' not allowlisted; add '' @ [CHR 0x22]),
            S (defi_router_key lc ctx), S ([CHR 0x22] @ '' to [defi] allowed_routers'')]])"

definition defi_protocols :: "(string \<Rightarrow> string) \<Rightarrow> defi_policy \<Rightarrow> defi_route_ctx \<Rightarrow> policy_check list" where
  "defi_protocols lc p ctx =
     (if protocols_unknown ctx then
        [defi_check ''protocols'' (if allow_unknown_protocols p then Warn else Deny)
           [S (if allow_unknown_protocols p
               then ''route protocol metadata could not be parsed; allowed by allow_unknown_protocols = true''
               else ''route protocol metadata could not be parsed; refusing (set [defi] allow_unknown_protocols = true to permit unparsed routes)'')]]
      else case find (\<lambda>x. lc x \<in> denied_protocols p) (protocols ctx) of
        Some x \<Rightarrow>
          [defi_check ''protocols'' Deny [S (''route uses denied protocol '' @ quote @ x @ quote)]]
      | None \<Rightarrow>
          [defi_check ''protocols'' Pass
             [S (if protocols ctx = [] then ''no protocol restrictions''
                 else ''protocols permitted: '' @ join '' -> '' (protocols ctx))]])"

definition defi_input_cap :: "u256_lib \<Rightarrow> defi_policy \<Rightarrow> defi_route_ctx \<Rightarrow> policy_check list" where
  "defi_input_cap L p ctx =
     (case max_input_usd p of
        None \<Rightarrow> []
      | Some cap \<Rightarrow>
          (case input_microusd ctx of
             Some v \<Rightarrow>
               if v > cap then
                 [defi_check ''max_input_usd'' Deny
                    [S ''route input '', S (fmt_usd L v), S '' USD exceeds max_input_usd '', S (fmt_usd L cap)]]
               else
                 [defi_check ''max_input_usd'' Pass [S (fmt_usd L v), S '' <= '', S (fmt_usd L cap)]]
           | None \<Rightarrow>
               [defi_check ''max_input_usd'' Deny
                  [S (''max_input_usd is set but the route input USD value is unknown (no price) '' @ em_dash @
                      '' refusing rather than trading uncapped'')]]))"

definition defi_native_cap :: "u256_lib \<Rightarrow> defi_policy \<Rightarrow> defi_route_ctx \<Rightarrow> policy_check list" where
  "defi_native_cap L p ctx =
     (let v = native_value_wei ctx in
      case max_native_value_wei p of
        Some cap \<Rightarrow>
          if v > cap then
            [defi_check ''max_native_value'' Deny
               [S ''route attaches '', S (u256_to_string L v),
                S '' wei native value, exceeding max_native_value '', S (u256_to_string L cap), S '' wei'']]
          else
            [defi_check ''max_native_value'' Pass
               [S (u256_to_string L v), S '' <= '', S (u256_to_string L cap), S '' wei'']]
      | None \<Rightarrow>
          if v > 0 then
            [defi_check ''max_native_value'' Warn
               [S ''route attaches '', S (u256_to_string L v),
                S '' wei native value and no max_native_value is set'']]
          else [])"

definition evaluate_defi_route ::
  "u256_lib \<Rightarrow> (string \<Rightarrow> string) \<Rightarrow> defi_policy \<Rightarrow> defi_route_ctx \<Rightarrow> policy_check list" where
  "evaluate_defi_route L lc p ctx =
     defi_master_gate p @ defi_chains lc p ctx @ defi_receiver lc p ctx @
     defi_receiver_verified p ctx @ defi_min_output p ctx @ defi_router lc p ctx @
     defi_protocols lc p ctx @ defi_input_cap L p ctx @ defi_native_cap L p ctx"

text \<open>
  The \<open>wei_opt\<close> serde module: an optional decimal string of wei. \<open>shown_err\<close> is the integer crate's
  rendering of its parse error for a text.
\<close>

definition wei_opt_serialize :: "u256_lib \<Rightarrow> nat option \<Rightarrow> string option" where
  "wei_opt_serialize L v = map_option (u256_to_string L) v"

definition wei_opt_deserialize ::
  "u256_lib \<Rightarrow> (string \<Rightarrow> string) \<Rightarrow> string option \<Rightarrow> (string, nat option) result" where
  "wei_opt_deserialize L shown_err v =
     (case v of
        None \<Rightarrow> Ok None
      | Some s \<Rightarrow>
          (case u256_from_str_radix10 L (trim s) of
             Some w \<Rightarrow> Ok (Some w)
           | None \<Rightarrow> Err (''bad wei value '' @ quote @ s @ quote @ '': '' @ shown_err (trim s))))"

lemmas defi_parts = defi_master_gate_def defi_chains_def defi_receiver_def defi_receiver_verified_def
  defi_min_output_def defi_router_def defi_protocols_def defi_input_cap_def defi_native_cap_def

section \<open>When a route is denied\<close>

lemma defi_check_simps [simp]:
  "chk_outcome (defi_check r out m) = out" "classified (defi_check r out m)"
  by (simp_all add: defi_check_def)

lemma defi_gate_violations [simp]:
  "has_hard_violation (defi_master_gate p) \<longleftrightarrow> \<not> defi_enabled p"
  "has_hard_violation (defi_receiver_verified p ctx) \<longleftrightarrow>
     \<not> receiver_verified ctx \<and> \<not> cross_chain ctx \<and> require_calldata_verification p"
  "has_hard_violation (defi_min_output p ctx) \<longleftrightarrow>
     \<not> min_out_enforced ctx \<and> require_calldata_verification p"
  "has_hard_violation (defi_router lc p ctx) \<longleftrightarrow> defi_router_key lc ctx \<notin> allowed_routers p"
  "has_hard_violation (defi_receiver lc p ctx) \<longleftrightarrow>
     receiver_set_matches lc (denied_receivers p) ctx \<or>
     \<not> receiver_set_matches lc (allowed_receivers p) ctx"
  by (auto simp: defi_parts Let_def)

lemma defi_chain_violations [simp]:
  "has_hard_violation (defi_chains lc p ctx) \<longleftrightarrow>
     lc (source_chain ctx) \<notin> lc ` allowed_source_chains p \<or>
     cross_chain ctx \<and> lc (destination_chain ctx) \<notin> lc ` allowed_destination_chains p"
proof -
  have "x \<in> lc ` A \<longleftrightarrow> (\<exists>c \<in> A. lc c = x)" for x A by blast
  then show ?thesis by (simp add: defi_chains_def)
qed

lemma find_Some_mem: "find P xs = Some x \<Longrightarrow> x \<in> set xs \<and> P x"
  by (auto simp: find_Some_iff)

lemma defi_protocol_violations [simp]:
  "has_hard_violation (defi_protocols lc p ctx) \<longleftrightarrow>
     (if protocols_unknown ctx then \<not> allow_unknown_protocols p
      else lc ` set (protocols ctx) \<inter> denied_protocols p \<noteq> {})"
  by (auto simp: defi_protocols_def find_None_iff dest!: find_Some_mem split: option.splits)

lemma defi_cap_violations [simp]:
  "has_hard_violation (defi_input_cap L p ctx) \<longleftrightarrow>
     (\<exists>cap. max_input_usd p = Some cap \<and> (\<forall>v. input_microusd ctx = Some v \<longrightarrow> cap < v))"
  "has_hard_violation (defi_native_cap L p ctx) \<longleftrightarrow>
     (\<exists>cap. max_native_value_wei p = Some cap \<and> cap < native_value_wei ctx)"
  by (auto simp: defi_parts Let_def split: option.splits)

text \<open>
  C22: exactly when a DeFi route is not denied: routes are enabled, the source chain (and, for a
  cross-chain route, the destination chain) is allowed, the receiver is allowed and not denied, the
  receiver and the minimum output are verified unless the policy waives it (a cross-chain receiver
  is left to settlement), the router is allowed, the protocols are known and none is denied (or
  unknown ones are permitted), and the input and native values are known and within their caps.
\<close>

theorem defi_route_permitted_iff:
  "\<not> has_hard_violation (evaluate_defi_route L lc p ctx) \<longleftrightarrow>
     defi_enabled p \<and>
     lc (source_chain ctx) \<in> lc ` allowed_source_chains p \<and>
     (if cross_chain ctx then lc (destination_chain ctx) \<in> lc ` allowed_destination_chains p
      else receiver_verified ctx \<or> \<not> require_calldata_verification p) \<and>
     receiver_set_matches lc (allowed_receivers p) ctx \<and>
     \<not> receiver_set_matches lc (denied_receivers p) ctx \<and>
     (min_out_enforced ctx \<or> \<not> require_calldata_verification p) \<and>
     defi_router_key lc ctx \<in> allowed_routers p \<and>
     (if protocols_unknown ctx then allow_unknown_protocols p
      else lc ` set (protocols ctx) \<inter> denied_protocols p = {}) \<and>
     (case max_input_usd p of None \<Rightarrow> True
      | Some cap \<Rightarrow> (\<exists>v. input_microusd ctx = Some v \<and> v \<le> cap)) \<and>
     (case max_native_value_wei p of None \<Rightarrow> True | Some cap \<Rightarrow> native_value_wei ctx \<le> cap)"
  unfolding evaluate_defi_route_def violation_append defi_gate_violations defi_chain_violations
    defi_protocol_violations defi_cap_violations
  by (cases "max_input_usd p"; cases "input_microusd ctx"; cases "max_native_value_wei p")
    (simp_all add: not_less, blast+)

definition sample_defi :: defi_policy where
  "sample_defi = defi_policy_default\<lparr>defi_enabled := True, allowed_source_chains := {''Base''},
     allowed_receivers := {''class:wallet_eoa''}, allowed_routers := {''base:0xr''},
     max_input_usd := Some 5000000\<rparr>"

definition sample_route :: defi_route_ctx where
  "sample_route = \<lparr>route_wallet = ''main'', source_chain = ''base'', destination_chain = ''base'',
     cross_chain = False, receiver = ''0xme'', token_out = ''0xt'', route_receiver_class = WalletEoa,
     router = ''0xR'', protocols = [''uniswap''], protocols_unknown = False,
     input_microusd = Some 4000000, native_value_wei = 0, min_out_enforced = True,
     receiver_verified = True\<rparr>"

theorem defi_route_permitted_iff_witness:
  "\<not> has_hard_violation (evaluate_defi_route u256_ref to_ascii_lowercase sample_defi sample_route) \<and>
   defi_router_key to_ascii_lowercase sample_route \<in> allowed_routers sample_defi"
proof -
  have "\<not> has_hard_violation (evaluate_defi_route u256_ref to_ascii_lowercase sample_defi sample_route)"
    by code_simp
  then show ?thesis
    using defi_route_permitted_iff[of u256_ref to_ascii_lowercase sample_defi sample_route] by blast
qed

lemma classified_defi:
  "list_all classified (defi_master_gate p)" "list_all classified (defi_chains lc p ctx)"
  "list_all classified (defi_receiver lc p ctx)" "list_all classified (defi_receiver_verified p ctx)"
  "list_all classified (defi_min_output p ctx)" "list_all classified (defi_router lc p ctx)"
  "list_all classified (defi_protocols lc p ctx)" "list_all classified (defi_input_cap L p ctx)"
  "list_all classified (defi_native_cap L p ctx)"
  by (simp_all add: defi_parts Let_def split: option.splits)

text \<open>
  the \<open>[defi]\<close> section fails closed. Under the default policy every route is denied, by a check
  the authorizer treats as a hard violation; an enabled policy whose allow lists are empty denies
  every route as well.
\<close>

theorem defi_fails_closed:
  "has_deny (evaluate_defi_route L lc defi_policy_default ctx) \<and>
   has_deny (evaluate_defi_route L lc (defi_policy_default\<lparr>defi_enabled := True\<rparr>) ctx)"
proof -
  have c: "list_all classified (evaluate_defi_route L lc p ctx)" for p
    by (simp add: evaluate_defi_route_def classified_defi)
  show ?thesis
    unfolding classified_list(1)[OF c] by (simp add: evaluate_defi_route_def defi_policy_default_def)
qed

end
