(* ===== verification/Mempool_Index.thy ===== *)
theory Mempool_Index
  imports Bloom_Prelude
begin

text \<open>
  The bounded index of pending transactions: \<open>crates/bloom-mempool/src/index.rs\<close> with the record
  types of \<open>provider.rs\<close>. Hashes, addresses and byte strings are the \<open>alloy\<close> crate's types: type
  variables \<open>'h\<close>, \<open>'a\<close> and \<open>'b\<close>. The clock is an argument of \<open>index_insert\<close>. The lemmas show that
  every operation keeps the two maps and the queue consistent, and that the index implements a
  bounded list of records in arrival order, with at most one record per sender and nonce.
\<close>

datatype tx_fees = Legacy nat | Eip1559 nat nat

record ('h, 'a, 'b) pending_tx =
  tx_hash :: 'h
  tx_from :: 'a
  tx_to :: "'a option"
  tx_nonce :: nat
  tx_value :: nat
  tx_gas_limit :: nat
  tx_fees_of :: tx_fees
  tx_input :: 'b
  tx_observed_at :: nat

record ('h, 'a, 'b) pending_tx_record =
  rec_tx :: "('h, 'a, 'b) pending_tx"
  rec_inserted_at :: nat

record ('h, 'a, 'b) index_inner =
  by_hash :: "'h \<rightharpoonup> ('h, 'a, 'b) pending_tx_record"
  by_addr_nonce :: "'a \<times> nat \<rightharpoonup> 'h"
  order :: "'h list"
  evictions :: nat

section \<open>Operations\<close>

definition index_new :: "('h, 'a, 'b) index_inner" where
  "index_new = \<lparr>by_hash = Map.empty, by_addr_nonce = Map.empty, order = [], evictions = 0\<rparr>"

definition key_of_tx :: "('h, 'a, 'b) pending_tx \<Rightarrow> 'a \<times> nat" where
  "key_of_tx t = (tx_from t, tx_nonce t)"

definition key :: "('h, 'a, 'b) pending_tx_record \<Rightarrow> 'a \<times> nat" where
  "key r = key_of_tx (rec_tx r)"

definition unlink :: "'h \<Rightarrow> ('h, 'a, 'b) pending_tx_record \<Rightarrow> ('a \<times> nat \<rightharpoonup> 'h) \<Rightarrow> ('a \<times> nat \<rightharpoonup> 'h)" where
  "unlink h r m = (if m (key r) = Some h then m(key r := None) else m)"

definition supersede ::
  "('h, 'a, 'b) pending_tx \<Rightarrow> ('h, 'a, 'b) index_inner \<Rightarrow> ('h, 'a, 'b) index_inner" where
  "supersede t g =
     (case by_addr_nonce g (key_of_tx t) of
        Some prior \<Rightarrow>
          if prior \<noteq> tx_hash t
          then g\<lparr>by_hash := (by_hash g)(prior := None), order := filter (\<lambda>h. h \<noteq> prior) (order g)\<rparr>
          else g
      | None \<Rightarrow> g)"

definition evict_victim ::
  "'h \<Rightarrow> 'h list \<Rightarrow> ('h, 'a, 'b) index_inner \<Rightarrow> ('h, 'a, 'b) index_inner" where
  "evict_victim victim rest g =
     (case by_hash g victim of
        Some r \<Rightarrow>
          g\<lparr>by_hash := (by_hash g)(victim := None), by_addr_nonce := unlink victim r (by_addr_nonce g),
            order := rest, evictions := (evictions g + 1) mod 2 ^ 64\<rparr>
      | None \<Rightarrow> g\<lparr>order := rest\<rparr>)"

function evict :: "nat \<Rightarrow> ('h, 'a, 'b) index_inner \<Rightarrow> ('h, 'a, 'b) index_inner" where
  "evict capacity g =
     (if capacity \<le> length (order g) then
        (case order g of
           [] \<Rightarrow> g
         | victim # rest \<Rightarrow> evict capacity (evict_victim victim rest g))
      else g)"
  by pat_completeness auto
termination
  by (relation "measure (\<lambda>(c, g). length (order g))") (auto simp: evict_victim_def split: option.splits)

declare evict.simps [simp del]

definition index_insert ::
  "nat \<Rightarrow> nat \<Rightarrow> ('h, 'a, 'b) pending_tx \<Rightarrow> ('h, 'a, 'b) index_inner \<Rightarrow> ('h, 'a, 'b) index_inner" where
  "index_insert capacity now t g =
     (let r = \<lparr>rec_tx = t, rec_inserted_at = now\<rparr> in
      if by_hash g (tx_hash t) \<noteq> None then g\<lparr>by_hash := (by_hash g)(tx_hash t \<mapsto> r)\<rparr>
      else
        let g1 = evict capacity (supersede t g)
        in g1\<lparr>by_hash := (by_hash g1)(tx_hash t \<mapsto> r),
              by_addr_nonce := (by_addr_nonce g1)(key_of_tx t \<mapsto> tx_hash t),
              order := order g1 @ [tx_hash t]\<rparr>)"

definition lookup_by_hash :: "('h, 'a, 'b) index_inner \<Rightarrow> 'h \<Rightarrow> ('h, 'a, 'b) pending_tx_record option" where
  "lookup_by_hash g h = by_hash g h"

definition lookup_by_addr_nonce ::
  "('h, 'a, 'b) index_inner \<Rightarrow> 'a \<Rightarrow> nat \<Rightarrow> ('h, 'a, 'b) pending_tx_record option" where
  "lookup_by_addr_nonce g a n = Option.bind (by_addr_nonce g (a, n)) (by_hash g)"

definition index_remove ::
  "'h \<Rightarrow> ('h, 'a, 'b) index_inner \<Rightarrow> ('h, 'a, 'b) pending_tx_record option \<times> ('h, 'a, 'b) index_inner" where
  "index_remove h g =
     (case by_hash g h of
        None \<Rightarrow> (None, g)
      | Some r \<Rightarrow>
          (Some r, g\<lparr>by_hash := (by_hash g)(h := None), by_addr_nonce := unlink h r (by_addr_nonce g),
                     order := filter (\<lambda>x. x \<noteq> h) (order g)\<rparr>))"

definition index_len :: "('h, 'a, 'b) index_inner \<Rightarrow> nat" where
  "index_len g = card (dom (by_hash g))"

definition index_is_empty :: "('h, 'a, 'b) index_inner \<Rightarrow> bool" where
  "index_is_empty g \<longleftrightarrow> index_len g = 0"

definition observed_nonces :: "('h, 'a, 'b) index_inner \<Rightarrow> 'a \<Rightarrow> nat list" where
  "observed_nonces g a = sorted_list_of_set {n. by_addr_nonce g (a, n) \<noteq> None}"

definition index_snapshot :: "('h :: linorder, 'a, 'b) index_inner \<Rightarrow> ('h, 'a, 'b) pending_tx list" where
  "index_snapshot g =
     map (\<lambda>h. rec_tx (the (by_hash g h))) (sorted_list_of_set (dom (by_hash g)))"

section \<open>The invariant\<close>

text \<open>
  \<open>sender\<close> gives the sender and nonce a transaction hash commits to; a record is genuine when it
  agrees. The invariant holds for every key but \<open>K\<close>, which an insertion has already cleared.
\<close>

definition linked :: "('h \<Rightarrow> 'a \<times> nat) \<Rightarrow> ('a \<times> nat) option \<Rightarrow> ('h, 'a, 'b) index_inner \<Rightarrow> bool" where
  "linked sender K g \<longleftrightarrow>
     distinct (order g) \<and> set (order g) = dom (by_hash g) \<and>
     (\<forall>h r. by_hash g h = Some r \<longrightarrow> tx_hash (rec_tx r) = h \<and> key r = sender h) \<and>
     (\<forall>h \<in> dom (by_hash g). Some (sender h) \<noteq> K \<and> by_addr_nonce g (sender h) = Some h) \<and>
     (\<forall>k h. Some k \<noteq> K \<longrightarrow> by_addr_nonce g k = Some h \<longrightarrow> h \<in> dom (by_hash g) \<and> sender h = k)"

lemma linkedD:
  assumes "linked sender K g"
  shows "distinct (order g)" "set (order g) = dom (by_hash g)"
    "by_hash g h = Some r \<Longrightarrow> tx_hash (rec_tx r) = h" "by_hash g h = Some r \<Longrightarrow> key r = sender h"
    "by_hash g h = Some r \<Longrightarrow> Some (sender h) \<noteq> K"
    "by_hash g h = Some r \<Longrightarrow> by_addr_nonce g (sender h) = Some h"
    "Some k \<noteq> K \<Longrightarrow> by_addr_nonce g k = Some h \<Longrightarrow> h \<in> dom (by_hash g) \<and> sender h = k"
  using assms by (simp_all add: linked_def dom_def del: split_paired_All)

definition index_inv :: "nat \<Rightarrow> ('h \<Rightarrow> 'a \<times> nat) \<Rightarrow> ('h, 'a, 'b) index_inner \<Rightarrow> bool" where
  "index_inv capacity sender g \<longleftrightarrow> 0 < capacity \<and> linked sender None g \<and> length (order g) \<le> capacity"

lemma linkedI:
  assumes "distinct (order g)" "set (order g) = dom (by_hash g)"
    and "\<And>h r. by_hash g h = Some r \<Longrightarrow> tx_hash (rec_tx r) = h \<and> key r = sender h \<and>
      Some (sender h) \<noteq> K \<and> by_addr_nonce g (sender h) = Some h"
    and "\<And>k h. Some k \<noteq> K \<Longrightarrow> by_addr_nonce g k = Some h \<Longrightarrow> h \<in> dom (by_hash g) \<and> sender h = k"
  shows "linked sender K g"
  unfolding linked_def using assms by blast

lemma dom_delete: "dom (m(v := None)) = dom m - {v}"
  by auto

lemma linked_supersede:
  assumes l: "linked sender None g" and t: "by_hash g (tx_hash t) = None"
  shows "linked sender (Some (key_of_tx t)) (supersede t g)"
proof (cases "by_addr_nonce g (key_of_tx t)")
  case None
  then have "by_hash g h = Some r \<Longrightarrow> sender h \<noteq> key_of_tx t" for h r
    using linkedD(6)[OF l] by force
  then show ?thesis
    using None linkedD[OF l] by (intro linkedI) (simp_all add: supersede_def)
next
  case (Some prior)
  then have p: "prior \<in> dom (by_hash g)" "sender prior = key_of_tx t" using linkedD(7)[OF l] by auto
  then have "prior \<noteq> tx_hash t" using t by auto
  then have s: "supersede t g =
      g\<lparr>by_hash := (by_hash g)(prior := None), order := filter (\<lambda>h. h \<noteq> prior) (order g)\<rparr>"
    using Some by (simp add: supersede_def)
  have only: "by_addr_nonce g k = Some prior \<Longrightarrow> k = key_of_tx t" for k
    using linkedD(7)[OF l, of k prior] p by simp
  have other: "by_hash g h = Some r \<Longrightarrow> h \<noteq> prior \<Longrightarrow> sender h \<noteq> key_of_tx t" for h r
    using linkedD(6)[OF l, of h r] Some by auto
  show ?thesis
    unfolding s
  proof (rule linkedI, goal_cases)
    case (4 k h)
    then have "h \<in> dom (by_hash g) \<and> sender h = k" "h \<noteq> prior"
      using linkedD(7)[OF l, of k h] only[of k] by auto
    then show ?case by auto
  qed (use linkedD[OF l] other in \<open>auto split: if_splits\<close>)
qed

lemma linked_drop:
  assumes l: "linked sender K g" and v: "by_hash g v = Some r"
  shows "linked sender K (g\<lparr>by_hash := (by_hash g)(v := None),
    by_addr_nonce := unlink v r (by_addr_nonce g), order := filter (\<lambda>x. x \<noteq> v) (order g),
    evictions := e\<rparr>)" (is "linked _ _ ?g")
proof (rule linkedI)
  have r: "key r = sender v" "by_addr_nonce g (sender v) = Some v" using linkedD[OF l] v by auto
  have u: "by_addr_nonce ?g = (by_addr_nonce g)(sender v := None)"
    using r by (simp add: unlink_def)
  show "distinct (order ?g)" "set (order ?g) = dom (by_hash ?g)"
    using linkedD(1,2)[OF l] by auto
  fix h x assume "by_hash ?g h = Some x"
  then have h: "by_hash g h = Some x" "h \<noteq> v" by (auto split: if_splits)
  then have "sender h \<noteq> sender v" using linkedD(6)[OF l h(1)] r(2) by auto
  then show "tx_hash (rec_tx x) = h \<and> key x = sender h \<and> Some (sender h) \<noteq> K \<and>
      by_addr_nonce ?g (sender h) = Some h"
    unfolding u using linkedD(3-6)[OF l h(1)] by simp
next
  have r: "key r = sender v" "by_addr_nonce g (sender v) = Some v" using linkedD[OF l] v by auto
  fix k h assume K: "Some k \<noteq> K" and "by_addr_nonce ?g k = Some h"
  then have "by_addr_nonce g k = Some h" "k \<noteq> sender v"
    using r by (auto simp: unlink_def split: if_splits)
  then show "h \<in> dom (by_hash ?g) \<and> sender h = k" using linkedD(7)[OF l K] by auto
qed

lemma linked_evict_victim:
  assumes "linked sender K g" "order g = v # rest"
  shows "linked sender K (evict_victim v rest g)"
proof -
  have "distinct (v # rest)" "set (v # rest) = dom (by_hash g)"
    using linkedD(1,2)[OF assms(1)] assms(2) by simp_all
  then obtain r where "by_hash g v = Some r" "filter (\<lambda>x. x \<noteq> v) (order g) = rest"
    using assms(2) by (auto simp: filter_id_conv)
  then show ?thesis
    using linked_drop[OF assms(1), of v r "(evictions g + 1) mod 2 ^ 64"] by (simp add: evict_victim_def)
qed

lemma evict_step: "capacity \<le> length (order g) \<Longrightarrow> order g = v # rest \<Longrightarrow>
    evict capacity g = evict capacity (evict_victim v rest g)"
  by (subst evict.simps) simp

lemma evict_effect:
  assumes "linked sender K g" "0 < capacity"
  shows "linked sender K (evict capacity g) \<and>
    order (evict capacity g) = drop (Suc (length (order g)) - capacity) (order g) \<and>
    (\<forall>h \<in> set (order (evict capacity g)). by_hash (evict capacity g) h = by_hash g h)"
  using assms
proof (induction capacity g rule: evict.induct)
  case (1 capacity g)
  show ?case
  proof (cases "capacity \<le> length (order g)")
    case True
    then obtain v rest where o: "order g = v # rest" using 1(3) by (cases "order g") auto
    let ?g = "evict_victim v rest g"
    have v: "v \<notin> set rest" using linkedD(1)[OF 1(2)] o by simp
    have g: "order ?g = rest" "\<forall>h \<in> set rest. by_hash ?g h = by_hash g h"
      using v by (auto simp: evict_victim_def split: option.splits)
    have d: "drop (Suc (length (order g)) - capacity) (order g) = drop (Suc (length rest) - capacity) rest"
      using True o by (simp add: Suc_diff_le)
    show ?thesis
      using 1(1)[OF True o linked_evict_victim[OF 1(2) o] 1(3)] g
      unfolding evict_step[OF True o] d by (auto dest: in_set_dropD)
  next
    case False
    then show ?thesis using 1(2) by (simp add: evict.simps)
  qed
qed

lemma linked_push:
  assumes l: "linked sender (Some (key_of_tx t)) g" and t: "by_hash g (tx_hash t) = None"
    and s: "sender (tx_hash t) = key_of_tx t" and r: "rec_tx r = t"
  shows "linked sender None (g\<lparr>by_hash := (by_hash g)(tx_hash t \<mapsto> r),
    by_addr_nonce := (by_addr_nonce g)(key_of_tx t \<mapsto> tx_hash t), order := order g @ [tx_hash t]\<rparr>)"
    (is "linked _ _ ?g")
proof (rule linkedI)
  show "distinct (order ?g)" "set (order ?g) = dom (by_hash ?g)"
    using linkedD(1,2)[OF l] t by auto
  fix h x assume x: "by_hash ?g h = Some x"
  show "tx_hash (rec_tx x) = h \<and> key x = sender h \<and> Some (sender h) \<noteq> None \<and>
      by_addr_nonce ?g (sender h) = Some h"
  proof (cases "h = tx_hash t")
    case True
    then show ?thesis using x s r by (simp add: key_def)
  next
    case False
    then have "by_hash g h = Some x" using x by simp
    then show ?thesis using linkedD(3-6)[OF l, of h x] by simp
  qed
next
  fix k h assume "by_addr_nonce ?g k = Some h"
  then show "h \<in> dom (by_hash ?g) \<and> sender h = k"
    using linkedD(7)[OF l, of k h] s by (auto split: if_splits)
qed

lemma linked_refresh:
  assumes l: "linked sender None g" and h: "by_hash g h \<noteq> None"
    and r: "tx_hash (rec_tx r) = h" "key r = sender h"
  shows "linked sender None (g\<lparr>by_hash := (by_hash g)(h \<mapsto> r)\<rparr>)"
proof (rule linkedI, goal_cases)
  case (3 x y)
  then obtain y' where "by_hash g x = Some y'" using h by (auto split: if_splits)
  then show ?case using 3 linkedD(3-6)[OF l, of x] r by (auto split: if_splits)
next
  case (4 k x)
  then show ?case using linkedD(7)[OF l, of k x] by auto
qed (use linkedD(1,2)[OF l] h in auto)

section \<open>The index as a bounded list of records\<close>

definition records :: "('h, 'a, 'b) index_inner \<Rightarrow> ('h, 'a, 'b) pending_tx_record list" where
  "records g = map (\<lambda>h. the (by_hash g h)) (order g)"

text \<open>
  What an insertion does to the list of records: a known hash is refreshed in place; otherwise the
  record of the same sender and nonce is dropped, then as many of the oldest as needed, and the new
  one comes last.
\<close>

definition insert_spec ::
  "nat \<Rightarrow> ('h, 'a, 'b) pending_tx_record \<Rightarrow> ('h, 'a, 'b) pending_tx_record list \<Rightarrow>
   ('h, 'a, 'b) pending_tx_record list" where
  "insert_spec capacity r rs =
     (if \<exists>x \<in> set rs. tx_hash (rec_tx x) = tx_hash (rec_tx r)
      then map (\<lambda>x. if tx_hash (rec_tx x) = tx_hash (rec_tx r) then r else x) rs
      else let ys = filter (\<lambda>x. key x \<noteq> key r) rs in drop (Suc (length ys) - capacity) ys @ [r])"

definition remove_spec ::
  "'h \<Rightarrow> ('h, 'a, 'b) pending_tx_record list \<Rightarrow> ('h, 'a, 'b) pending_tx_record list" where
  "remove_spec h rs = filter (\<lambda>x. tx_hash (rec_tx x) \<noteq> h) rs"

lemma order_record:
  assumes "linked sender K g" "h \<in> set (order g)"
  obtains r where "by_hash g h = Some r" "tx_hash (rec_tx r) = h" "key r = sender h"
  using assms linkedD[OF assms(1)] by auto

lemma records_supersede:
  assumes l: "linked sender None g" and t: "by_hash g (tx_hash t) = None"
  shows "records (supersede t g) = filter (\<lambda>x. key x \<noteq> key_of_tx t) (records g)"
proof -
  have keys: "key (the (by_hash g h)) = sender h" if "h \<in> set (order g)" for h
    using order_record[OF l that] by (metis option.sel)
  have f: "filter (\<lambda>x. key x \<noteq> key_of_tx t) (records g) =
      map (\<lambda>h. the (by_hash g h)) (filter (\<lambda>h. sender h \<noteq> key_of_tx t) (order g))"
    unfolding records_def filter_map by (rule arg_cong[of _ _ "map _"], rule filter_cong) (simp_all add: keys)
  show ?thesis
  proof (cases "by_addr_nonce g (key_of_tx t)")
    case None
    then have "h \<in> set (order g) \<Longrightarrow> sender h \<noteq> key_of_tx t" for h
      using linkedD(2,6)[OF l] by force
    then have "filter (\<lambda>h. sender h \<noteq> key_of_tx t) (order g) = order g" by (simp add: filter_id_conv)
    then show ?thesis using None f by (simp add: supersede_def records_def)
  next
    case (Some prior)
    then have p: "prior \<in> dom (by_hash g)" "sender prior = key_of_tx t" using linkedD(7)[OF l] by auto
    then have ne: "prior \<noteq> tx_hash t" using t by auto
    have "h \<in> set (order g) \<Longrightarrow> sender h \<noteq> key_of_tx t \<longleftrightarrow> h \<noteq> prior" for h
      using linkedD(2,6)[OF l] Some p(2) by fastforce
    then have "filter (\<lambda>h. sender h \<noteq> key_of_tx t) (order g) = filter (\<lambda>h. h \<noteq> prior) (order g)"
      by (intro filter_cong) auto
    then show ?thesis using Some ne f by (simp add: supersede_def records_def)
  qed
qed

lemma records_evict:
  assumes "linked sender K g" "0 < capacity"
  shows "records (evict capacity g) = drop (Suc (length (records g)) - capacity) (records g)"
proof -
  note e = evict_effect[OF assms]
  then have "records (evict capacity g) = map (\<lambda>h. the (by_hash g h)) (order (evict capacity g))"
    by (auto simp: records_def)
  also have "\<dots> = drop (Suc (length (records g)) - capacity) (records g)"
    using e by (simp add: records_def drop_map)
  finally show ?thesis .
qed

lemma supersede_keeps_absent: "by_hash g h = None \<Longrightarrow> by_hash (supersede t g) h = None"
  by (auto simp: supersede_def split: option.splits)

lemma evict_keeps_absent:
  assumes "linked sender K g" "0 < capacity" "by_hash g h = None"
  shows "by_hash (evict capacity g) h = None"
proof (rule ccontr)
  note e = evict_effect[OF assms(1,2)]
  assume "by_hash (evict capacity g) h \<noteq> None"
  then have "h \<in> set (order (evict capacity g))" using e linkedD(2) by blast
  then show False using e assms(3) \<open>by_hash (evict capacity g) h \<noteq> None\<close> by auto
qed

lemma known_hash:
  assumes l: "linked sender K g"
  shows "(\<exists>x \<in> set (records g). tx_hash (rec_tx x) = h) \<longleftrightarrow> by_hash g h \<noteq> None"
proof -
  have "x \<in> set (order g) \<Longrightarrow> tx_hash (rec_tx (the (by_hash g x))) = x" for x
    using order_record[OF l] by (metis option.sel)
  then have "(\<exists>x \<in> set (records g). tx_hash (rec_tx x) = h) \<longleftrightarrow> h \<in> set (order g)"
    unfolding records_def by force
  then show ?thesis using linkedD(2)[OF l] by auto
qed

lemma index_insert_known:
  assumes inv: "index_inv capacity sender g" and s: "sender (tx_hash t) = key_of_tx t"
    and k: "by_hash g (tx_hash t) \<noteq> None"
  shows "index_inv capacity sender (index_insert capacity now t g) \<and>
    records (index_insert capacity now t g) = insert_spec capacity \<lparr>rec_tx = t, rec_inserted_at = now\<rparr> (records g)"
proof -
  have l: "linked sender None g" using inv by (simp add: index_inv_def)
  let ?r = "\<lparr>rec_tx = t, rec_inserted_at = now\<rparr>"
  have ins: "index_insert capacity now t g = g\<lparr>by_hash := (by_hash g)(tx_hash t \<mapsto> ?r)\<rparr>"
    using k by (simp add: index_insert_def)
  have "\<exists>x \<in> set (records g). tx_hash (rec_tx x) = tx_hash t" using known_hash[OF l] k by blast
  moreover have "tx_hash (rec_tx (the (by_hash g h))) = h" if "h \<in> set (order g)" for h
    using order_record[OF l that] by (metis option.sel)
  ultimately have "records (index_insert capacity now t g) = insert_spec capacity ?r (records g)"
    unfolding ins by (auto simp: records_def insert_spec_def)
  moreover have "linked sender None (index_insert capacity now t g)"
    unfolding ins by (rule linked_refresh[OF l]) (use k s in \<open>auto simp: key_def\<close>)
  ultimately show ?thesis using inv by (simp add: ins index_inv_def)
qed

lemma index_insert_new:
  assumes inv: "index_inv capacity sender g" and s: "sender (tx_hash t) = key_of_tx t"
    and k: "by_hash g (tx_hash t) = None"
  shows "index_inv capacity sender (index_insert capacity now t g) \<and>
    records (index_insert capacity now t g) = insert_spec capacity \<lparr>rec_tx = t, rec_inserted_at = now\<rparr> (records g)"
proof -
  let ?r = "\<lparr>rec_tx = t, rec_inserted_at = now\<rparr>" and ?g = "supersede t g"
  have l: "linked sender None g" and c: "0 < capacity" using inv by (simp_all add: index_inv_def)
  have l1: "linked sender (Some (key_of_tx t)) ?g" by (rule linked_supersede[OF l k])
  let ?e = "evict capacity ?g"
  have l2: "linked sender (Some (key_of_tx t)) ?e" and k2: "by_hash ?e (tx_hash t) = None"
    using evict_effect[OF l1 c] evict_keeps_absent[OF l1 c supersede_keeps_absent[OF k]] by auto
  have ins: "index_insert capacity now t g = ?e\<lparr>by_hash := (by_hash ?e)(tx_hash t \<mapsto> ?r),
      by_addr_nonce := (by_addr_nonce ?e)(key_of_tx t \<mapsto> tx_hash t), order := order ?e @ [tx_hash t]\<rparr>"
    using k by (simp add: index_insert_def Let_def)
  have "linked sender None (index_insert capacity now t g)"
    unfolding ins by (rule linked_push[OF l2 k2 s]) simp
  moreover have "tx_hash t \<notin> set (order ?e)" using linkedD(2)[OF l2] k2 by auto
  then have rec: "records (index_insert capacity now t g) = records ?e @ [?r]"
    unfolding ins by (auto simp: records_def)
  moreover have "records ?e @ [?r] = insert_spec capacity ?r (records g)"
    using known_hash[OF l, of "tx_hash t"] k
    unfolding records_evict[OF l1 c] records_supersede[OF l k] insert_spec_def
    by (simp add: Let_def key_def)
  moreover have "length (order (index_insert capacity now t g)) \<le> capacity"
    using evict_effect[OF l1 c] c by (simp add: ins)
  ultimately show ?thesis using c by (simp add: index_inv_def)
qed

lemma index_remove_refines:
  assumes inv: "index_inv capacity sender g"
  shows "index_inv capacity sender (snd (index_remove h g)) \<and>
    records (snd (index_remove h g)) = remove_spec h (records g)"
proof -
  have l: "linked sender None g" using inv by (simp add: index_inv_def)
  have hash: "tx_hash (rec_tx (the (by_hash g x))) = x" if "x \<in> set (order g)" for x
    using order_record[OF l that] by (metis option.sel)
  have spec: "remove_spec h (records g) = map (\<lambda>x. the (by_hash g x)) (filter (\<lambda>x. x \<noteq> h) (order g))"
    unfolding remove_spec_def records_def filter_map
    by (rule arg_cong[of _ _ "map _"], rule filter_cong) (simp_all add: hash)
  show ?thesis
  proof (cases "by_hash g h")
    case None
    then have "h \<notin> set (order g)" using linkedD(2)[OF l] by auto
    then have "filter (\<lambda>x. x \<noteq> h) (order g) = order g" by (auto simp: filter_id_conv)
    then show ?thesis using None inv spec by (simp add: index_remove_def records_def)
  next
    case (Some r)
    then have "linked sender None (snd (index_remove h g))"
      using linked_drop[OF l Some, of "evictions g"] by (simp add: index_remove_def)
    then show ?thesis
      using Some inv spec
      by (auto simp: index_remove_def records_def index_inv_def intro: le_trans[OF length_filter_le])
  qed
qed

section \<open>Every sequence of operations\<close>

datatype ('h, 'a, 'b) index_op = InsertOp nat "('h, 'a, 'b) pending_tx" | RemoveOp 'h

fun index_step ::
  "nat \<Rightarrow> ('h, 'a, 'b) index_op \<Rightarrow> ('h, 'a, 'b) index_inner \<Rightarrow> ('h, 'a, 'b) index_inner" where
  "index_step capacity (InsertOp now t) g = index_insert capacity now t g"
| "index_step capacity (RemoveOp h) g = snd (index_remove h g)"

fun spec_step ::
  "nat \<Rightarrow> ('h, 'a, 'b) index_op \<Rightarrow> ('h, 'a, 'b) pending_tx_record list \<Rightarrow>
   ('h, 'a, 'b) pending_tx_record list" where
  "spec_step capacity (InsertOp now t) rs = insert_spec capacity \<lparr>rec_tx = t, rec_inserted_at = now\<rparr> rs"
| "spec_step capacity (RemoveOp h) rs = remove_spec h rs"

fun genuine :: "('h \<Rightarrow> 'a \<times> nat) \<Rightarrow> ('h, 'a, 'b) index_op \<Rightarrow> bool" where
  "genuine sender (InsertOp _ t) \<longleftrightarrow> sender (tx_hash t) = key_of_tx t"
| "genuine sender (RemoveOp _) \<longleftrightarrow> True"

lemma index_step_refines:
  assumes "index_inv capacity sender g" "genuine sender op"
  shows "index_inv capacity sender (index_step capacity op g) \<and>
    records (index_step capacity op g) = spec_step capacity op (records g)"
  using assms index_insert_known index_insert_new index_remove_refines
  by (cases op) (fastforce, simp)

interpretation mempool: op_machine "index_step capacity" "index_inv capacity sender" "genuine sender"
  for capacity :: nat and sender :: "'h \<Rightarrow> 'a \<times> nat"
  by unfold_locales (use index_step_refines in blast)

lemma records_new: "records index_new = []"
  by (simp add: records_def index_new_def)

lemma index_inv_new: "0 < capacity \<Longrightarrow> index_inv capacity sender index_new"
  by (simp add: index_inv_def index_new_def linked_def)

lemma run_refines:
  assumes "index_inv capacity sender g" "\<And>op. op \<in> set ops \<Longrightarrow> genuine sender op"
  shows "records (fold (index_step capacity) ops g) = fold (spec_step capacity) ops (records g)"
  using assms
proof (induction ops arbitrary: g)
  case (Cons op ops)
  then show ?case using index_step_refines[of capacity sender g op] by simp
qed simp

text \<open>
  C9: the index implements its specification. After any sequence of insertions and removals of
  genuine transactions (whose hash determines sender and nonce) on a fresh index of positive
  capacity, the records in queue order are those of the specification run on the same operations:
  a known hash is refreshed in place, a transaction replaces the one with its sender and nonce, and
  the oldest records make room. The two maps and the queue stay consistent and within capacity.
\<close>

theorem index_refines_spec:
  assumes "0 < capacity" and "\<forall>op \<in> set ops. genuine sender op"
  shows "records (fold (index_step capacity) ops index_new) = fold (spec_step capacity) ops [] \<and>
    index_inv capacity sender (fold (index_step capacity) ops index_new)"
  using run_refines[OF index_inv_new[OF assms(1)], of ops sender]
    mempool.run_inv[OF index_inv_new[OF assms(1)], of ops sender]
    assms(2) by (simp add: records_new)

definition sample_tx :: "nat \<Rightarrow> nat \<Rightarrow> nat \<Rightarrow> (nat, nat, nat) pending_tx" where
  "sample_tx h a n = \<lparr>tx_hash = h, tx_from = a, tx_to = None, tx_nonce = n, tx_value = 0,
     tx_gas_limit = 21000, tx_fees_of = Legacy 1, tx_input = 0, tx_observed_at = 0\<rparr>"

definition sample_sender :: "nat \<Rightarrow> nat \<times> nat" where
  "sample_sender h = (h div 10, h mod 2)"

definition sample_ops :: "(nat, nat, nat) index_op list" where
  "sample_ops = [InsertOp 1 (sample_tx 10 1 0), InsertOp 2 (sample_tx 21 2 1), InsertOp 3 (sample_tx 12 1 0),
     InsertOp 4 (sample_tx 30 3 0)]"

theorem index_refines_spec_witness:
  "list_all (genuine sample_sender) sample_ops \<and>
   map (\<lambda>r. tx_hash (rec_tx r)) (records (fold (index_step 2) sample_ops index_new)) = [12, 30]"
proof -
  have "list_all (genuine sample_sender) sample_ops" by code_simp
  moreover have "map (\<lambda>r. tx_hash (rec_tx r)) (fold (spec_step 2) sample_ops []) = [12, 30]" by code_simp
  ultimately show ?thesis
    using index_refines_spec[of 2 sample_ops sample_sender] by (simp add: list_all_iff)
qed

section \<open>Lookups\<close>

lemma index_len_order: "linked sender K g \<Longrightarrow> index_len g = length (order g)"
  by (metis distinct_card index_len_def linkedD(1,2))

text \<open>
  a transaction just inserted is found, by hash and by sender and nonce, with the time it was
  inserted at; the index never holds more transactions than its capacity; and a lookup by sender
  and nonce only ever returns a transaction of that sender and nonce.
\<close>

theorem index_lookup_after_insert:
  assumes "index_inv capacity sender g" and "sender (tx_hash t) = key_of_tx t"
    and g'_def: "g' = index_insert capacity now t g"
  shows "lookup_by_hash g' (tx_hash t) = Some \<lparr>rec_tx = t, rec_inserted_at = now\<rparr> \<and>
    lookup_by_addr_nonce g' (tx_from t) (tx_nonce t) = Some \<lparr>rec_tx = t, rec_inserted_at = now\<rparr> \<and>
    index_len g' \<le> capacity \<and>
    (\<forall>a n r. lookup_by_addr_nonce g' a n = Some r \<longrightarrow> key r = (a, n))"
proof -
  have i: "index_inv capacity sender g'"
    using index_step_refines[of capacity sender g "InsertOp now t"] assms by simp
  then have l: "linked sender None g'" by (simp add: index_inv_def)
  have h: "by_hash g' (tx_hash t) = Some \<lparr>rec_tx = t, rec_inserted_at = now\<rparr>"
    by (simp add: g'_def index_insert_def Let_def)
  then have "by_addr_nonce g' (key_of_tx t) = Some (tx_hash t)"
    using linkedD(6)[OF l h] assms(2) by simp
  moreover have "key r = (a, n)" if "lookup_by_addr_nonce g' a n = Some r" for a n r
    using that linkedD(7)[OF l, of "(a, n)"] linkedD(4)[OF l]
    by (auto simp: lookup_by_addr_nonce_def Option.bind_eq_Some_conv)
  ultimately show ?thesis
    using h i index_len_order[OF l]
    by (simp add: lookup_by_hash_def lookup_by_addr_nonce_def key_of_tx_def index_inv_def)
qed

theorem index_lookup_after_insert_witness:
  "index_inv 2 sample_sender (index_new :: (nat, nat, nat) index_inner) \<and>
   lookup_by_addr_nonce (index_insert 2 7 (sample_tx 10 1 0) index_new) 1 0 =
     Some \<lparr>rec_tx = sample_tx 10 1 0, rec_inserted_at = 7\<rparr>"
proof -
  have i: "index_inv 2 sample_sender (index_new :: (nat, nat, nat) index_inner)"
    by (rule index_inv_new) simp
  have "sample_sender (tx_hash (sample_tx 10 1 0)) = key_of_tx (sample_tx 10 1 0)" by code_simp
  from index_lookup_after_insert[OF i this refl, of 7] i show ?thesis
    by (simp add: sample_tx_def)
qed

end
