(* ===== verification/Mempool_Fees.thy ===== *)
theory Mempool_Fees
  imports Mempool_Index
begin

text \<open>
  Replacement fees (\<open>crates/bloom-mempool/src/bump.rs\<close>), the stage-time swap heuristic
  (\<open>heuristic.rs\<close>) and the decision of the stuck-transaction scanner
  (\<open>crates/bloom-tx/src/bump_scanner.rs\<close>). Fees are \<open>u128\<close> and amounts \<open>U256\<close>, as naturals with the
  bound written out. ABI decoding of the calldata is the \<open>alloy\<close> crate's and the quote comes from an
  oracle: both are parameters. The scanner's file and audit writes are not modelled, only what it
  decides to advise.
\<close>

section \<open>Fees\<close>

fun max_fee_per_gas :: "tx_fees \<Rightarrow> nat" where
  "max_fee_per_gas (Legacy gas_price) = gas_price"
| "max_fee_per_gas (Eip1559 fee _) = fee"


definition bump_125 :: "nat \<Rightarrow> nat" where
  "bump_125 v =
     (case u_checked_mul 128 v 9 of
        Some nine_v \<Rightarrow>
          (let bumped = nine_v div 8; rm = nine_v mod 8; result = (if rm > 0 then bumped + 1 else bumped)
           in if v = 0 then 1 else result)
      | None \<Rightarrow> u_max 128)"

fun compute_replacement_fees :: "tx_fees \<Rightarrow> tx_fees" where
  "compute_replacement_fees (Legacy gas_price) = Legacy (bump_125 gas_price)"
| "compute_replacement_fees (Eip1559 fee tip) = Eip1559 (bump_125 fee) (bump_125 tip)"

lemma bump_125_eq:
  "bump_125 v = (if u_max 128 < v * 9 then u_max 128 else if v = 0 then 1 else (v * 9 + 7) div 8)"
proof -
  have "(if 0 < n mod 8 then n div 8 + 1 else n div 8) = (n + 7) div 8" for n :: nat by presburger
  then show ?thesis by (simp add: bump_125_def u_checked_mul_def Let_def)
qed

lemma bump_125_increases: "v < u_max 128 \<Longrightarrow> v < bump_125 v \<and> bump_125 v \<le> u_max 128"
  unfolding bump_125_eq by (auto simp: u_max_def)





section \<open>The stuck-transaction scanner\<close>

datatype wallet_policy_projection = Current nat nat | Stale nat nat | UnknownWallet | Unavailable

record bump_scanner_config =
  scan_interval :: nat
  stuck_after :: nat
  overrun_pct :: nat

definition bump_scanner_config_default :: bump_scanner_config where
  "bump_scanner_config_default = \<lparr>scan_interval = 30, stuck_after = 90, overrun_pct = 20\<rparr>"

definition trigger_thresholds ::
  "(string \<Rightarrow> wallet_policy_projection) option \<Rightarrow> bump_scanner_config \<Rightarrow> string \<Rightarrow> (nat \<times> nat) option" where
  "trigger_thresholds lookup cfg wallet =
     (case lookup of
        Some f \<Rightarrow>
          (case f wallet of
             Current after pct \<Rightarrow> Some (after, pct)
           | Stale after pct \<Rightarrow> Some (after, pct)
           | UnknownWallet \<Rightarrow> None
           | Unavailable \<Rightarrow> None)
      | None \<Rightarrow> Some (stuck_after cfg, overrun_pct cfg))"

definition basefee_triggered :: "tx_fees \<Rightarrow> nat option \<Rightarrow> nat \<Rightarrow> bool" where
  "basefee_triggered fees basefee pct =
     (case basefee of
        Some bf \<Rightarrow> bf > u_sat_mul 128 (max_fee_per_gas fees) (100 + pct) div 100
      | None \<Rightarrow> False)"

record bump_advice =
  adv_fees :: tx_fees
  adv_reason :: string
  adv_dwell :: nat

text \<open>
  \<open>consider\<close> up to the artefact writes: the advice for a sent entry, given whether it is mined, its
  wallet and fees, whether its hash is in the mempool index, the time since it was sent and the
  current base fee.
\<close>

definition bump_consider ::
  "(string \<Rightarrow> wallet_policy_projection) option \<Rightarrow> bump_scanner_config \<Rightarrow> bool \<Rightarrow> string \<Rightarrow> tx_fees \<Rightarrow>
   bool \<Rightarrow> nat \<Rightarrow> nat option \<Rightarrow> bump_advice option" where
  "bump_consider lookup cfg mined wallet fees still_pending dwell basefee =
     (if mined then None
      else case trigger_thresholds lookup cfg wallet of
        None \<Rightarrow> None
      | Some (after, pct) \<Rightarrow>
          (let dwell_trigger = still_pending \<and> dwell > after in
           if \<not> (basefee_triggered fees basefee pct \<or> dwell_trigger) then None
           else Some \<lparr>adv_fees = compute_replacement_fees fees,
                      adv_reason = (if dwell_trigger then ''stuck_dwell'' else ''basefee_overrun''),
                      adv_dwell = dwell\<rparr>))"

text \<open>
  the scanner advises only on a transaction that is not mined and whose wallet thresholds are
  known, either because it has been pending longer than allowed or because the base fee has
  outgrown its fee cap; every advised fee is then a strict increase, and without saturation a
  base-fee trigger means the transaction cannot be included at the current base fee.
\<close>

theorem bump_advice_sound:
  assumes "bump_consider lookup cfg mined wallet fees still_pending dwell basefee = Some adv"
    and "max_fee_per_gas fees < u_max 128"
  shows "\<not> mined \<and> max_fee_per_gas fees < max_fee_per_gas (adv_fees adv) \<and>
    (\<exists>after pct. trigger_thresholds lookup cfg wallet = Some (after, pct) \<and>
       (if adv_reason adv = ''stuck_dwell'' then still_pending \<and> after < dwell
        else \<exists>bf. basefee = Some bf \<and>
          (max_fee_per_gas fees * (100 + pct) \<le> u_max 128 \<longrightarrow> max_fee_per_gas fees < bf)))"
proof -
  have le: "m \<le> m * (100 + pct) div 100" for m pct :: nat
    by (metis div_le_mono le_add1 mult_le_mono2 nonzero_mult_div_cancel_right zero_neq_numeral)
  have fees: "max_fee_per_gas fees < max_fee_per_gas (compute_replacement_fees fees)"
    using bump_125_increases assms(2) by (cases fees) auto
  show ?thesis
    using assms(1) fees le_less_trans[OF le[of "max_fee_per_gas fees"]]
    by (auto simp: bump_consider_def basefee_triggered_def u_sat_mul_def Let_def min_def
        split: if_splits option.splits prod.splits)
qed

theorem bump_advice_sound_witness:
  "bump_consider None bump_scanner_config_default False ''main'' (Legacy 100) True 91 None =
     Some \<lparr>adv_fees = Legacy 113, adv_reason = ''stuck_dwell'', adv_dwell = 91\<rparr> \<and>
   max_fee_per_gas (Legacy 100) < max_fee_per_gas (Legacy 113)"
proof -
  have "bump_consider None bump_scanner_config_default False ''main'' (Legacy 100) True 91 None =
     Some \<lparr>adv_fees = Legacy 113, adv_reason = ''stuck_dwell'', adv_dwell = 91\<rparr>" by code_simp
  then show ?thesis using bump_advice_sound by (fastforce simp: u_max_def)
qed

section \<open>The swap heuristic\<close>

datatype mev_risk = Low | Medium | High

record mev_risk_report =
  mev_risk_of :: mev_risk
  mev_checks :: "string list"
  mev_advice :: "unit msg"

record heuristic_config =
  cfg_max_slippage_bps :: nat
  zero_min_amount_in_threshold :: nat

definition heuristic_config_default :: heuristic_config where
  "heuristic_config_default =
     \<lparr>cfg_max_slippage_bps = 100, zero_min_amount_in_threshold = 10 ^ 18\<rparr>"

definition evaluate_swap ::
  "heuristic_config \<Rightarrow> (nat \<Rightarrow> 'a list \<Rightarrow> nat option) \<Rightarrow> nat \<Rightarrow> nat \<Rightarrow> 'a list \<Rightarrow> mev_risk_report" where
  "evaluate_swap cfg quoter amount_in amount_out_min path =
     (if amount_out_min = 0 \<and> amount_in \<ge> zero_min_amount_in_threshold cfg then
        \<lparr>mev_risk_of = High, mev_checks = [''amount_out_min_zero''],
         mev_advice = [S ''amountOutMin is zero for amountIn = '', N (int amount_in),
           S ''; the swap accepts any output. Set amountOutMin to at least 99% of the current quote.'']\<rparr>
      else case quoter amount_in path of
        None \<Rightarrow> \<lparr>mev_risk_of = Low, mev_checks = [''quote_unavailable''], mev_advice = []\<rparr>
      | Some q \<Rightarrow>
          if q = 0 then \<lparr>mev_risk_of = Low, mev_checks = [''quote_unavailable''], mev_advice = []\<rparr>
          else if amount_out_min < q then
            (let bps = u_sat_mul 256 (q - amount_out_min) 10000 div q in
             if bps > cfg_max_slippage_bps cfg then
               \<lparr>mev_risk_of = High, mev_checks = [''slippage_exposure''],
                mev_advice = [S ''amountOutMin is '', N (int bps), S '' bps below current quote (threshold '',
                  N (int (cfg_max_slippage_bps cfg)),
                  S ''); tighten slippage or route through a private RPC.'']\<rparr>
             else \<lparr>mev_risk_of = Low, mev_checks = [''slippage_exposure''], mev_advice = []\<rparr>)
          else \<lparr>mev_risk_of = Low, mev_checks = [], mev_advice = []\<rparr>)"

text \<open>The two ABI decoders: amount in, minimum out and path; minimum out and path.\<close>

definition mev_evaluate ::
  "('c \<Rightarrow> (nat \<times> nat \<times> 'a list) option) \<Rightarrow> ('c \<Rightarrow> (nat \<times> 'a list) option) \<Rightarrow>
   'c \<Rightarrow> nat \<Rightarrow> heuristic_config \<Rightarrow> (nat \<Rightarrow> 'a list \<Rightarrow> nat option) \<Rightarrow> mev_risk_report" where
  "mev_evaluate dec_tokens dec_eth calldata amount cfg quoter =
     (case dec_tokens calldata of
        Some (amount_in, out_min, path) \<Rightarrow> evaluate_swap cfg quoter amount_in out_min path
      | None \<Rightarrow>
          (case dec_eth calldata of
             Some (out_min, path) \<Rightarrow> evaluate_swap cfg quoter amount out_min path
           | None \<Rightarrow>
               \<lparr>mev_risk_of = Low, mev_checks = [''calldata_not_a_known_swap''], mev_advice = []\<rparr>))"

definition decode_swap_path ::
  "('c \<Rightarrow> (nat \<times> nat \<times> 'a list) option) \<Rightarrow> ('c \<Rightarrow> (nat \<times> 'a list) option) \<Rightarrow> 'c \<Rightarrow> 'a list option" where
  "decode_swap_path dec_tokens dec_eth calldata =
     (case dec_tokens calldata of
        Some (_, _, path) \<Rightarrow> Some path
      | None \<Rightarrow> map_option snd (dec_eth calldata))"

text \<open>
  the swap heuristic raises the alarm exactly when it should, for quotes small enough that the
  slippage product fits in 256 bits: the risk is high if and only if a large swap accepts any
  output, or the minimum output is below the quote by more basis points than the threshold.
\<close>

theorem swap_risk_high_iff:
  assumes "\<forall>q. quoter amount_in path = Some q \<longrightarrow> q * 10000 < 2 ^ 256"
  shows "mev_risk_of (evaluate_swap cfg quoter amount_in out_min path) = High \<longleftrightarrow>
    out_min = 0 \<and> zero_min_amount_in_threshold cfg \<le> amount_in \<or>
    (\<exists>q. quoter amount_in path = Some q \<and> out_min < q \<and>
       cfg_max_slippage_bps cfg < (q - out_min) * 10000 div q)"
proof (cases "quoter amount_in path")
  case (Some q)
  then have "(q - out_min) * 10000 \<le> u_max 256"
    using assms mult_le_mono1[of "q - out_min" q 10000] by (auto simp: u_max_def)
  then have "u_sat_mul 256 (q - out_min) 10000 = (q - out_min) * 10000" by (simp add: u_sat_mul_def)
  then show ?thesis using Some by (auto simp: evaluate_swap_def Let_def)
qed (simp add: evaluate_swap_def)

theorem swap_risk_high_iff_witness:
  "mev_risk_of (evaluate_swap heuristic_config_default (\<lambda>_ (_ :: nat list). Some 1000) 5 980 []) = High"
  using swap_risk_high_iff[of "\<lambda>_ (_ :: nat list). Some 1000" 5 "[]" heuristic_config_default 980]
  by (simp add: heuristic_config_default_def)

text \<open>
  beyond that bound the saturating product understates the slippage: with a quote of
  \<open>2 ^ 255\<close>, a swap that accepts one unit of output, a loss of almost everything, is rated low.
\<close>

theorem swap_risk_saturates:
  "mev_risk_of (evaluate_swap heuristic_config_default (\<lambda>_ (_ :: nat list). Some (2 ^ 255)) 5 1 []) = Low \<and>
   cfg_max_slippage_bps heuristic_config_default < (2 ^ 255 - 1) * 10000 div 2 ^ 255"
  by (simp add: evaluate_swap_def heuristic_config_default_def u_sat_mul_def u_max_def Let_def)

end
