(* ===== verification/Rpc_Health.thy ===== *)
theory Rpc_Health
  imports F64
begin

text \<open>
  Endpoint health: \<open>crates/bloom-rpc-common/src/health.rs\<close>, and the retry rule table of
  \<open>retry.rs\<close>. Durations and instants are naturals in nanoseconds; the clock is an argument of each
  operation. Latencies are blended in \<open>f64\<close> as the source does (theory F64). The registry is the list
  of its endpoints, and its operations are the step function of a state machine.
\<close>

section \<open>Constants\<close>

definition LATENCY_EWMA_ALPHA :: f64 where "LATENCY_EWMA_ALPHA = f64_of_rat (3 / 10)"
definition SAMPLE_WINDOW :: nat where "SAMPLE_WINDOW = 10"
definition FAILURE_COOLDOWN_THRESHOLD :: nat where "FAILURE_COOLDOWN_THRESHOLD = 5"
definition RECOVERY_SUCCESS_THRESHOLD :: nat where "RECOVERY_SUCCESS_THRESHOLD = 2"
definition DEFAULT_COOLDOWN :: nat where "DEFAULT_COOLDOWN = 60 * SECOND"
definition CHRONIC_COOLDOWN :: nat where "CHRONIC_COOLDOWN = 600 * SECOND"
definition CHRONIC_WINDOW :: nat where "CHRONIC_WINDOW = 300 * SECOND"
definition LATENCY_FLOOR_MS :: nat where "LATENCY_FLOOR_MS = 2000"


section \<open>One endpoint\<close>

record endpoint_health =
  last_url :: string
  cooldown_until :: "nat option"
  avg_latency :: nat
  sample_window :: "bool list"
  consecutive_failures :: nat
  consecutive_successes :: nat
  last_block :: "nat option"
  last_ok :: "nat option"

definition endpoint_new :: "string \<Rightarrow> endpoint_health" where
  "endpoint_new url = \<lparr>last_url = url, cooldown_until = None, avg_latency = 0, sample_window = [],
     consecutive_failures = 0, consecutive_successes = 0, last_block = None, last_ok = None\<rparr>"

definition success_rate :: "endpoint_health \<Rightarrow> f64" where
  "success_rate h =
     (if sample_window h = [] then F_fin 0
      else let good = length (filter id (sample_window h))
           in f64_of_rat (of_nat good / of_nat (length (sample_window h))))"

text \<open>\<open>Duration::as_millis\<close>, \<open>as_secs_f64\<close> and \<open>from_secs_f64\<close> (to the nearest nanosecond).\<close>

definition as_millis :: "nat \<Rightarrow> nat" where "as_millis d = d div 1000000"

definition as_secs_f64 :: "nat \<Rightarrow> f64" where
  "as_secs_f64 d =
     f64_add (f64_of_rat (of_nat (d div SECOND))) (f64_of_rat (of_nat (d mod SECOND) / of_nat SECOND))"

definition from_secs_f64 :: "f64 \<Rightarrow> nat" where
  "from_secs_f64 x = (case x of F_fin q \<Rightarrow> nat (round_half_even (q * of_nat SECOND)) | _ \<Rightarrow> 0)"

definition f64_clamp01 :: "f64 \<Rightarrow> f64" where
  "f64_clamp01 x = (if f64_gt (F_fin 0) x then F_fin 0 else if f64_gt x (F_fin 1) then F_fin 1 else x)"

definition score :: "endpoint_health \<Rightarrow> f64" where
  "score h =
     (let stability = success_rate h;
          latency_ms = of_nat (as_millis (avg_latency h)) :: rat;
          ratio = (case f64_of_rat latency_ms of F_fin q \<Rightarrow> f64_of_rat (q / of_nat LATENCY_FLOOR_MS) | x \<Rightarrow> x);
          latency_factor = f64_clamp01 (f64_add (F_fin 1) (f64_mul (F_fin (- 1)) ratio))
      in f64_add (f64_mul stability (f64_of_rat (7 / 10))) (f64_mul latency_factor (f64_of_rat (3 / 10))))"

definition push_sample :: "bool \<Rightarrow> endpoint_health \<Rightarrow> endpoint_health" where
  "push_sample ok h =
     (let w = (if length (sample_window h) = SAMPLE_WINDOW then tl (sample_window h) else sample_window h)
      in h\<lparr>sample_window := w @ [ok]\<rparr>)"

definition update_latency :: "nat \<Rightarrow> endpoint_health \<Rightarrow> endpoint_health" where
  "update_latency sample h =
     (if avg_latency h = 0 then h\<lparr>avg_latency := sample\<rparr>
      else
        let prev = as_secs_f64 (avg_latency h);
            nxt = as_secs_f64 sample;
            one_minus = f64_add (F_fin 1) (f64_mul (F_fin (- 1)) LATENCY_EWMA_ALPHA);
            blended = f64_add (f64_mul LATENCY_EWMA_ALPHA nxt) (f64_mul one_minus prev)
        in h\<lparr>avg_latency := from_secs_f64 (if f64_gt (F_fin 0) blended then F_fin 0 else blended)\<rparr>)"

datatype cooldown_decision = NoCooldown | Fresh nat | Chronic nat

definition endpoint_success :: "nat \<Rightarrow> nat \<Rightarrow> nat option \<Rightarrow> endpoint_health \<Rightarrow> endpoint_health" where
  "endpoint_success now latency block h0 =
     (let h1 = push_sample True (update_latency latency h0);
          h2 = h1\<lparr>consecutive_failures := 0,
                  consecutive_successes := u_sat_add 32 (consecutive_successes h1) 1,
                  last_ok := Some now\<rparr>;
          h3 = (case block of Some b \<Rightarrow> h2\<lparr>last_block := Some b\<rparr> | None \<Rightarrow> h2)
      in if cooldown_until h3 \<noteq> None \<and> consecutive_successes h3 \<ge> RECOVERY_SUCCESS_THRESHOLD
         then h3\<lparr>cooldown_until := None\<rparr> else h3)"

definition endpoint_failure ::
  "nat \<Rightarrow> nat option \<Rightarrow> endpoint_health \<Rightarrow> cooldown_decision \<times> endpoint_health" where
  "endpoint_failure now backoff_hint h0 =
     (let h1 = push_sample False h0;
          h2 = h1\<lparr>consecutive_successes := 0,
                  consecutive_failures := u_sat_add 32 (consecutive_failures h1) 1\<rparr>
      in if consecutive_failures h2 \<ge> FAILURE_COOLDOWN_THRESHOLD then
           (let chronic = (case last_ok h2 of Some t \<Rightarrow> now - t < CHRONIC_WINDOW | None \<Rightarrow> False);
                dur = (if chronic then CHRONIC_COOLDOWN
                       else case backoff_hint of Some d \<Rightarrow> d | None \<Rightarrow> DEFAULT_COOLDOWN);
                h3 = h2\<lparr>cooldown_until := Some (now + dur), consecutive_failures := 0\<rparr>
            in (if chronic then Chronic dur else Fresh dur, h3))
         else (NoCooldown, h2))"

section \<open>The registry\<close>

definition registry_new :: "string list \<Rightarrow> endpoint_health list" where
  "registry_new urls = map endpoint_new urls"

definition record_success :: "nat \<Rightarrow> nat \<Rightarrow> nat \<Rightarrow> nat option \<Rightarrow> endpoint_health list \<Rightarrow> endpoint_health list" where
  "record_success now idx latency block hs =
     (if idx < length hs then hs[idx := endpoint_success now latency block (hs ! idx)] else hs)"

definition record_failure ::
  "nat \<Rightarrow> nat \<Rightarrow> bool \<Rightarrow> nat option \<Rightarrow> endpoint_health list \<Rightarrow> cooldown_decision \<times> endpoint_health list" where
  "record_failure now idx retryable backoff_hint hs =
     (if idx < length hs then
        (let (d, h) = endpoint_failure now backoff_hint (hs ! idx) in (d, hs[idx := h]))
      else (NoCooldown, hs))"

definition cooled_down_indices :: "nat \<Rightarrow> endpoint_health list \<Rightarrow> nat list" where
  "cooled_down_indices now hs =
     filter (\<lambda>i. case cooldown_until (hs ! i) of Some deadline \<Rightarrow> deadline > now | None \<Rightarrow> False)
       [0..<length hs]"

definition cooled_down_count :: "nat \<Rightarrow> endpoint_health list \<Rightarrow> nat" where
  "cooled_down_count now hs = length (cooled_down_indices now hs)"

record endpoint_health_snapshot =
  snap_url :: string
  snap_score :: f64
  snap_cooldown_until :: "nat option"
  snap_latency_ms :: nat
  snap_success_rate :: f64
  snap_last_block :: "nat option"

definition health_snapshot :: "nat \<Rightarrow> nat \<Rightarrow> endpoint_health list \<Rightarrow> endpoint_health_snapshot list" where
  "health_snapshot now_instant now_system hs =
     map (\<lambda>h. \<lparr>snap_url = last_url h, snap_score = score h,
       snap_cooldown_until =
         Option.bind (cooldown_until h) (\<lambda>deadline.
           if deadline \<ge> now_instant then Some (now_system + (deadline - now_instant)) else None),
       snap_latency_ms = as_millis (avg_latency h) mod 2 ^ 64, snap_success_rate = success_rate h,
       snap_last_block = last_block h\<rparr>) hs"

section \<open>Retry classification\<close>

datatype retry_signal = HttpStatus nat | RpcError int string

fun str_contains :: "string \<Rightarrow> string \<Rightarrow> bool" where
  "str_contains [] p \<longleftrightarrow> p = []"
| "str_contains (c # s) p \<longleftrightarrow> starts_with (c # s) p \<or> str_contains s p"

fun should_retry :: "retry_signal \<Rightarrow> bool" where
  "should_retry (HttpStatus status) \<longleftrightarrow> status \<in> {408, 429, 502, 503, 504}"
| "should_retry (RpcError code message) \<longleftrightarrow>
     code \<in> {-32005, -32007} \<or> str_contains message ''rate limited'' \<or>
     str_contains message ''over rate limit'' \<or> str_contains message ''exceeded its compute units'' \<or>
     str_contains message ''capacity''"

section \<open>The invariant\<close>


lemma update_latency_fields [simp]:
  "sample_window (update_latency l h) = sample_window h"
  "cooldown_until (update_latency l h) = cooldown_until h"
  "consecutive_successes (update_latency l h) = consecutive_successes h"
  "consecutive_failures (update_latency l h) = consecutive_failures h"
  by (simp_all add: update_latency_def Let_def)

lemma push_sample_fields [simp]:
  "cooldown_until (push_sample b h) = cooldown_until h"
  "consecutive_successes (push_sample b h) = consecutive_successes h"
  "consecutive_failures (push_sample b h) = consecutive_failures h"
  "last_ok (push_sample b h) = last_ok h"
  by (simp_all add: push_sample_def Let_def)




datatype health_op = SuccessOp nat nat nat "nat option" | FailureOp nat nat bool "nat option"

fun health_step :: "health_op \<Rightarrow> endpoint_health list \<Rightarrow> endpoint_health list" where
  "health_step (SuccessOp now idx latency block) hs = record_success now idx latency block hs"
| "health_step (FailureOp now idx retryable hint) hs = snd (record_failure now idx retryable hint hs)"





section \<open>The cooldown state machine\<close>







text \<open>
  the escalated cooldown does not need a recovery. The module says a fresh cooldown within five
  minutes of a recovery escalates to 600 seconds; the code looks at the last success of any kind,
  so an endpoint that was never in a cooldown, succeeded once and then failed five times within
  the window starts with the escalated cooldown.
\<close>

theorem first_cooldown_can_be_chronic:
  "let hs = fold health_step
       (SuccessOp 0 0 5 None # replicate 4 (FailureOp (200 * SECOND) 0 True (Some SECOND)))
       (registry_new [''u''])
   in cooldown_until (hs ! 0) = None \<and>
      fst (record_failure (200 * SECOND) 0 True (Some SECOND) hs) = Chronic CHRONIC_COOLDOWN"
  by code_simp

section \<open>The score\<close>

definition c07 :: rat where "c07 = 3152519739159347 / 4503599627370496"
definition c03 :: rat where "c03 = 5404319552844595 / 18014398509481984"

lemma f64_parts:
  "f64_of_rat 1 = F_fin 1" "f64_of_rat (7 / 10) = F_fin c07" "f64_of_rat (3 / 10) = F_fin c03"
  "f64_of_rat c07 = F_fin c07" "f64_of_rat c03 = F_fin c03"
  by code_simp+

lemma c_bounds: "0 \<le> c07" "0 \<le> c03" "c07 + c03 \<le> 1"
  by (simp_all add: c07_def c03_def)

lemma success_rate_unit:
  obtains r where "success_rate h = F_fin r" "0 \<le> r" "r \<le> 1"
proof (cases "sample_window h = []")
  case True
  then show ?thesis using that[of 0] by (simp add: success_rate_def)
next
  case False
  let ?q = "of_nat (length (filter id (sample_window h))) / of_nat (length (sample_window h)) :: rat"
  have "0 \<le> ?q" "?q \<le> 1" using False length_filter_le[of id "sample_window h"] by simp_all
  then show ?thesis
    using f64_of_rat_between[OF _ _ f64_parts(1)] that False by (metis (full_types) success_rate_def)
qed

lemma clamp_unit:
  assumes "x \<noteq> F_nan" obtains r where "f64_clamp01 x = F_fin r" "0 \<le> r" "r \<le> 1"
proof (cases x)
  case (F_inf s)
  then show ?thesis using that by (cases s) (auto simp: f64_clamp01_def f64_gt_def)
next
  case (F_fin q)
  have "f64_clamp01 x = (if q < 0 then F_fin 0 else if 1 < q then F_fin 1 else F_fin q)"
    by (simp add: F_fin f64_clamp01_def)
  then show ?thesis using that by (cases "q < 0"; cases "1 < q") auto
qed (use assms in simp)

lemma mul_below:
  assumes "0 \<le> r" "r \<le> 1" "0 \<le> c" "f64_of_rat c = F_fin c"
  obtains p where "f64_mul (F_fin r) (F_fin c) = F_fin p" "0 \<le> p" "p \<le> c"
proof -
  have "0 \<le> r * c" "r * c \<le> c" using assms mult_right_mono[of r 1 c] by simp_all
  then show thesis using f64_of_rat_between[OF _ _ assms(4)] that by (metis (no_types, lifting) f64_mul_fin)
qed

text \<open>
  the health score of every endpoint is a number between 0 and 1, rounding included: never NaN,
  never above 1.
\<close>

theorem score_in_unit_interval: "\<exists>x. score h = F_fin x \<and> 0 \<le> x \<and> x \<le> 1"
proof -
  obtain r where r: "success_rate h = F_fin r" "0 \<le> r" "r \<le> 1" by (rule success_rate_unit)
  let ?ms = "of_nat (as_millis (avg_latency h)) :: rat"
  let ?ratio = "case f64_of_rat ?ms of F_fin q \<Rightarrow> f64_of_rat (q / of_nat LATENCY_FLOOR_MS) | x \<Rightarrow> x"
  let ?f = "f64_add (F_fin 1) (f64_mul (F_fin (- 1)) ?ratio)"
  have "?ratio \<noteq> F_nan" by (simp split: f64.split)
  then have "?f \<noteq> F_nan" by (auto simp: f64_add_def f64_mul_def split: f64.splits)
  then obtain l where l: "f64_clamp01 ?f = F_fin l" "0 \<le> l" "l \<le> 1" by (rule clamp_unit)
  obtain p where p: "f64_mul (F_fin r) (F_fin c07) = F_fin p" "0 \<le> p" "p \<le> c07"
    using mul_below[OF r(2,3) c_bounds(1) f64_parts(4)] by blast
  obtain q where q: "f64_mul (F_fin l) (F_fin c03) = F_fin q" "0 \<le> q" "q \<le> c03"
    using mul_below[OF l(2,3) c_bounds(2) f64_parts(5)] by blast
  have "0 \<le> p + q" "p + q \<le> 1" using p q c_bounds by linarith+
  then obtain x where x: "f64_of_rat (p + q) = F_fin x" "0 \<le> x" "x \<le> 1"
    using f64_of_rat_between[OF _ _ f64_parts(1)] by blast
  have "score h = f64_of_rat (p + q)"
    unfolding score_def Let_def f64_parts r(1) l(1) p(1) q(1) by (simp add: f64_add_def)
  then show ?thesis using x by simp
qed

end
