(* ===== verification/BTree_Map.thy ===== *)
theory BTree_Map
  imports Bloom_Prelude "HOL-Library.Char_ord" "HOL-Library.List_Lexorder"
begin

text \<open>
  \<open>std::collections::BTreeMap\<close> as the list of its entries in key order, where iteration order or
  duplicates matter (strings compare by bytes, as the library instances of \<^typ>\<open>char\<close> and lists
  order them). The locale \<open>ordered_map\<close> is what its clients rely on.
\<close>

type_synonym ('k, 'v) btree = "('k \<times> 'v) list"

fun bt_insert :: "'k :: linorder \<Rightarrow> 'v \<Rightarrow> ('k, 'v) btree \<Rightarrow> ('k, 'v) btree" where
  "bt_insert k v [] = [(k, v)]"
| "bt_insert k v ((x, y) # m) =
     (if k = x then (k, v) # m else if k < x then (k, v) # (x, y) # m else (x, y) # bt_insert k v m)"

definition bt_lookup :: "('k, 'v) btree \<Rightarrow> 'k \<Rightarrow> 'v option" where
  "bt_lookup m k = map_of m k"

definition bt_ok :: "('k :: linorder, 'v) btree \<Rightarrow> bool" where
  "bt_ok m \<longleftrightarrow> sorted_wrt (<) (map fst m)"

locale ordered_map =
  fixes ok :: "'m \<Rightarrow> bool" and empty :: 'm and lookup :: "'m \<Rightarrow> 'k \<Rightarrow> 'v option"
    and insert :: "'k \<Rightarrow> 'v \<Rightarrow> 'm \<Rightarrow> 'm"
  assumes ok_empty: "ok empty" and lookup_empty: "lookup empty k = None"
    and ok_insert: "ok m \<Longrightarrow> ok (insert k v m)"
    and lookup_insert: "ok m \<Longrightarrow> lookup (insert k v m) x = (if x = k then Some v else lookup m x)"
begin

lemma insert_keeps: "ok m \<Longrightarrow> lookup m x = Some y \<Longrightarrow> lookup m k = None \<Longrightarrow> lookup (insert k v m) x = Some y"
  by (auto simp: lookup_insert)

lemma insert_grows: "ok m \<Longrightarrow> lookup m k = None \<Longrightarrow> lookup m \<subseteq>\<^sub>m lookup (insert k v m)"
  by (auto simp: map_le_def lookup_insert)

end

lemma bt_insert_keys: "set (map fst (bt_insert k v m)) = insert k (set (map fst m))"
  by (induction k v m rule: bt_insert.induct) auto

lemma bt_insert_ok: "bt_ok m \<Longrightarrow> bt_ok (bt_insert k v m)"
  unfolding bt_ok_def
proof (induction k v m rule: bt_insert.induct)
  case (2 k v x y m)
  then show ?case using bt_insert_keys[of k v m] by auto
qed simp

lemma bt_lookup_insert: "bt_lookup (bt_insert k v m) x = (if x = k then Some v else bt_lookup m x)"
  unfolding bt_lookup_def by (induction k v m rule: bt_insert.induct) auto

interpretation bt: ordered_map bt_ok "[]" bt_lookup bt_insert
  by unfold_locales (simp_all add: bt_insert_ok bt_lookup_insert, simp_all add: bt_ok_def bt_lookup_def)

lemma bt_insert_new:
  assumes "bt_lookup m k = None"
  shows "set (bt_insert k v m) = insert (k, v) (set m)"
    "distinct (map f (bt_insert k v m)) \<longleftrightarrow> f (k, v) \<notin> f ` set m \<and> distinct (map f m)"
proof -
  have "k \<notin> fst ` set m" using assms by (simp add: bt_lookup_def map_of_eq_None_iff)
  then show s: "set (bt_insert k v m) = insert (k, v) (set m)"
    by (induction k v m rule: bt_insert.induct) auto
  show "distinct (map f (bt_insert k v m)) \<longleftrightarrow> f (k, v) \<notin> f ` set m \<and> distinct (map f m)"
    using \<open>k \<notin> fst ` set m\<close>
  proof (induction k v m rule: bt_insert.induct)
    case (2 k v x y m)
    have "k \<notin> fst ` set m" using 2(2) by auto
    then have "set (bt_insert k v m) = insert (k, v) (set m)"
      by (induction k v m rule: bt_insert.induct) auto
    then show ?case using 2 by auto
  qed simp
qed

end
