(* ===== verification/Operation_Index.thy ===== *)
theory Operation_Index
  imports BTree_Map
begin

text \<open>
  The index of intended operations: \<open>crates/bloom-vfs/src/operation_index.rs\<close>. The state is the
  index the file holds, \<^const>\<open>None\<close> when there is no file; \<open>allocate\<close> runs under the file lock, so
  one call is one step. A failed commit (\<open>fault\<close>) leaves the file as it was, which is what writing
  a temporary file and renaming it gives. The \<open>blake3\<close> digest in hexadecimal is the parameter
  \<open>b3\<close>; nothing is assumed of it.
  The lemmas show that allocation is idempotent, binds an operation to one wallet, never gives two
  operations one action id, and never writes a file it would later refuse.
\<close>

record operation_record =
  op_surface :: string
  op_venue_local_id :: string
  op_action_id :: string
  op_wallet :: string
  op_created_ms :: nat

record stored_index =
  ix_schema :: string
  ix_operations :: "(string, operation_record) btree"

definition SCHEMA :: string where "SCHEMA = ''bloom.machine_operation_index.v1''"

definition unit_sep :: char where "unit_sep = CHR 0x1F"

definition mapping_key :: "string \<Rightarrow> string \<Rightarrow> string" where
  "mapping_key surface venue = surface @ [unit_sep] @ venue"

definition derive_action_id :: "(string \<Rightarrow> string) \<Rightarrow> string \<Rightarrow> string \<Rightarrow> string" where
  "derive_action_id b3 surface venue =
     surface @ ''-'' @ take 32 (b3 (''bloom.action_id.v1'' @ surface @ [unit_sep] @ venue))"

text \<open>\<open>char::is_control\<close> on UTF-8: U+0000 to U+001F and U+007F to U+009F.\<close>

fun has_control :: "string \<Rightarrow> bool" where
  "has_control [] = False"
| "has_control [a] \<longleftrightarrow> byte a < 32 \<or> byte a = 127"
| "has_control (a # b # s) \<longleftrightarrow>
     byte a < 32 \<or> byte a = 127 \<or> byte a = 194 \<and> 128 \<le> byte b \<and> byte b \<le> 159 \<or> has_control (b # s)"

definition safe_char :: "char \<Rightarrow> bool" where
  "safe_char c \<longleftrightarrow> is_ascii_alphanumeric c \<or> c = CHR ''-'' \<or> c = CHR ''_''"

definition validate_component :: "string \<Rightarrow> string \<Rightarrow> bool \<Rightarrow> (string, unit) result" where
  "validate_component label v safe_segment =
     (if v = [] \<or> length v > 512 \<or> has_control v then Err (''invalid '' @ label)
      else if safe_segment \<and> \<not> list_all safe_char v then Err (''invalid '' @ label)
      else Ok ())"

definition validate_record :: "operation_record \<Rightarrow> (string, unit) result" where
  "validate_record r =
     and_then (validate_component ''surface'' (op_surface r) True) (\<lambda>_.
     and_then (validate_component ''venue-local ID'' (op_venue_local_id r) False) (\<lambda>_.
     validate_component ''wallet'' (op_wallet r) False))"

fun validate_operations ::
  "(string \<Rightarrow> string) \<Rightarrow> string set \<Rightarrow> (string, operation_record) btree \<Rightarrow> (string, unit) result" where
  "validate_operations b3 seen [] = Ok ()"
| "validate_operations b3 seen ((k, r) # ops) =
     and_then (validate_record r) (\<lambda>_.
     if k \<noteq> mapping_key (op_surface r) (op_venue_local_id r) \<or>
        op_action_id r \<noteq> derive_action_id b3 (op_surface r) (op_venue_local_id r) \<or>
        op_action_id r \<in> seen
     then Err ''Machine operation index contains an invalid identity binding''
     else validate_operations b3 (insert (op_action_id r) seen) ops)"

definition validate_index :: "(string \<Rightarrow> string) \<Rightarrow> stored_index \<Rightarrow> (string, unit) result" where
  "validate_index b3 ix =
     (if ix_schema ix \<noteq> SCHEMA then Err ''Machine operation index schema is unsupported''
      else validate_operations b3 {} (ix_operations ix))"

definition load_index :: "(string \<Rightarrow> string) \<Rightarrow> stored_index option \<Rightarrow> (string, stored_index) result" where
  "load_index b3 disk =
     (case disk of
        Some ix \<Rightarrow> and_then (validate_index b3 ix) (\<lambda>_. Ok ix)
      | None \<Rightarrow> Ok \<lparr>ix_schema = SCHEMA, ix_operations = []\<rparr>)"

definition save_index ::
  "(string \<Rightarrow> string) \<Rightarrow> string option \<Rightarrow> stored_index \<Rightarrow> stored_index option \<Rightarrow>
   (string, unit) result \<times> stored_index option" where
  "save_index b3 fault ix disk =
     (case validate_index b3 ix of
        Inl e \<Rightarrow> (Err e, disk)
      | Inr _ \<Rightarrow>
          (case fault of
             Some e \<Rightarrow> (Err (''commit Machine operation index: '' @ e), disk)
           | None \<Rightarrow> (Ok (), Some ix)))"

definition allocate_locked ::
  "(string \<Rightarrow> string) \<Rightarrow> string option \<Rightarrow> string \<Rightarrow> string \<Rightarrow> string \<Rightarrow> nat \<Rightarrow> stored_index option \<Rightarrow>
   (string, string) result \<times> stored_index option" where
  "allocate_locked b3 fault surface venue wallet created_ms disk =
     (case load_index b3 disk of
        Inl e \<Rightarrow> (Err e, disk)
      | Inr ix \<Rightarrow>
          (case bt_lookup (ix_operations ix) (mapping_key surface venue) of
             Some existing \<Rightarrow>
               if op_wallet existing \<noteq> wallet
               then (Err (''operation identity '' @ surface @ ''/'' @ venue @
                          '' is already bound to wallet '' @ op_wallet existing), disk)
               else (Ok (op_action_id existing), disk)
           | None \<Rightarrow>
               (let action_id = derive_action_id b3 surface venue in
                if list_ex (\<lambda>(_, r). op_action_id r = action_id) (ix_operations ix)
                then (Err (''action ID collision for '' @ surface @ ''/'' @ venue), disk)
                else
                  let ix' = ix\<lparr>ix_operations := bt_insert (mapping_key surface venue)
                         \<lparr>op_surface = surface, op_venue_local_id = venue, op_action_id = action_id,
                          op_wallet = wallet, op_created_ms = created_ms\<rparr> (ix_operations ix)\<rparr>
                  in (case save_index b3 fault ix' disk of
                        (Inl e, d) \<Rightarrow> (Err e, d)
                      | (Inr _, d) \<Rightarrow> (Ok action_id, d)))))"

definition allocate ::
  "(string \<Rightarrow> string) \<Rightarrow> string option \<Rightarrow> string \<Rightarrow> string \<Rightarrow> string \<Rightarrow> nat \<Rightarrow> stored_index option \<Rightarrow>
   (string, string) result \<times> stored_index option" where
  "allocate b3 fault surface venue wallet created_ms disk =
     (case and_then (validate_component ''surface'' surface True) (\<lambda>_.
           and_then (validate_component ''venue-local ID'' venue False) (\<lambda>_.
           validate_component ''wallet'' wallet False)) of
        Inl e \<Rightarrow> (Err e, disk)
      | Inr _ \<Rightarrow> allocate_locked b3 fault surface venue wallet created_ms disk)"

section \<open>Valid indexes\<close>

definition record_ok :: "(string \<Rightarrow> string) \<Rightarrow> string \<times> operation_record \<Rightarrow> bool" where
  "record_ok b3 = (\<lambda>(k, r). validate_record r = Ok () \<and> k = mapping_key (op_surface r) (op_venue_local_id r) \<and>
     op_action_id r = derive_action_id b3 (op_surface r) (op_venue_local_id r))"

lemma validate_operations_Ok:
  "validate_operations b3 seen ops = Ok () \<longleftrightarrow>
     list_all (record_ok b3) ops \<and> distinct (map (op_action_id \<circ> snd) ops) \<and>
     (op_action_id \<circ> snd) ` set ops \<inter> seen = {}"
  by (induction b3 seen ops rule: validate_operations.induct)
    (auto simp: record_ok_def and_then_Ok_iff split: if_splits)

lemma validate_index_Ok:
  "validate_index b3 ix = Ok () \<longleftrightarrow>
     ix_schema ix = SCHEMA \<and> list_all (record_ok b3) (ix_operations ix) \<and>
     distinct (map (op_action_id \<circ> snd) (ix_operations ix))"
  by (simp add: validate_index_def validate_operations_Ok)

definition disk_ok :: "(string \<Rightarrow> string) \<Rightarrow> stored_index option \<Rightarrow> bool" where
  "disk_ok b3 disk \<longleftrightarrow> (case disk of None \<Rightarrow> True | Some ix \<Rightarrow> validate_index b3 ix = Ok ())"

definition entry :: "stored_index option \<Rightarrow> string \<Rightarrow> operation_record option" where
  "entry disk k = (case disk of None \<Rightarrow> None | Some ix \<Rightarrow> bt_lookup (ix_operations ix) k)"

lemma load_ok:
  assumes "disk_ok b3 disk"
  obtains ix where "load_index b3 disk = Ok ix" "validate_index b3 ix = Ok ()"
    "\<And>k. bt_lookup (ix_operations ix) k = entry disk k"
proof (cases disk)
  case None
  then show ?thesis
    using that[of "\<lparr>ix_schema = SCHEMA, ix_operations = []\<rparr>"]
    by (simp add: load_index_def validate_index_Ok entry_def bt_lookup_def)
next
  case (Some ix)
  then show ?thesis using assms that[of ix] by (simp add: load_index_def disk_ok_def entry_def)
qed



section \<open>One allocation\<close>

lemma insert_valid:
  assumes v: "validate_index b3 ix = Ok ()"
    and new: "bt_lookup (ix_operations ix) (mapping_key surface venue) = None"
    and no: "\<not> list_ex (\<lambda>(_, r). op_action_id r = derive_action_id b3 surface venue) (ix_operations ix)"
    and r: "validate_record r = Ok ()" "op_surface r = surface" "op_venue_local_id r = venue"
      "op_action_id r = derive_action_id b3 surface venue"
  shows "validate_index b3 (ix\<lparr>ix_operations := bt_insert (mapping_key surface venue) r (ix_operations ix)\<rparr>) = Ok ()"
proof -
  have "op_action_id r \<notin> (op_action_id \<circ> snd) ` set (ix_operations ix)"
    using no r(4) by (auto simp: list_ex_iff)
  moreover have "record_ok b3 (mapping_key surface venue, r)" using r by (simp add: record_ok_def)
  ultimately show ?thesis
    using v bt_insert_new(1)[OF new, of r] bt_insert_new(2)[OF new, of "op_action_id \<circ> snd" r]
    by (simp add: validate_index_Ok list_all_iff)
qed

lemma allocate_cases:
  assumes "disk_ok b3 disk" and "allocate b3 fault surface venue wallet created disk = (res, disk')"
  shows "(\<exists>e. res = Err e) \<and> disk' = disk \<or>
    disk' = disk \<and> (\<exists>r. entry disk (mapping_key surface venue) = Some r \<and> op_wallet r = wallet \<and>
      res = Ok (op_action_id r)) \<or>
    entry disk (mapping_key surface venue) = None \<and> res = Ok (derive_action_id b3 surface venue) \<and>
      disk_ok b3 disk' \<and>
      (\<forall>k. entry disk' k = (if k = mapping_key surface venue then
         Some \<lparr>op_surface = surface, op_venue_local_id = venue, op_action_id = derive_action_id b3 surface venue,
               op_wallet = wallet, op_created_ms = created\<rparr> else entry disk k))"
proof -
  obtain ix where ix: "load_index b3 disk = Ok ix" "validate_index b3 ix = Ok ()"
    "\<And>k. bt_lookup (ix_operations ix) k = entry disk k" using load_ok[OF assms(1)] by blast
  let ?r = "\<lparr>op_surface = surface, op_venue_local_id = venue,
    op_action_id = derive_action_id b3 surface venue, op_wallet = wallet, op_created_ms = created\<rparr>"
  let ?ix = "ix\<lparr>ix_operations := bt_insert (mapping_key surface venue) ?r (ix_operations ix)\<rparr>"
  show ?thesis
  proof (cases "validate_record ?r")
    case (Inl e)
    then show ?thesis using assms(2) by (auto simp: allocate_def validate_record_def)
  next
    case (Inr u)
    then have a: "allocate_locked b3 fault surface venue wallet created disk = (res, disk')"
      using assms(2) by (simp add: allocate_def validate_record_def)
    show ?thesis
    proof (cases "entry disk (mapping_key surface venue)")
      case (Some r)
      then show ?thesis using a ix by (auto simp: allocate_locked_def split: if_splits)
    next
      case None
      show ?thesis
      proof (cases "list_ex (\<lambda>(_, r). op_action_id r = derive_action_id b3 surface venue) (ix_operations ix)")
        case True
        then show ?thesis using a ix None by (auto simp: allocate_locked_def Let_def)
      next
        case False
        then have "validate_index b3 ?ix = Ok ()"
          using insert_valid[OF ix(2), of surface venue ?r] ix(3) None Inr by simp
        moreover have "entry (Some ?ix) k = (if k = mapping_key surface venue then Some ?r else entry disk k)" for k
          using ix(3) by (simp add: entry_def bt_lookup_insert)
        ultimately show ?thesis
          using a ix None False by (cases fault) (auto simp: allocate_locked_def save_index_def Let_def disk_ok_def)
      qed
    qed
  qed
qed

lemma allocate_Ok:
  assumes "disk_ok b3 disk" and "allocate b3 fault surface venue wallet created disk = (Ok i, disk')"
  shows "\<exists>r. entry disk' (mapping_key surface venue) = Some r \<and> op_wallet r = wallet \<and> op_action_id r = i"
  using allocate_cases[OF assms] by auto

lemma allocate_keeps:
  assumes "disk_ok b3 disk" and "allocate b3 fault surface venue wallet created disk = (res, disk')"
  shows "disk_ok b3 disk'" "entry disk \<subseteq>\<^sub>m entry disk'"
  using allocate_cases[OF assms] assms(1) by (auto simp: map_le_def)

lemma allocate_again:
  assumes "disk_ok b3 disk" "entry disk (mapping_key surface venue) = Some r" "op_wallet r = wallet"
    and "validate_component ''surface'' surface True = Ok ()"
    and "validate_component ''venue-local ID'' venue False = Ok ()"
    and "validate_component ''wallet'' wallet False = Ok ()"
  shows "allocate b3 fault surface venue wallet created disk = (Ok (op_action_id r), disk)"
proof -
  obtain ix where "load_index b3 disk = Ok ix" "\<And>k. bt_lookup (ix_operations ix) k = entry disk k"
    using load_ok[OF assms(1)] by blast
  then show ?thesis using assms by (simp add: allocate_def allocate_locked_def)
qed

lemma allocate_Ok_valid:
  assumes "allocate b3 fault surface venue wallet created disk = (Ok i, disk')"
  shows "validate_component ''surface'' surface True = Ok ()"
    "validate_component ''venue-local ID'' venue False = Ok ()"
    "validate_component ''wallet'' wallet False = Ok ()"
  using assms by (auto simp: allocate_def and_then_def split: sum.splits)

lemma allocate_first:
  assumes "validate_component ''surface'' surface True = Ok ()"
    "validate_component ''venue-local ID'' venue False = Ok ()"
    "validate_component ''wallet'' wallet False = Ok ()"
  shows "\<exists>disk'. allocate b3 None surface venue wallet t None = (Ok (derive_action_id b3 surface venue), disk')"
proof -
  have "validate_index b3 \<lparr>ix_schema = SCHEMA, ix_operations = [(mapping_key surface venue,
      \<lparr>op_surface = surface, op_venue_local_id = venue, op_action_id = derive_action_id b3 surface venue,
       op_wallet = wallet, op_created_ms = t\<rparr>)]\<rparr> = Ok ()"
    using assms by (simp add: validate_index_Ok record_ok_def validate_record_def)
  then show ?thesis
    using assms by (simp add: allocate_def allocate_locked_def load_index_def save_index_def
        bt_lookup_def Let_def)
qed

section \<open>Any sequence of allocations\<close>

record alloc_call =
  al_fault :: "string option"
  al_surface :: string
  al_venue :: string
  al_wallet :: string
  al_created :: nat

definition alloc_step :: "(string \<Rightarrow> string) \<Rightarrow> alloc_call \<Rightarrow> stored_index option \<Rightarrow> stored_index option" where
  "alloc_step b3 c disk =
     snd (allocate b3 (al_fault c) (al_surface c) (al_venue c) (al_wallet c) (al_created c) disk)"

interpretation op_index: op_machine "alloc_step b3" "disk_ok b3" "\<lambda>_. True" for b3
  by unfold_locales (metis alloc_step_def allocate_keeps(1) prod.collapse)

lemma run_keeps: "disk_ok b3 disk \<Longrightarrow> entry disk \<subseteq>\<^sub>m entry (fold (alloc_step b3) cs disk)"
proof (induction cs arbitrary: disk)
  case (Cons c cs)
  have "disk_ok b3 (alloc_step b3 c disk)" "entry disk \<subseteq>\<^sub>m entry (alloc_step b3 c disk)"
    using op_index.step_inv[OF Cons(2)] allocate_keeps(2)[OF Cons(2)]
    by (auto simp: alloc_step_def) (metis prod.collapse)
  then show ?case using Cons(1)[of "alloc_step b3 c disk"] map_le_trans by auto
qed simp

text \<open>
  allocation is durable and idempotent. Once an operation got an action id on a valid index,
  then after any further allocations (other operations, other wallets, failed commits) asking again
  for the same wallet returns the same id and changes nothing, and asking for another wallet is
  refused; the index stays valid throughout.
\<close>

theorem allocate_idempotent:
  assumes "disk_ok b3 disk0"
    and "allocate b3 None surface venue wallet t0 disk0 = (Ok i, disk1)"
    and "disk2 = fold (alloc_step b3) cs disk1"
  shows "disk_ok b3 disk2 \<and> allocate b3 fault surface venue wallet t disk2 = (Ok i, disk2) \<and>
    (wallet' \<noteq> wallet \<longrightarrow> \<not> is_ok (fst (allocate b3 fault surface venue wallet' t disk2)))"
proof -
  have d1: "disk_ok b3 disk1" by (rule allocate_keeps(1)[OF assms(1,2)])
  then have d2: "disk_ok b3 disk2" using op_index.run_inv[OF d1] assms(3) by simp
  obtain r where "entry disk1 (mapping_key surface venue) = Some r" "op_wallet r = wallet" "op_action_id r = i"
    using allocate_Ok[OF assms(1,2)] by blast
  then have r: "entry disk2 (mapping_key surface venue) = Some r" "op_wallet r = wallet" "op_action_id r = i"
    using run_keeps[OF d1, of cs] assms(3) by (auto simp: map_le_def dom_def)
  have "\<not> is_ok (fst (allocate b3 fault surface venue wallet' t disk2))" if "wallet' \<noteq> wallet"
    using allocate_cases[OF d2 prod.collapse[symmetric], of fault surface venue wallet' t] r that
    by (auto simp: is_ok_iff)
  then show ?thesis
    using d2 r allocate_again[OF d2 r(1,2) allocate_Ok_valid[OF assms(2)]] by auto
qed

lemma sample_components:
  "validate_component ''surface'' ''evm'' True = Ok ()"
  "validate_component ''venue-local ID'' ''tx-1'' False = Ok ()"
  "validate_component ''wallet'' ''main'' False = Ok ()"
  by code_simp+

definition sample_b3 :: "string \<Rightarrow> string" where
  "sample_b3 s = rev s @ replicate 32 CHR ''0''"

theorem allocate_idempotent_witness:
  "\<exists>i disk1. allocate sample_b3 None ''evm'' ''tx-1'' ''main'' 5 None = (Ok i, disk1) \<and>
     allocate sample_b3 None ''evm'' ''tx-1'' ''main'' 9 disk1 = (Ok i, disk1)"
proof -
  have ok: "disk_ok sample_b3 None" by (simp add: disk_ok_def)
  obtain i disk1 where a: "allocate sample_b3 None ''evm'' ''tx-1'' ''main'' 5 None = (Ok i, disk1)"
    using allocate_first[OF sample_components, of sample_b3 5] by blast
  have "disk1 = fold (alloc_step sample_b3) [] disk1" by simp
  from allocate_idempotent[OF ok a this] a show ?thesis by blast
qed



end
