(* ===== verification/Reconcile.thy ===== *)
theory Reconcile
  imports Vfs_Path
begin

text \<open>
  Reconciliation of broadcast transactions: \<open>crates/bloom-tx/src/reconcile.rs\<close>. The backoff of
  receipt lookups is the state; the clock, the confirmed nonce and what the lookup of the receipt
  (of the followed hash and its competitors) found are arguments of one pass over an entry. The
  journal and the receipt file are not modelled. Times are nanoseconds.
  The lemmas bound the wait between two lookups from both sides over every sequence of passes, and
  show that the revert reason of a standard error is decoded exactly.
\<close>

definition RECEIPT_LOOKUP_GRACE :: nat where "RECEIPT_LOOKUP_GRACE = 5 * 60 * SECOND"
definition RECEIPT_LOOKUP_SPACING :: nat where "RECEIPT_LOOKUP_SPACING = 15 * SECOND"
definition RECEIPT_LOOKUP_MAX_DELAY :: nat where "RECEIPT_LOOKUP_MAX_DELAY = 30 * 60 * SECOND"

lemmas lookup_consts = RECEIPT_LOOKUP_GRACE_def RECEIPT_LOOKUP_SPACING_def RECEIPT_LOOKUP_MAX_DELAY_def
  SECOND_def

record lookup_backoff =
  first_miss :: nat
  misses_after_grace :: nat
  next_at :: nat
  seen_spent :: bool
  nonce_checked_at :: "nat option"

type_synonym 'k backoffs = "'k \<rightharpoonup> lookup_backoff"

definition backoff_key :: "string \<Rightarrow> string \<Rightarrow> string \<Rightarrow> string" where
  "backoff_key wallet chain i = wallet @ ''/'' @ chain @ ''/'' @ i"

definition lookup_deferred :: "'k backoffs \<Rightarrow> 'k \<Rightarrow> nat \<Rightarrow> bool" where
  "lookup_deferred bs k now = (case bs k of Some b \<Rightarrow> now < next_at b | None \<Rightarrow> False)"

definition spent_nonce_read_deferred :: "'k backoffs \<Rightarrow> 'k \<Rightarrow> nat \<Rightarrow> bool" where
  "spent_nonce_read_deferred bs k now =
     (case bs k of
        Some b \<Rightarrow> seen_spent b \<and> now < next_at b \<and>
          (case nonce_checked_at b of Some checked \<Rightarrow> now < checked + RECEIPT_LOOKUP_SPACING | None \<Rightarrow> False)
      | None \<Rightarrow> False)"

definition note_spent_nonce :: "'k \<Rightarrow> nat \<Rightarrow> 'k backoffs \<Rightarrow> 'k backoffs" where
  "note_spent_nonce k now bs =
     (case bs k of
        Some b \<Rightarrow> if seen_spent b then bs(k \<mapsto> b\<lparr>nonce_checked_at := Some now\<rparr>) else bs(k := None)
      | None \<Rightarrow> bs)"

definition miss_delay :: "nat \<Rightarrow> nat" where
  "miss_delay misses = min (RECEIPT_LOOKUP_SPACING * 2 ^ min misses 16) RECEIPT_LOOKUP_MAX_DELAY"

definition record_lookup_miss :: "'k \<Rightarrow> nat \<Rightarrow> bool \<Rightarrow> 'k backoffs \<Rightarrow> 'k backoffs" where
  "record_lookup_miss k now nonce_spent bs =
     (let b0 = (case bs k of Some b \<Rightarrow> b
                | None \<Rightarrow> \<lparr>first_miss = now, misses_after_grace = 0, next_at = now,
                           seen_spent = nonce_spent, nonce_checked_at = None\<rparr>);
          b1 = b0\<lparr>seen_spent := seen_spent b0 \<or> nonce_spent\<rparr>;
          b2 = (if nonce_spent then b1\<lparr>nonce_checked_at := Some now\<rparr> else b1)
      in if now - first_miss b2 < RECEIPT_LOOKUP_GRACE
         then bs(k \<mapsto> b2\<lparr>next_at := now + RECEIPT_LOOKUP_SPACING\<rparr>)
         else let m = u_sat_add 32 (misses_after_grace b2) 1
              in bs(k \<mapsto> b2\<lparr>misses_after_grace := m, next_at := now + miss_delay m\<rparr>))"

definition space_next_lookup :: "'k \<Rightarrow> nat \<Rightarrow> 'k backoffs \<Rightarrow> 'k backoffs" where
  "space_next_lookup k now bs =
     (if (case bs k of Some b \<Rightarrow> seen_spent b | None \<Rightarrow> False) then record_lookup_miss k now False bs
      else bs(k \<mapsto> \<lparr>first_miss = now, misses_after_grace = 0, next_at = now + RECEIPT_LOOKUP_SPACING,
                    seen_spent = False, nonce_checked_at = None\<rparr>))"

section \<open>One pass over an entry\<close>

text \<open>
  What the receipt lookups of a pass found: a receipt of the followed hash or of a competing
  replacement, a mined cancellation, none, or a provider error.
\<close>

datatype lookup_outcome = ReceiptFound bool | CancelMined | NoReceipt | LookupFailed

text \<open>The tick's body for one entry that is not mined; the flag says whether a lookup was made.\<close>

definition reconcile_entry ::
  "'k \<Rightarrow> nat \<Rightarrow> nat \<Rightarrow> nat option \<Rightarrow> nat \<Rightarrow> nat \<Rightarrow> lookup_outcome \<Rightarrow> 'k backoffs \<Rightarrow> bool \<times> 'k backoffs" where
  "reconcile_entry k tx_nonce t_read confirmed t_noted now outcome bs =
     (if spent_nonce_read_deferred bs k t_read then (False, bs)
      else if (case confirmed of Some c \<Rightarrow> c \<le> tx_nonce | None \<Rightarrow> False) then
        (False, case bs k of Some b \<Rightarrow> if seen_spent b then bs(k := None) else bs | None \<Rightarrow> bs)
      else
        let nonce_spent = (confirmed \<noteq> None);
            bs1 = (if nonce_spent then note_spent_nonce k t_noted bs else bs)
        in if lookup_deferred bs1 k now then (False, bs1)
           else (True, case outcome of
               ReceiptFound _ \<Rightarrow> bs1(k := None)
             | CancelMined \<Rightarrow> bs1
             | NoReceipt \<Rightarrow> if nonce_spent then record_lookup_miss k now True bs1 else space_next_lookup k now bs1
             | LookupFailed \<Rightarrow> record_lookup_miss k now nonce_spent bs1))"

text \<open>The end of a tick: only entries still waiting keep their backoff.\<close>

definition retain_waiting :: "'k set \<Rightarrow> 'k backoffs \<Rightarrow> 'k backoffs" where
  "retain_waiting waiting bs = (\<lambda>k. if k \<in> waiting then bs k else None)"

text \<open>Competing hashes: every recorded attempt that is not the followed one, once, in order.\<close>

definition competing_attempts :: "(string \<Rightarrow> 'h option) \<Rightarrow> 'h \<Rightarrow> (string option \<times> bool) list \<Rightarrow> ('h \<times> bool) list" where
  "competing_attempts parse_hash own candidates =
     fold (\<lambda>(text, cancel) out.
        case Option.bind text (\<lambda>t. parse_hash (trim t)) of
          Some h \<Rightarrow> if h \<noteq> own \<and> \<not> list_ex (\<lambda>(seen, _). seen = h) out then out @ [(h, cancel)] else out
        | None \<Rightarrow> out) candidates []"

section \<open>How long a lookup waits\<close>

lemma miss_delay_bounds:
  "RECEIPT_LOOKUP_SPACING \<le> miss_delay m" "miss_delay m \<le> RECEIPT_LOOKUP_MAX_DELAY"
  by (auto simp: miss_delay_def lookup_consts)

lemma miss_delay_mono: "m \<le> n \<Longrightarrow> miss_delay m \<le> miss_delay n"
  unfolding miss_delay_def by (intro min.mono mult_le_mono power_increasing) auto

text \<open>The wait that follows a lookup at \<open>now\<close>.\<close>

definition waits :: "nat \<Rightarrow> lookup_backoff \<Rightarrow> bool" where
  "waits now b \<longleftrightarrow> now + RECEIPT_LOOKUP_SPACING \<le> next_at b \<and> next_at b \<le> now + RECEIPT_LOOKUP_MAX_DELAY"

lemma record_lookup_miss_waits:
  "record_lookup_miss k now s bs k = Some b \<Longrightarrow> waits now b"
  using miss_delay_bounds
  by (auto simp: record_lookup_miss_def waits_def Let_def lookup_consts split: if_splits)

lemma space_next_lookup_waits: "space_next_lookup k now bs k = Some b \<Longrightarrow> waits now b"
  using record_lookup_miss_waits[of k now False bs b]
  by (auto simp: space_next_lookup_def waits_def lookup_consts split: if_splits)

section \<open>Sequences of passes\<close>

text \<open>
  The backoff of one entry with the time of its last lookup, if its backoff still counts from it.
  A mined cancellation settles the entry, so its passes end there.
\<close>

record pass_args =
  pa_t_read :: nat
  pa_confirmed :: "nat option"
  pa_t_noted :: nat
  pa_now :: nat
  pa_outcome :: lookup_outcome

type_synonym entry_state = "lookup_backoff option \<times> nat"

definition pass :: "nat \<Rightarrow> pass_args \<Rightarrow> entry_state \<Rightarrow> entry_state" where
  "pass tx_nonce a s =
     (let (looked, bs) = reconcile_entry () tx_nonce (pa_t_read a) (pa_confirmed a) (pa_t_noted a)
                           (pa_now a) (pa_outcome a) (\<lambda>_. fst s)
      in (bs (), if looked then pa_now a else snd s))"

definition looked_up :: "nat \<Rightarrow> pass_args \<Rightarrow> entry_state \<Rightarrow> bool" where
  "looked_up tx_nonce a s =
     fst (reconcile_entry () tx_nonce (pa_t_read a) (pa_confirmed a) (pa_t_noted a)
            (pa_now a) (pa_outcome a) (\<lambda>_. fst s))"

definition entry_inv :: "entry_state \<Rightarrow> bool" where
  "entry_inv s \<longleftrightarrow> (case fst s of Some b \<Rightarrow> waits (snd s) b | None \<Rightarrow> True)"

lemma note_spent_waits:
  "note_spent_nonce k t bs k = Some b \<Longrightarrow> \<exists>b0. bs k = Some b0 \<and> next_at b = next_at b0 \<and> seen_spent b0"
  by (auto simp: note_spent_nonce_def split: option.splits if_splits)

lemma pass_inv:
  assumes "entry_inv s" "pa_outcome a \<noteq> CancelMined" shows "entry_inv (pass n a s)"
  using assms note_spent_waits[of "()" "pa_t_noted a" "\<lambda>_. fst s"]
    record_lookup_miss_waits[of "()" "pa_now a"] space_next_lookup_waits[of "()" "pa_now a"]
  by (cases "pa_outcome a")
    (auto simp: entry_inv_def pass_def reconcile_entry_def waits_def Let_def split: option.splits if_splits)

interpretation passes: op_machine "pass n" entry_inv "\<lambda>a. pa_outcome a \<noteq> CancelMined" for n
  by unfold_locales (rule pass_inv)

definition fresh_entry :: entry_state where "fresh_entry = (None, 0)"

lemma run_waits:
  assumes "\<forall>a \<in> set as. pa_outcome a \<noteq> CancelMined" "fst (fold (pass n) as fresh_entry) = Some b"
  shows "waits (snd (fold (pass n) as fresh_entry)) b"
proof -
  have "entry_inv fresh_entry" by (simp add: entry_inv_def fresh_entry_def)
  from passes.run_inv[OF this, of as n] show ?thesis using assms by (simp add: entry_inv_def)
qed

lemma looked_up_deferred:
  assumes "fst s = Some b" "looked_up n a s"
  shows "next_at b \<le> pa_now a \<or> \<not> seen_spent b \<and> (\<exists>c. pa_confirmed a = Some c \<and> n < c)"
  using assms
  by (auto simp: looked_up_def reconcile_entry_def lookup_deferred_def note_spent_nonce_def Let_def not_less
      not_le split: if_splits)

text \<open>
  receipt lookups of one transaction are spaced. While the entry has a backoff, the next lookup
  comes at least fifteen seconds after the last one, unless it is the first after the nonce is seen
  spent (the backoff then dates from passes without a confirmed nonce).
\<close>

theorem lookups_spaced:
  assumes "\<forall>a \<in> set as. pa_outcome a \<noteq> CancelMined"
    and "s = fold (pass n) as fresh_entry" "fst s = Some b" "looked_up n a s"
    and "seen_spent b \<or> pa_confirmed a = None"
  shows "snd s + RECEIPT_LOOKUP_SPACING \<le> pa_now a"
  using looked_up_deferred[OF assms(3,4)] run_waits[OF assms(1), of n b] assms(2,3,5)
  by (auto simp: waits_def)

definition miss_at :: "nat \<Rightarrow> nat option \<Rightarrow> pass_args" where
  "miss_at t confirmed = \<lparr>pa_t_read = t, pa_confirmed = confirmed, pa_t_noted = t, pa_now = t,
     pa_outcome = NoReceipt\<rparr>"

theorem lookups_spaced_witness:
  "let s = fold (pass 7) [miss_at 5 (Some 8)] fresh_entry in
   looked_up 7 (miss_at (20 * SECOND) (Some 8)) s \<and> snd s + RECEIPT_LOOKUP_SPACING \<le> 20 * SECOND"
proof -
  let ?s = "fold (pass 7) [miss_at 5 (Some 8)] fresh_entry"
  have l: "looked_up 7 (miss_at (20 * SECOND) (Some 8)) ?s" by code_simp
  have "fst ?s \<noteq> None" "seen_spent (the (fst ?s))" by code_simp+
  then obtain b where "fst ?s = Some b" "seen_spent b" by auto
  from lookups_spaced[of "[miss_at 5 (Some 8)]" ?s 7 b "miss_at (20 * SECOND) (Some 8)"] this l
  show ?thesis by (simp add: miss_at_def Let_def)
qed



text \<open>
  the spacing has an exception the constant's comment does not make. The comment calls fifteen
  seconds the shortest gap between two journaled lookups of one transaction; when a pass without a
  confirmed nonce is followed two seconds later by one that sees the nonce spent, the second looks
  the receipt up at once.
\<close>

theorem lookups_two_seconds_apart:
  "let s = fold (pass 7) [miss_at SECOND None] fresh_entry in
   snd s = SECOND \<and> looked_up 7 (miss_at (3 * SECOND) (Some 8)) s \<and>
   3 * SECOND < snd s + RECEIPT_LOOKUP_SPACING"
  by code_simp

section \<open>Revert reasons\<close>

definition be_value :: "string \<Rightarrow> nat" where
  "be_value s = foldl (\<lambda>acc c. 256 * acc + byte c) 0 s"

definition ERROR_SELECTOR :: string where
  "ERROR_SELECTOR = [CHR 0x08, CHR 0xC3, CHR 0x79, CHR 0xA0]"

text \<open>\<open>hex_encode\<close> is the \<open>hex\<close> crate's encoder.\<close>

definition decode_revert :: "(string \<Rightarrow> string) \<Rightarrow> string \<Rightarrow> string" where
  "decode_revert hex_encode bs =
     (let fallback = ''0x'' @ hex_encode bs in
      if 68 \<le> length bs \<and> take 4 bs = ERROR_SELECTOR then
        let len = be_value (take 8 (drop 60 bs));
            stop = u_sat_add 64 68 len
        in if stop \<le> length bs \<and> utf8_valid (take (stop - 68) (drop 68 bs))
           then take (stop - 68) (drop 68 bs) else fallback
      else fallback)"

text \<open>The ABI encoding of \<open>Error(string)\<close>: selector, offset word, length word, padded text.\<close>

definition encode_error :: "string \<Rightarrow> nat \<Rightarrow> string" where
  "encode_error t padding =
     ERROR_SELECTOR @ be_bytes 32 32 @ be_bytes 32 (length t) @ t @ replicate padding (CHR 0x00)"

lemma be_bytes_append: "be_bytes (j + k) n = be_bytes j (n div 256 ^ k) @ be_bytes k n"
  by (induction k arbitrary: n) (simp_all add: div_mult2_eq mult.commute)

lemma be_value_bytes: "n < 256 ^ k \<Longrightarrow> be_value (be_bytes k n) = n"
proof (induction k arbitrary: n)
  case (Suc k)
  then have "n div 256 < 256 ^ k" by (simp add: less_mult_imp_div_less mult.commute)
  then have "be_value (be_bytes k (n div 256)) = n div 256" by (rule Suc.IH)
  moreover have "byte (char_of (n mod 256)) = n mod 256" by (rule byte_char_of) simp
  ultimately show ?case unfolding be_value_def be_bytes.simps foldl_append by (simp del: char_of_mod_256)
qed (simp add: be_value_def)

text \<open>
  the revert reason of a standard \<open>Error(string)\<close> return is decoded to exactly the text the
  contract gave, for every valid UTF-8 text and padding.
\<close>

theorem decode_revert_exact:
  assumes "utf8_valid t" "length t + 68 < 2 ^ 64"
  shows "decode_revert hex_encode (encode_error t padding) = t"
proof -
  let ?pad = "replicate padding (CHR 0x00)" and ?l = "be_bytes 8 (length t)"
  have len: "be_bytes 32 (length t) = be_bytes 24 (length t div 256 ^ 8) @ ?l"
    using be_bytes_append[of 24 8 "length t"] by simp
  define P where "P = ERROR_SELECTOR @ be_bytes 32 32 @ be_bytes 24 (length t div 256 ^ 8)"
  have P: "encode_error t padding = P @ ?l @ t @ ?pad"
    unfolding encode_error_def len P_def by simp
  have P60: "length P = 60" "take 4 P = ERROR_SELECTOR" by (simp_all add: P_def ERROR_SELECTOR_def)
  have "be_value ?l = length t" using assms(2) by (intro be_value_bytes) simp
  then show ?thesis
    using P P60 assms by (simp add: decode_revert_def Let_def u_sat_add_def u_max_def)
qed

theorem decode_revert_exact_witness:
  "utf8_valid ''nope'' \<and> decode_revert id (encode_error ''nope'' 28) = ''nope''"
proof -
  have "utf8_valid ''nope''" by code_simp
  then show ?thesis using decode_revert_exact[of "''nope''" id 28] by simp
qed

end
