(* ===== verification/Petal_Policy.thy ===== *)
theory Petal_Policy
  imports Vfs_Path "HOL-Library.Char_ord" "HOL-Library.List_Lexorder"
begin

text \<open>
  The runtime policies of petals, \<open>crates/bloom-petals/src/policy.rs\<close>, with the manifest checks of
  \<open>package.rs\<close> they rest on. A network policy is a list of rules (host, methods, path globs); the
  policy a route runs under is the one its signed manifest declares, with the daemon's endpoint
  bindings resolved, intersected with the mask of the invocation. A store policy is the set of
  namespaces a route may touch, the secret ones among them, and the keys shared by all accounts.

  The URL parser (crate \<open>url\<close>) is an argument \<open>parse_url\<close>, \<open>url::Host::parse\<close> an argument
  \<open>parse_host\<close>; a \<open>BTreeSet\<close> of strings is a set. \<open>V2 s\<close> in a message stands for the \<open>{:?}\<close>
  rendering of \<open>s\<close>.
\<close>

section \<open>Errors\<close>

datatype host_error =
    H_NotFound "string msg" | H_Denied "string msg" | H_Invalid "string msg"
  | H_Backend "string msg" | H_UnsupportedVersion "string msg"

fun as_wasm_code :: "host_error \<Rightarrow> int" where
  "as_wasm_code (H_NotFound _) = -1"
| "as_wasm_code (H_Denied _) = -2"
| "as_wasm_code (H_Invalid _) = -3"
| "as_wasm_code (H_Backend _) = -4"
| "as_wasm_code (H_UnsupportedVersion _) = -5"

text \<open>Of \<open>PetalError\<close>, the kinds the modelled code raises.\<close>

datatype petal_error =
    P_NotFound "string msg" | InvalidHash "string msg" | InvalidName "string msg" | InvalidWasm "string msg"
  | P_Vm "string msg" | P_Io "string msg" | P_Serde "string msg" | CapMismatch | ModeConflict | ModeUnsupported "string msg"

section \<open>URLs\<close>

record url =
  u_scheme :: string
  u_username :: string
  u_password :: "string option"
  u_host :: "string option"
  u_port :: "nat option"
  u_path :: string
  u_query :: "string option"
  u_fragment :: "string option"

type_synonym url_parser = "string \<Rightarrow> (string, url) result"

section \<open>Path globs\<close>

definition strip_star :: "string \<Rightarrow> string option" where
  "strip_star g = (if g \<noteq> [] \<and> last g = CHR ''*'' then Some (butlast g) else None)"

definition trim_slashes :: "string \<Rightarrow> string" where
  "trim_slashes s = dropWhile (\<lambda>c. c = CHR ''/'') s"

definition segment_matches :: "string \<Rightarrow> string \<Rightarrow> bool" where
  "segment_matches g p \<longleftrightarrow> g = ''*'' \<or> g = p"

definition glob_matches :: "string \<Rightarrow> string \<Rightarrow> bool" where
  "glob_matches glob path \<longleftrightarrow>
     (if glob = ''/*'' then True
      else case strip_star glob of
        Some prefix \<Rightarrow> starts_with path prefix
      | None \<Rightarrow> list_all2 segment_matches
          (split_on CHR ''/'' (trim_slashes glob)) (split_on CHR ''/'' (trim_slashes path)))"

definition glob_subsumes :: "string \<Rightarrow> string \<Rightarrow> bool" where
  "glob_subsumes parent child \<longleftrightarrow>
     parent = child \<or> parent = ''/*'' \<or>
     (case strip_star parent of Some prefix \<Rightarrow> starts_with child prefix | None \<Rightarrow> False)"

definition glob_meet :: "string \<Rightarrow> string \<Rightarrow> string list" where
  "glob_meet left right =
     (if left = right then [left]
      else if glob_subsumes left right then [right]
      else if glob_subsumes right left then [left]
      else [])"

definition intersect_paths :: "string list \<Rightarrow> string list \<Rightarrow> string list" where
  "intersect_paths a b =
     (if a = [] then b
      else if b = [] then a
      else remdups_adj (sort (concat (map (\<lambda>left. concat (map (glob_meet left) b)) a))))"

section \<open>Network policy\<close>

record net_rule =
  nr_binding :: "string option"
  nr_host :: string
  nr_methods :: "string set"
  nr_paths :: "string list"

record net_policy =
  np_rules :: "net_rule list"

definition deny_all :: net_policy where
  "deny_all = \<lparr>np_rules = []\<rparr>"

definition path_allowed :: "net_rule \<Rightarrow> string \<Rightarrow> bool" where
  "path_allowed rule path \<longleftrightarrow>
     nr_paths rule = [] \<or> list_ex (\<lambda>glob. glob_matches glob path) (nr_paths rule)"

definition intersect_rules :: "net_rule \<Rightarrow> net_rule \<Rightarrow> net_rule list" where
  "intersect_rules declared runtime =
     (let methods = nr_methods declared \<inter> nr_methods runtime;
          paths = intersect_paths (nr_paths declared) (nr_paths runtime)
      in if nr_host declared \<noteq> nr_host runtime then []
         else if methods = {} then []
         else if paths = [] \<and> (nr_paths declared \<noteq> [] \<or> nr_paths runtime \<noteq> []) then []
         else [\<lparr>nr_binding = nr_binding declared, nr_host = nr_host declared,
                nr_methods = methods, nr_paths = paths\<rparr>])"

definition net_intersect :: "net_policy \<Rightarrow> net_policy \<Rightarrow> net_policy" where
  "net_intersect pol msk =
     \<lparr>np_rules = concat (map (\<lambda>declared. concat (map (intersect_rules declared) (np_rules msk)))
        (np_rules pol))\<rparr>"

definition net_rule_allows :: "string \<Rightarrow> string \<Rightarrow> string \<Rightarrow> net_rule \<Rightarrow> bool" where
  "net_rule_allows host meth path rule \<longleftrightarrow>
     nr_host rule = host \<and> meth \<in> nr_methods rule \<and> path_allowed rule path"

definition net_check_host :: "net_policy \<Rightarrow> string \<Rightarrow> url \<Rightarrow> (host_error, unit) result" where
  "net_check_host pol meth url =
     (case u_host url of
        None \<Rightarrow> Err (H_Invalid [S ''url missing host''])
      | Some h \<Rightarrow>
          let host = to_ascii_lowercase h; meth = to_ascii_uppercase meth in
          if list_ex (net_rule_allows host meth (u_path url)) (np_rules pol) then Ok ()
          else Err (H_Denied [S meth, S '' '', S host,
            S '': not allowed by effective network policy (check manifest and invocation grant)'']))"

definition net_check ::
  "url_parser \<Rightarrow> net_policy \<Rightarrow> string \<Rightarrow> string \<Rightarrow> (host_error, unit) result" where
  "net_check parse_url pol meth addr =
     (case parse_url addr of
        Inl e \<Rightarrow> Err (H_Invalid [S ''url: '', S e])
      | Inr url \<Rightarrow>
          if u_scheme url \<noteq> ''https'' then Err (H_Denied [S ''net.fetch requires https''])
          else case u_port url of
            Some port \<Rightarrow>
              if port \<noteq> 443
              then Err (H_Denied [S ''net.fetch disallows non-default https port '', N (int port)])
              else net_check_host pol meth url
          | None \<Rightarrow> net_check_host pol meth url)"

section \<open>Endpoint bindings\<close>

definition validate_binding_name :: "string \<Rightarrow> (petal_error, unit) result" where
  "validate_binding_name binding =
     (if binding = [] \<or>
         \<not> list_all (\<lambda>c. is_ascii_alphanumeric c \<or> c = CHR ''-'' \<or> c = CHR ''_'') binding
      then Err (InvalidWasm [S ''endpoint binding '', V2 binding,
        S '' must contain only ASCII letters, digits, '', S [CHR 0x27], S ''-'', S [CHR 0x27],
        S '' or '', S [CHR 0x27], S ''_'', S [CHR 0x27]])
      else Ok ())"

definition endpoint_origin_host :: "url_parser \<Rightarrow> string \<Rightarrow> (petal_error, string) result" where
  "endpoint_origin_host parse_url origin =
     (case parse_url origin of
        Inl e \<Rightarrow> Err (InvalidWasm [S ''endpoint binding URL: '', S e])
      | Inr url \<Rightarrow>
          if u_scheme url \<noteq> ''https'' \<or> u_username url \<noteq> [] \<or> u_password url \<noteq> None
             \<or> (case u_port url of Some port \<Rightarrow> port \<noteq> 443 | None \<Rightarrow> False)
             \<or> u_path url \<noteq> ''/'' \<or> u_query url \<noteq> None \<or> u_fragment url \<noteq> None
          then Err (InvalidWasm [S ''endpoint binding must be an HTTPS origin using the default port''])
          else ok_or (map_option to_ascii_lowercase (u_host url))
            (InvalidWasm [S ''endpoint binding URL is missing a host'']))"

text \<open>The bindings of the daemon's configuration, an ordered map given as its entries.\<close>

type_synonym bindings = "(string \<times> string) list"

fun check_binding_names :: "net_policy \<Rightarrow> bindings \<Rightarrow> (petal_error, unit) result" where
  "check_binding_names pol [] = Ok ()"
| "check_binding_names pol ((binding, _) # rest) =
     and_then (validate_binding_name binding) (\<lambda>_.
       if \<not> list_ex (\<lambda>rule. nr_binding rule = Some binding) (np_rules pol)
       then Err (InvalidWasm [S ''endpoint override '', V2 binding,
         S '' is not declared by the petal manifest''])
       else check_binding_names pol rest)"

definition bind_rule :: "url_parser \<Rightarrow> bindings \<Rightarrow> net_rule \<Rightarrow> (petal_error, net_rule) result" where
  "bind_rule parse_url bindings rule =
     (case nr_binding rule of
        None \<Rightarrow> Ok rule
      | Some binding \<Rightarrow>
          (case map_of bindings binding of
             None \<Rightarrow> Ok rule
           | Some origin \<Rightarrow>
               and_then (endpoint_origin_host parse_url origin) (\<lambda>host. Ok (rule\<lparr>nr_host := host\<rparr>))))"

fun bind_rules ::
  "url_parser \<Rightarrow> bindings \<Rightarrow> net_rule list \<Rightarrow> (petal_error, net_rule list) result" where
  "bind_rules parse_url bindings [] = Ok []"
| "bind_rules parse_url bindings (rule # rules) =
     and_then (bind_rule parse_url bindings rule) (\<lambda>r.
       and_then (bind_rules parse_url bindings rules) (\<lambda>rs. Ok (r # rs)))"

definition with_endpoint_bindings ::
  "url_parser \<Rightarrow> net_policy \<Rightarrow> bindings \<Rightarrow> (petal_error, net_policy) result" where
  "with_endpoint_bindings parse_url pol bindings =
     and_then (check_binding_names pol bindings) (\<lambda>_.
       and_then (bind_rules parse_url bindings (np_rules pol)) (\<lambda>rules. Ok \<lparr>np_rules = rules\<rparr>))"

section \<open>Network rules of a manifest\<close>

record net_allow_toml =
  na_binding :: "string option"
  na_host :: string
  na_methods :: "string list"
  na_paths :: "string list"

record store_toml =
  st_namespaces :: "string list"
  st_secret_namespaces :: "string list"
  st_shared_keys :: "string list"

text \<open>The sections of a parsed \<open>petal.toml\<close> the policies are read from.\<close>

record petal_toml =
  pt_caps_allowed :: "string list"
  pt_net_allow :: "net_allow_toml list"
  pt_store :: store_toml

abbreviation net_allow_tag :: "string piece" where
  "net_allow_tag \<equiv> S (''['' @ ''[net.allow]'' @ '']'')"

definition validate_net_rule ::
  "(string \<Rightarrow> bool) \<Rightarrow> net_allow_toml \<Rightarrow> (petal_error, unit) result" where
  "validate_net_rule parse_host rule =
     (if trim (na_host rule) = [] \<or> na_methods rule = []
      then Err (InvalidWasm
        [S ''Petal '', net_allow_tag, S '' rules require a host and at least one method''])
      else if trim (na_host rule) \<noteq> na_host rule \<or> \<not> parse_host (na_host rule)
      then Err (InvalidWasm [S ''Petal '', net_allow_tag, S '' host '', V2 (na_host rule),
        S '' must be a bare DNS name or IP address without a scheme, path, or port''])
      else if list_ex (\<lambda>m. trim m = []) (na_methods rule)
      then Err (InvalidWasm [S ''Petal '', net_allow_tag, S '' methods must be non-empty''])
      else and_then (case na_binding rule of None \<Rightarrow> Ok () | Some b \<Rightarrow> validate_binding_name b) (\<lambda>_.
        if na_paths rule = [] \<or> list_ex (\<lambda>p. trim p = []) (na_paths rule)
        then Err (InvalidWasm [S ''Petal '', net_allow_tag, S '' paths must be explicit and non-empty; use '',
          V2 ''/*'', S '' for all paths''])
        else Ok ()))"

fun validate_net_rules ::
  "(string \<Rightarrow> bool) \<Rightarrow> net_allow_toml list \<Rightarrow> (petal_error, unit) result" where
  "validate_net_rules parse_host [] = Ok ()"
| "validate_net_rules parse_host (rule # rules) =
     and_then (validate_net_rule parse_host rule) (\<lambda>_. validate_net_rules parse_host rules)"

definition validate_net_policy ::
  "(string \<Rightarrow> bool) \<Rightarrow> string set \<Rightarrow> net_allow_toml list \<Rightarrow> (petal_error, unit) result" where
  "validate_net_policy parse_host allowed_caps allow =
     (if ''bloom:http'' \<in> allowed_caps \<and> allow = []
      then Err (InvalidWasm
        [S ''Petal package cap bloom:http requires at least one '', net_allow_tag, S '' rule''])
      else validate_net_rules parse_host allow)"

text \<open>The TOML parser is an argument; an invalid document is a \<open>Serde\<close> error.\<close>

type_synonym toml_parser = "string \<Rightarrow> (string, petal_toml) result"

definition read_manifest :: "toml_parser \<Rightarrow> string \<Rightarrow> (petal_error, petal_toml) result" where
  "read_manifest toml bytes =
     (if \<not> utf8_valid bytes then Err (InvalidWasm [S ''petal.toml is not utf-8''])
      else map_err (\<lambda>e. P_Serde [S e]) (toml bytes))"

definition net_rules_from_manifest_toml ::
  "toml_parser \<Rightarrow> (string \<Rightarrow> bool) \<Rightarrow> string \<Rightarrow> (petal_error, net_allow_toml list) result" where
  "net_rules_from_manifest_toml toml parse_host bytes =
     and_then (read_manifest toml bytes) (\<lambda>manifest.
       and_then (validate_net_policy parse_host (set (pt_caps_allowed manifest)) (pt_net_allow manifest))
         (\<lambda>_. Ok (pt_net_allow manifest)))"

definition manifest_rule :: "net_allow_toml \<Rightarrow> net_rule" where
  "manifest_rule rule =
     \<lparr>nr_binding = na_binding rule, nr_host = to_ascii_lowercase (na_host rule),
      nr_methods = set (map to_ascii_uppercase (na_methods rule)), nr_paths = na_paths rule\<rparr>"

definition from_manifest_toml ::
  "toml_parser \<Rightarrow> (string \<Rightarrow> bool) \<Rightarrow> string \<Rightarrow> (petal_error, net_policy) result" where
  "from_manifest_toml toml parse_host bytes =
     and_then (net_rules_from_manifest_toml toml parse_host bytes) (\<lambda>rules.
       Ok \<lparr>np_rules = map manifest_rule rules\<rparr>)"

section \<open>Store namespaces\<close>

record store_policy =
  sn_private :: "string set"
  sn_secret :: "string set"
  sn_shared_keys :: "string set"

definition from_namespaces :: "string list \<Rightarrow> string list \<Rightarrow> store_policy" where
  "from_namespaces priv sec =
     \<lparr>sn_private = set priv \<union> set sec, sn_secret = set sec, sn_shared_keys = {}\<rparr>"

definition policy_with_shared_keys :: "store_policy \<Rightarrow> string list \<Rightarrow> store_policy" where
  "policy_with_shared_keys pol keys = pol\<lparr>sn_shared_keys := set keys\<rparr>"

definition store_intersect :: "store_policy \<Rightarrow> store_policy \<Rightarrow> store_policy" where
  "store_intersect pol msk =
     (let priv = sn_private pol \<inter> sn_private msk;
          secret_union = sn_secret pol \<union> sn_secret msk
      in \<lparr>sn_private = priv, sn_secret = priv \<inter> secret_union,
          sn_shared_keys = Set.filter (\<lambda>key. case split_once CHR ''/'' key of
            Some (ns, _) \<Rightarrow> ns \<in> priv | None \<Rightarrow> False) (sn_shared_keys pol)\<rparr>)"

definition check_namespace :: "store_policy \<Rightarrow> string \<Rightarrow> (host_error, unit) result" where
  "check_namespace pol ns =
     (if ns \<in> sn_private pol then Ok ()
      else Err (H_Denied [S ''store namespace '', V2 ns, S '' is not allowed'']))"

definition check_put :: "store_policy \<Rightarrow> string \<Rightarrow> bool \<Rightarrow> (host_error, unit) result" where
  "check_put pol ns secret =
     and_then (check_namespace pol ns) (\<lambda>_.
       case (ns \<in> sn_secret pol, secret) of
         (True, True) \<Rightarrow> Ok ()
       | (False, False) \<Rightarrow> Ok ()
       | (True, False) \<Rightarrow> Err (H_Denied [S ''store namespace '', V2 ns, S '' requires secret writes''])
       | (False, True) \<Rightarrow> Err (H_Denied [S ''store namespace '', V2 ns, S '' is not declared secret'']))"

section \<open>The policies a route runs under\<close>

definition effective_net_policy ::
  "url_parser \<Rightarrow> net_policy \<Rightarrow> bindings \<Rightarrow> net_policy option \<Rightarrow> (petal_error, net_policy) result" where
  "effective_net_policy parse_url pol bindings net_mask =
     and_then (with_endpoint_bindings parse_url pol bindings) (\<lambda>declared.
       Ok (case net_mask of Some m \<Rightarrow> net_intersect declared m | None \<Rightarrow> declared))"

definition effective_store_policy :: "store_policy \<Rightarrow> store_policy option \<Rightarrow> store_policy" where
  "effective_store_policy declared store_mask =
     (case store_mask of Some m \<Rightarrow> store_intersect declared m | None \<Rightarrow> declared)"

section \<open>Globs\<close>

text \<open>
  The globs for which subsumption is inclusion: one leading slash, and a trailing star is the
  only star of the glob. Stars that are whole segments of other globs are unrestricted.
\<close>

definition single_slash :: "string \<Rightarrow> bool" where
  "single_slash p \<longleftrightarrow> p \<noteq> [] \<and> hd p = CHR ''/'' \<and> (tl p = [] \<or> hd (tl p) \<noteq> CHR ''/'')"

definition plain_glob :: "string \<Rightarrow> bool" where
  "plain_glob g \<longleftrightarrow> single_slash g \<and> (last g = CHR ''*'' \<longrightarrow> CHR ''*'' \<notin> set (butlast g))"

definition plain_policy :: "net_policy \<Rightarrow> bool" where
  "plain_policy pol \<longleftrightarrow> list_all (\<lambda>rule. list_all plain_glob (nr_paths rule)) (np_rules pol)"

lemma starts_with_iff: "starts_with s p \<longleftrightarrow> (\<exists>r. s = p @ r)"
  unfolding starts_with_def by (metis append_eq_conv_conj append_take_drop_id)

lemma single_slash_cases:
  assumes "single_slash p"
  obtains r where "p = CHR ''/'' # r" "trim_slashes p = r"
  using assms by (cases p; cases "tl p") (auto simp: single_slash_def trim_slashes_def)

lemma strip_star_Some: "strip_star g = Some q \<longleftrightarrow> g = q @ ''*''"
  by (auto simp: strip_star_def) (metis append_butlast_last_id)

lemma split_on_Cons_sep: "split_on d p = [] # ys \<Longrightarrow> ys \<noteq> [] \<Longrightarrow> \<exists>p'. p = d # p' \<and> split_on d p' = ys"
  by (cases p) (auto split: if_splits list.splits)

lemma split_on_Cons_char:
  "split_on d p = (x # h) # ys \<Longrightarrow> \<exists>p'. p = x # p' \<and> split_on d p' = h # ys"
  by (cases p) (auto split: if_splits list.splits)

lemma segment_matches_literal [simp]:
  "segment_matches [] p \<longleftrightarrow> p = []"
  "x \<noteq> CHR ''*'' \<Longrightarrow> segment_matches (x # h) p \<longleftrightarrow> p = x # h"
  "segment_matches g g"
  by (auto simp: segment_matches_def)

lemma strip_star_snoc [simp]: "strip_star (q @ ''*'') = Some q"
  by (simp add: strip_star_Some)

lemma segments_keep_prefix:
  assumes "list_all2 segment_matches (split_on CHR ''/'' (q @ rest)) (split_on CHR ''/'' p)"
    and "CHR ''*'' \<notin> set q"
  shows "\<exists>r. p = q @ r"
  using assms
proof (induction q arbitrary: p)
  case (Cons x q)
  show ?case
  proof (cases "x = CHR ''/''")
    case True
    with Cons.prems obtain ys where ys: "split_on CHR ''/'' p = [] # ys"
      "list_all2 segment_matches (split_on CHR ''/'' (q @ rest)) ys"
      by (auto simp: list_all2_Cons1)
    then have "ys \<noteq> []" by auto
    from split_on_Cons_sep [OF ys(1) this] obtain p' where
      p': "p = CHR ''/'' # p'" "split_on CHR ''/'' p' = ys" by blast
    with Cons.IH [of p'] ys(2) Cons.prems(2) True show ?thesis by auto
  next
    case False
    obtain h t where ht: "split_on CHR ''/'' (q @ rest) = h # t"
      by (cases "split_on CHR ''/'' (q @ rest)") auto
    with Cons.prems False obtain ys where ys: "split_on CHR ''/'' p = (x # h) # ys"
      "list_all2 segment_matches t ys"
      by (auto simp: list_all2_Cons1)
    from split_on_Cons_char [OF ys(1)] obtain p' where
      p': "p = x # p'" "split_on CHR ''/'' p' = h # ys" by blast
    with Cons.IH [of p'] ys(2) ht Cons.prems(2) show ?thesis by auto
  qed
qed simp

lemma subsumes_matches:
  assumes glob: "plain_glob parent" "plain_glob child" and path: "single_slash p"
    and sub: "glob_subsumes parent child" and m: "glob_matches child p"
  shows "glob_matches parent p"
proof (cases "parent = child \<or> parent = ''/*''")
  case True
  then show ?thesis using m by (auto simp: glob_matches_def)
next
  case False
  with sub obtain q r where q: "parent = q @ ''*''" "child = q @ r"
    by (auto simp: glob_subsumes_def strip_star_Some starts_with_iff split: option.splits)
  have star: "CHR ''*'' \<notin> set q" using glob(1) q(1) by (simp add: plain_glob_def)
  have r: "r \<noteq> ''*''" using False q by auto
  have "starts_with p q"
  proof (cases "strip_star child")
    case None
    obtain c where c: "child = CHR ''/'' # c" "trim_slashes child = c"
      using glob(2) by (auto simp: plain_glob_def elim: single_slash_cases)
    obtain w where w: "p = CHR ''/'' # w" "trim_slashes p = w"
      using path by (auto elim: single_slash_cases)
    obtain q' where q': "q = CHR ''/'' # q'"
      using glob(1) q(1) False by (cases q) (auto simp: plain_glob_def single_slash_def)
    have "child \<noteq> ''/*''" using None by (auto simp: strip_star_def)
    then have "list_all2 segment_matches (split_on CHR ''/'' c) (split_on CHR ''/'' w)"
      using m None c w by (simp add: glob_matches_def)
    then show ?thesis
      using segments_keep_prefix [of q' r w] star c q(2) q' w by (auto simp: starts_with_iff)
  next
    case (Some s)
    then have s: "child = s @ ''*''" by (simp add: strip_star_Some)
    then obtain r' where r': "r = r' @ ''*''" "s = q @ r'"
      using q(2) star by (cases r rule: rev_cases) auto
    show ?thesis
    proof (cases "child = ''/*''")
      case True
      then have "s = ''/''" using s by simp
      then have "q = [] \<or> r' = []" using r' by (cases q) auto
      then show ?thesis using r r' by (auto simp: starts_with_iff)
    next
      case False
      then show ?thesis using m Some r' by (auto simp: glob_matches_def starts_with_iff)
    qed
  qed
  then show ?thesis using False q by (simp add: glob_matches_def)
qed

section \<open>What a policy allows\<close>

lemma path_allowed_iff:
  "path_allowed rule p \<longleftrightarrow> nr_paths rule = [] \<or> (\<exists>g\<in>set (nr_paths rule). glob_matches g p)"
  by (simp add: path_allowed_def list_ex_iff)

lemma set_intersect_paths:
  "a \<noteq> [] \<Longrightarrow> b \<noteq> [] \<Longrightarrow>
   set (intersect_paths a b) = (\<Union>l\<in>set a. \<Union>r\<in>set b. set (glob_meet l r))"
  by (simp add: intersect_paths_def)

lemma glob_meet_matches:
  assumes "g \<in> set (glob_meet l r)" "plain_glob l" "plain_glob r" "single_slash p" "glob_matches g p"
  shows "glob_matches l p \<and> glob_matches r p"
proof -
  consider "g = l" "l = r" | "g = r" "glob_subsumes l r" | "g = l" "glob_subsumes r l"
    using assms(1) by (auto simp: glob_meet_def split: if_splits)
  then show ?thesis
    using assms(5) subsumes_matches [OF assms(2,3,4)] subsumes_matches [OF assms(3,2,4)]
    by cases simp_all
qed

lemma intersect_rules_allows:
  assumes e: "e \<in> set (intersect_rules d m)" and ok: "net_rule_allows h meth p e"
    and glob: "list_all plain_glob (nr_paths d)" "list_all plain_glob (nr_paths m)" "single_slash p"
  shows "net_rule_allows h meth p d \<and> net_rule_allows h meth p m"
proof -
  let ?paths = "intersect_paths (nr_paths d) (nr_paths m)"
  have r: "nr_host d = nr_host m" "?paths = [] \<Longrightarrow> nr_paths d = [] \<and> nr_paths m = []"
    "e = \<lparr>nr_binding = nr_binding d, nr_host = nr_host d,
          nr_methods = nr_methods d \<inter> nr_methods m, nr_paths = ?paths\<rparr>"
    using e by (simp_all add: intersect_rules_def Let_def split: if_splits)
  have p: "?paths = [] \<or> (\<exists>g\<in>set ?paths. glob_matches g p)"
    using ok by (simp add: r(3) net_rule_allows_def path_allowed_iff)
  have "path_allowed d p \<and> path_allowed m p"
  proof (cases "nr_paths d = [] \<or> nr_paths m = []")
    case True
    then have "?paths = nr_paths d @ nr_paths m" by (auto simp: intersect_paths_def)
    then show ?thesis using p True by (auto simp: path_allowed_iff)
  next
    case False
    then obtain g l q where g: "g \<in> set (glob_meet l q)" "glob_matches g p"
      "l \<in> set (nr_paths d)" "q \<in> set (nr_paths m)"
      using p r(2) by (metis (no_types, lifting) UN_E set_intersect_paths)
    then have "plain_glob l" "plain_glob q" using glob(1,2) by (simp_all add: list_all_iff)
    then show ?thesis
      using glob_meet_matches [OF g(1) _ _ glob(3) g(2)] g(3,4) by (auto simp: path_allowed_iff)
  qed
  then show ?thesis using ok r(1) by (simp add: r(3) net_rule_allows_def)
qed

lemma net_check_Ok:
  "net_check parse_url pol meth addr = Ok () \<longleftrightarrow>
   (\<exists>u h. parse_url addr = Ok u \<and> u_scheme u = ''https'' \<and> u_port u \<in> {None, Some 443} \<and>
      u_host u = Some h \<and>
      (\<exists>rule\<in>set (np_rules pol).
         net_rule_allows (to_ascii_lowercase h) (to_ascii_uppercase meth) (u_path u) rule))"
proof (cases "parse_url addr")
  case (Inr u)
  show ?thesis
    by (cases "u_port u"; cases "u_host u")
      (simp_all add: Inr net_check_def net_check_host_def Let_def list_ex_iff)
qed (simp add: net_check_def)

lemma net_intersect_check:
  assumes "plain_policy d" "plain_policy m" "parse_url addr = Ok u" "single_slash (u_path u)"
    and "net_check parse_url (net_intersect d m) meth addr = Ok ()"
  shows "net_check parse_url d meth addr = Ok () \<and> net_check parse_url m meth addr = Ok ()"
proof -
  obtain h e where e: "u_scheme u = ''https''" "u_port u \<in> {None, Some 443}" "u_host u = Some h"
    "e \<in> set (np_rules (net_intersect d m))"
    "net_rule_allows (to_ascii_lowercase h) (to_ascii_uppercase meth) (u_path u) e"
    using assms(3,5) by (auto simp: net_check_Ok)
  then obtain a b where ab: "a \<in> set (np_rules d)" "b \<in> set (np_rules m)" "e \<in> set (intersect_rules a b)"
    by (auto simp: net_intersect_def)
  then have "net_rule_allows (to_ascii_lowercase h) (to_ascii_uppercase meth) (u_path u) a \<and>
      net_rule_allows (to_ascii_lowercase h) (to_ascii_uppercase meth) (u_path u) b"
    using intersect_rules_allows [OF ab(3) e(5)] assms(1,2,4) by (auto simp: plain_policy_def list_all_iff)
  then show ?thesis using e ab assms(3) by (auto simp: net_check_Ok)
qed

section \<open>Endpoint bindings replace hosts only\<close>

definition bound_rule :: "url_parser \<Rightarrow> bindings \<Rightarrow> net_rule \<Rightarrow> net_rule \<Rightarrow> bool" where
  "bound_rule parse_url bindings rule r \<longleftrightarrow>
     (\<exists>host. r = rule\<lparr>nr_host := host\<rparr> \<and>
       (host = nr_host rule \<or>
        (\<exists>b origin. nr_binding rule = Some b \<and> map_of bindings b = Some origin \<and>
           endpoint_origin_host parse_url origin = Ok host)))"

lemma bind_rule_bound: "bind_rule parse_url bindings rule = Ok r \<Longrightarrow> bound_rule parse_url bindings rule r"
  by (auto simp: bind_rule_def bound_rule_def and_then_Ok_iff split: option.splits)

lemma bind_rules_bound:
  "bind_rules parse_url bindings rules = Ok rs \<Longrightarrow> list_all2 (bound_rule parse_url bindings) rules rs"
  by (induction rules arbitrary: rs) (auto simp: and_then_Ok_iff bind_rule_bound)

lemma with_endpoint_bindings_bound:
  assumes "with_endpoint_bindings parse_url pol bindings = Ok d"
  shows "list_all2 (bound_rule parse_url bindings) (np_rules pol) (np_rules d)"
  using assms by (auto simp: with_endpoint_bindings_def and_then_Ok_iff bind_rules_bound)

lemma list_all2_preimage: "list_all2 P xs ys \<Longrightarrow> y \<in> set ys \<Longrightarrow> \<exists>x\<in>set xs. P x y"
  by (induction rule: list_all2_induct) auto

lemma with_endpoint_bindings_plain:
  assumes "with_endpoint_bindings parse_url pol bindings = Ok d" "plain_policy pol"
  shows "plain_policy d"
  using with_endpoint_bindings_bound [OF assms(1)] assms(2)
  unfolding plain_policy_def
  by (induction rule: list_all2_induct) (auto simp: bound_rule_def)

lemma endpoint_origin_host_Ok:
  "endpoint_origin_host parse_url origin = Ok host \<Longrightarrow>
   \<exists>u h. parse_url origin = Ok u \<and> u_scheme u = ''https'' \<and> u_port u \<in> {None, Some 443} \<and>
     u_username u = [] \<and> u_password u = None \<and> u_host u = Some h \<and> host = to_ascii_lowercase h"
  by (auto simp: endpoint_origin_host_def ok_or_def split: sum.splits option.splits if_splits)

section \<open>Rules of a validated manifest\<close>

lemma validate_net_rules_Ok:
  "validate_net_rules parse_host rules = Ok () \<longleftrightarrow> (\<forall>r\<in>set rules. validate_net_rule parse_host r = Ok ())"
  by (induction rules) (auto simp: and_then_Ok_iff)

lemma validate_net_rule_Ok:
  "validate_net_rule parse_host rule = Ok () \<Longrightarrow>
   parse_host (na_host rule) \<and> na_methods rule \<noteq> [] \<and> na_paths rule \<noteq> [] \<and>
   (\<forall>p\<in>set (na_paths rule). trim p \<noteq> [])"
  by (auto simp: validate_net_rule_def and_then_Ok_iff list_ex_iff split: if_splits)

lemma from_manifest_toml_Ok:
  assumes "from_manifest_toml toml parse_host bytes = Ok pol"
  shows "\<exists>manifest. toml bytes = Ok manifest \<and> np_rules pol = map manifest_rule (pt_net_allow manifest) \<and>
    (\<forall>r\<in>set (pt_net_allow manifest). validate_net_rule parse_host r = Ok ())"
  using assms
  by (auto simp: from_manifest_toml_def net_rules_from_manifest_toml_def read_manifest_def
      validate_net_policy_def and_then_Ok_iff validate_net_rules_Ok split: if_splits)

section \<open>Sample policies\<close>

definition sample_url :: "string \<Rightarrow> url" where
  "sample_url path = \<lparr>u_scheme = ''https'', u_username = [], u_password = None,
     u_host = Some ''api.x'', u_port = None, u_path = path, u_query = None, u_fragment = None\<rparr>"

definition sample_manifest :: "string list \<Rightarrow> petal_toml" where
  "sample_manifest paths = \<lparr>pt_caps_allowed = [''bloom:http''],
     pt_net_allow = [\<lparr>na_binding = None, na_host = ''api.x'', na_methods = [''get''], na_paths = paths\<rparr>],
     pt_store = \<lparr>st_namespaces = [], st_secret_namespaces = [], st_shared_keys = []\<rparr>\<rparr>"

definition sample_mask :: "string list \<Rightarrow> net_policy" where
  "sample_mask paths = \<lparr>np_rules =
     [\<lparr>nr_binding = None, nr_host = ''api.x'', nr_methods = {''GET''}, nr_paths = paths\<rparr>]\<rparr>"

lemma sample_trim [simp]:
  "trim ''api.x'' = ''api.x''" "trim ''get'' = ''get''" "trim ''/v1/*'' = ''/v1/*''" "trim ''/v1**'' = ''/v1**''"
  by code_simp+

lemma sample_case [simp]:
  "to_ascii_uppercase ''get'' = ''GET''" "to_ascii_lowercase ''api.x'' = ''api.x''"
  by code_simp+

lemma sample_manifest_policy:
  assumes "\<And>p. p \<in> set paths \<Longrightarrow> trim p \<noteq> []" "paths \<noteq> []"
  shows "from_manifest_toml (\<lambda>_. Ok (sample_manifest paths)) (\<lambda>_. True) [] = Ok (sample_mask paths)"
  using assms
  by (simp add: from_manifest_toml_def net_rules_from_manifest_toml_def read_manifest_def utf8_valid_def
      sample_manifest_def sample_mask_def validate_net_policy_def validate_net_rule_def manifest_rule_def
      list_ex_iff)

lemma sample_effective:
  "effective_net_policy parse_url pol [] (Some m) = Ok (net_intersect pol m)"
proof -
  have "bind_rules parse_url [] rules = Ok rules" for rules
    by (induction rules) (auto simp: bind_rule_def split: option.splits)
  then show ?thesis by (cases pol) (simp add: effective_net_policy_def with_endpoint_bindings_def)
qed

lemma sample_intersect:
  "paths \<noteq> [] \<Longrightarrow> paths' \<noteq> [] \<Longrightarrow> intersect_paths paths paths' \<noteq> [] \<Longrightarrow>
   net_intersect (sample_mask paths) (sample_mask paths') = sample_mask (intersect_paths paths paths')"
  by (simp add: net_intersect_def sample_mask_def intersect_rules_def)

lemma sample_check:
  "net_check (\<lambda>_. Ok (sample_url path)) (sample_mask paths) ''get'' addr = Ok () \<longleftrightarrow>
   paths = [] \<or> list_ex (\<lambda>g. glob_matches g path) paths"
  by (simp add: net_check_Ok sample_url_def sample_mask_def net_rule_allows_def path_allowed_def)

section \<open>Properties\<close>

text \<open>
  C12: whatever mask an invocation brings and whatever endpoints the operator binds, a fetch the
  effective policy lets through is an HTTPS request on the default port that one rule of the
  signed manifest declares: its method, one of its (explicit) path globs, and its host or the
  HTTPS origin bound to its name; and the mask allows the fetch too. The globs are the plain ones
  and the path has one leading slash.
\<close>

theorem fetch_within_manifest:
  assumes pol: "from_manifest_toml toml parse_host bytes = Ok pol"
    and eff: "effective_net_policy parse_url pol bindings net_mask = Ok e"
    and ok: "net_check parse_url e meth addr = Ok ()"
    and plain: "plain_policy pol" "pred_option plain_policy net_mask"
    and url: "parse_url addr = Ok u" "single_slash (u_path u)"
  shows "\<exists>manifest rule g h. toml bytes = Ok manifest \<and> rule \<in> set (pt_net_allow manifest) \<and>
      to_ascii_uppercase meth \<in> set (map to_ascii_uppercase (na_methods rule)) \<and>
      g \<in> set (na_paths rule) \<and> glob_matches g (u_path u) \<and>
      u_scheme u = ''https'' \<and> u_port u \<in> {None, Some 443} \<and> u_host u = Some h \<and>
      (to_ascii_lowercase h = to_ascii_lowercase (na_host rule) \<or>
       (\<exists>b origin. na_binding rule = Some b \<and> map_of bindings b = Some origin \<and>
          endpoint_origin_host parse_url origin = Ok (to_ascii_lowercase h))) \<and>
      pred_option (\<lambda>m. net_check parse_url m meth addr = Ok ()) net_mask"
proof -
  obtain d where d: "with_endpoint_bindings parse_url pol bindings = Ok d"
    "e = (case net_mask of Some m \<Rightarrow> net_intersect d m | None \<Rightarrow> d)"
    using eff by (auto simp: effective_net_policy_def and_then_Ok_iff)
  have both: "net_check parse_url d meth addr = Ok () \<and>
      pred_option (\<lambda>m. net_check parse_url m meth addr = Ok ()) net_mask"
    using ok d plain url with_endpoint_bindings_plain [OF d(1) plain(1)]
      net_intersect_check [of d _ parse_url addr u meth]
    by (cases net_mask) auto
  then obtain h r where r: "u_scheme u = ''https''" "u_port u \<in> {None, Some 443}" "u_host u = Some h"
    "r \<in> set (np_rules d)"
    "net_rule_allows (to_ascii_lowercase h) (to_ascii_uppercase meth) (u_path u) r"
    using url(1) by (auto simp: net_check_Ok)
  then obtain q where q: "q \<in> set (np_rules pol)" "bound_rule parse_url bindings q r"
    using list_all2_preimage [OF with_endpoint_bindings_bound [OF d(1)]] by blast
  obtain manifest where man: "toml bytes = Ok manifest" "np_rules pol = map manifest_rule (pt_net_allow manifest)"
    "\<forall>r\<in>set (pt_net_allow manifest). validate_net_rule parse_host r = Ok ()"
    using from_manifest_toml_Ok [OF pol] by blast
  then obtain rule where rule: "rule \<in> set (pt_net_allow manifest)" "q = manifest_rule rule"
    using q(1) by auto
  then have paths: "na_paths rule \<noteq> []" using man(3) validate_net_rule_Ok by blast
  obtain host where host: "r = manifest_rule rule\<lparr>nr_host := host\<rparr>"
    "host = nr_host (manifest_rule rule) \<or>
     (\<exists>b origin. na_binding rule = Some b \<and> map_of bindings b = Some origin \<and>
        endpoint_origin_host parse_url origin = Ok host)"
    using q(2) rule(2) by (auto simp: bound_rule_def manifest_rule_def)
  have allow: "host = to_ascii_lowercase h"
    "to_ascii_uppercase meth \<in> set (map to_ascii_uppercase (na_methods rule))"
    "\<exists>g\<in>set (na_paths rule). glob_matches g (u_path u)"
    using r(5) paths by (simp_all add: host(1) net_rule_allows_def manifest_rule_def path_allowed_iff)
  have "nr_host (manifest_rule rule) = to_ascii_lowercase (na_host rule)"
    by (simp add: manifest_rule_def)
  then show ?thesis
    using allow host(2) man(1) rule(1) r(1-3) both by (metis (no_types, lifting))
qed

theorem fetch_within_manifest_witness:
  "\<exists>rule g. rule \<in> set (pt_net_allow (sample_manifest [''/v1/*''])) \<and> g \<in> set (na_paths rule) \<and>
     glob_matches g ''/v1/a'' \<and>
     net_check (\<lambda>_. Ok (sample_url ''/v1/a'')) (sample_mask [''/v1/a'']) ''get'' [] = Ok ()"
proof -
  have pol: "from_manifest_toml (\<lambda>_. Ok (sample_manifest [''/v1/*''])) (\<lambda>_. True) [] =
      Ok (sample_mask [''/v1/*''])"
    by (rule sample_manifest_policy) simp_all
  have meet: "intersect_paths [''/v1/*''] [''/v1/a''] = [''/v1/a'']" by code_simp
  have eff: "effective_net_policy (\<lambda>_. Ok (sample_url ''/v1/a'')) (sample_mask [''/v1/*'']) []
      (Some (sample_mask [''/v1/a''])) = Ok (sample_mask [''/v1/a''])"
    using sample_intersect [of "[''/v1/*'']" "[''/v1/a'']"] by (simp add: sample_effective meet)
  have ok: "net_check (\<lambda>_. Ok (sample_url ''/v1/a'')) (sample_mask [''/v1/a'']) ''get'' [] = Ok ()"
    unfolding sample_check by code_simp
  have plain: "plain_policy (sample_mask [''/v1/*''])" "pred_option plain_policy (Some (sample_mask [''/v1/a'']))"
    by (simp_all add: plain_policy_def sample_mask_def plain_glob_def single_slash_def)
  have path: "single_slash (u_path (sample_url ''/v1/a''))"
    by (simp add: single_slash_def sample_url_def)
  have "u_path (sample_url ''/v1/a'') = ''/v1/a''" by (simp add: sample_url_def)
  then show ?thesis
    using fetch_within_manifest [OF pol eff ok plain refl path] by auto
qed


end
