(* ===== verification/Petal_Store.thy ===== *)
theory Petal_Store
  imports Petal_Policy "HOL-Library.AList" "HOL-Library.Sublist"
begin

text \<open>
  The private key/value store of petals, \<open>crates/bloom-petals/src/private_store.rs\<close>, and the
  store functions the component runtime offers to a petal, \<open>vm.rs\<close>.

  A file system is an association list from paths (lists of names) to directories and files; a
  file has its bytes and its mode. Every system call of the code can also fail: an operation takes
  the failure of each of its calls as an argument (\<open>put_faults\<close>, \<open>carry_faults\<close>, an optional
  \<open>io_err\<close>), and what a failed write, copy or directory creation leaves behind is part of the
  resulting file system. Reads and directory listings fail only for the shape of the tree. The
  mode requested from \<open>open\<close> is the mode of the file (a \<open>umask\<close> of 0). Symbolic links and other
  special files are not modelled: the store creates none. blake3 is an argument.
\<close>

section \<open>Files\<close>

type_synonym path = "string list"

datatype tnode = Dir | Reg string nat

type_synonym file_system = "(path \<times> tnode) list"

datatype io_err = Io_NotFound | Io_AlreadyExists | Io_NotADirectory | Io_IsADirectory | Io_Other string

fun io_text :: "io_err \<Rightarrow> string" where
  "io_text Io_NotFound = ''No such file or directory (os error 2)''"
| "io_text Io_AlreadyExists = ''File exists (os error 17)''"
| "io_text Io_NotADirectory = ''Not a directory (os error 20)''"
| "io_text Io_IsADirectory = ''Is a directory (os error 21)''"
| "io_text (Io_Other s) = s"

fun is_reg :: "tnode option \<Rightarrow> bool" where
  "is_reg (Some (Reg _ _)) = True"
| "is_reg _ = False"

definition blocked :: "file_system \<Rightarrow> path \<Rightarrow> bool" where
  "blocked fs p \<longleftrightarrow> list_ex (\<lambda>q. is_reg (map_of fs q)) (map (\<lambda>n. take n p) [0..<length p])"

definition missing_err :: "file_system \<Rightarrow> path \<Rightarrow> io_err" where
  "missing_err fs p = (if blocked fs p then Io_NotADirectory else Io_NotFound)"

definition tree_read :: "file_system \<Rightarrow> path \<Rightarrow> (io_err, string) result" where
  "tree_read fs p =
     (case map_of fs p of
        Some (Reg b _) \<Rightarrow> Ok b
      | Some Dir \<Rightarrow> Err Io_IsADirectory
      | None \<Rightarrow> Err (missing_err fs p))"

definition fs_remove :: "file_system \<Rightarrow> path \<Rightarrow> io_err option \<Rightarrow> file_system \<times> (io_err, unit) result" where
  "fs_remove fs p fault =
     (case map_of fs p of
        Some (Reg _ _) \<Rightarrow>
          (case fault of Some e \<Rightarrow> (fs, Err e) | None \<Rightarrow> (AList.delete p fs, Ok ()))
      | Some Dir \<Rightarrow> (fs, Err Io_IsADirectory)
      | None \<Rightarrow> (fs, Err (missing_err fs p)))"

text \<open>\<open>create_dir_all\<close>; a fault \<open>(n, e)\<close> lets the first \<open>n\<close> directories be created.\<close>

fun create_dirs ::
  "file_system \<Rightarrow> (nat \<times> io_err) option \<Rightarrow> path \<Rightarrow> path \<Rightarrow> file_system \<times> (io_err, unit) result" where
  "create_dirs fs fault pre [] = (fs, Ok ())"
| "create_dirs fs fault pre (c # cs) =
     (case map_of fs (pre @ [c]) of
        Some Dir \<Rightarrow> create_dirs fs fault (pre @ [c]) cs
      | Some (Reg _ _) \<Rightarrow> (fs, Err (if cs = [] then Io_AlreadyExists else Io_NotADirectory))
      | None \<Rightarrow>
          (case fault of
             Some (0, e) \<Rightarrow> (fs, Err e)
           | Some (Suc n, e) \<Rightarrow>
               create_dirs (AList.update (pre @ [c]) Dir fs) (Some (n, e)) (pre @ [c]) cs
           | None \<Rightarrow> create_dirs (AList.update (pre @ [c]) Dir fs) None (pre @ [c]) cs))"

definition create_dir_all ::
  "file_system \<Rightarrow> (nat \<times> io_err) option \<Rightarrow> path \<Rightarrow> file_system \<times> (io_err, unit) result" where
  "create_dir_all fs fault p = create_dirs fs fault [] p"

datatype write_fault =
    WF_open io_err | WF_permissions io_err | WF_data nat io_err | WF_sync io_err

definition open_for_write :: "file_system \<Rightarrow> path \<Rightarrow> bool \<Rightarrow> (io_err, unit) result" where
  "open_for_write fs p create_new =
     (case map_of fs p of
        Some Dir \<Rightarrow> Err (if create_new then Io_AlreadyExists else Io_IsADirectory)
      | Some (Reg _ _) \<Rightarrow> if create_new then Err Io_AlreadyExists else Ok ()
      | None \<Rightarrow>
          if butlast p = [] \<or> map_of fs (butlast p) = Some Dir then Ok ()
          else Err (missing_err fs p))"

definition file_mode :: "bool \<Rightarrow> nat" where
  "file_mode secret = (if secret then 384 else 420)"

definition write_file_with_mode ::
  "file_system \<Rightarrow> path \<Rightarrow> string \<Rightarrow> bool \<Rightarrow> bool \<Rightarrow> write_fault option \<Rightarrow>
   file_system \<times> (io_err, unit) result" where
  "write_file_with_mode fs p data secret create_new fault =
     (let mode = file_mode secret;
          opened = (case map_of fs p of Some (Reg _ old) \<Rightarrow> old | _ \<Rightarrow> mode)
      in case open_for_write fs p create_new of
           Inl e \<Rightarrow> (fs, Err e)
         | Inr _ \<Rightarrow>
             (case fault of
                Some (WF_open e) \<Rightarrow> (fs, Err e)
              | Some (WF_permissions e) \<Rightarrow> (AList.update p (Reg [] opened) fs, Err e)
              | Some (WF_data n e) \<Rightarrow> (AList.update p (Reg (take n data) mode) fs, Err e)
              | Some (WF_sync e) \<Rightarrow> (AList.update p (Reg data mode) fs, Err e)
              | None \<Rightarrow> (AList.update p (Reg data mode) fs, Ok ())))"

definition fs_rename ::
  "file_system \<Rightarrow> path \<Rightarrow> path \<Rightarrow> io_err option \<Rightarrow> file_system \<times> (io_err, unit) result" where
  "fs_rename fs a b fault =
     (case map_of fs a of
        None \<Rightarrow> (fs, Err (missing_err fs a))
      | Some nd \<Rightarrow>
          if map_of fs b = Some Dir then (fs, Err Io_IsADirectory)
          else case fault of
            Some e \<Rightarrow> (fs, Err e)
          | None \<Rightarrow> (AList.update b nd (AList.delete a fs), Ok ()))"

definition temporary :: "path \<Rightarrow> path" where
  "temporary p = butlast p @ [''.'' @ last p @ ''.tmp'']"

definition atomic_write ::
  "file_system \<Rightarrow> path \<Rightarrow> string \<Rightarrow> bool \<Rightarrow> write_fault option \<Rightarrow> io_err option \<Rightarrow>
   file_system \<times> (io_err, unit) result" where
  "atomic_write fs p data secret wfault rfault =
     (let (fs1, r) = write_file_with_mode fs (temporary p) data secret False wfault
      in case r of Inl e \<Rightarrow> (fs1, Err e) | Inr _ \<Rightarrow> fs_rename fs1 (temporary p) p rfault)"

definition create_new_file ::
  "file_system \<Rightarrow> path \<Rightarrow> string \<Rightarrow> bool \<Rightarrow> write_fault option \<Rightarrow> file_system \<times> (io_err, unit) result" where
  "create_new_file fs p data secret fault = write_file_with_mode fs p data secret True fault"

section \<open>Keys\<close>

definition validate_key :: "string \<Rightarrow> (host_error, unit) result" where
  "validate_key key =
     (if key = [] \<or> length key > 512 then Err (H_Invalid [S ''invalid store key length''])
      else if hd key = CHR ''/'' \<or> CHR 0x5C \<in> set key \<or> CHR 0x00 \<in> set key
      then Err (H_Invalid [S ''store key is not relative''])
      else if list_ex (\<lambda>part. part = [] \<or> part = ''.'' \<or> part = ''..'') (split_on CHR ''/'' key)
      then Err (H_Invalid [S ''store key escapes namespace''])
      else Ok ())"

definition validate_prefix :: "string \<Rightarrow> (host_error, unit) result" where
  "validate_prefix pre =
     (if pre = [] then Ok ()
      else let trimmed = (if last pre = CHR ''/'' then butlast pre else pre)
           in if trimmed = [] then Err (H_Invalid [S ''store prefix is not relative''])
              else validate_key trimmed)"

definition is_valid_hex_hash :: "string \<Rightarrow> bool" where
  "is_valid_hex_hash s \<longleftrightarrow> length s = 64 \<and>
     list_all (\<lambda>c. is_ascii_digit c \<or> 97 \<le> byte c \<and> byte c \<le> 102) s"

definition digest_input :: "string \<Rightarrow> 32 word \<Rightarrow> string" where
  "digest_input wallet account =
     ''bloom-petal-store-account/v1'' @ [CHR 0x00] @ be_bytes 8 (length wallet mod 2 ^ 64) @ wallet
       @ be_bytes 4 (unat account)"

definition account_digest :: "(string \<Rightarrow> string) \<Rightarrow> string \<Rightarrow> 32 word \<Rightarrow> string" where
  "account_digest blake3 wallet account = ''v1-'' @ blake3 (digest_input wallet account)"

section \<open>The store\<close>

record private_store =
  ps_root :: path
  ps_account_digest :: "string option"
  ps_shared_keys :: "string set"
  ps_shared_root :: "path option"

text \<open>The directory tree and the process-wide operation lock.\<close>

record disk =
  dk_fs :: file_system
  dk_poisoned :: bool

definition open_store ::
  "disk \<Rightarrow> (nat \<times> io_err) option \<Rightarrow> path \<Rightarrow> disk \<times> (host_error, private_store) result" where
  "open_store d fault rt =
     (let (fs, r) = create_dir_all (dk_fs d) fault rt
      in (d\<lparr>dk_fs := fs\<rparr>, case r of
            Inl e \<Rightarrow> Err (H_Backend [S ''store: '', S (io_text e)])
          | Inr _ \<Rightarrow> Ok \<lparr>ps_root = rt, ps_account_digest = None, ps_shared_keys = {},
                         ps_shared_root = None\<rparr>))"

definition open_account ::
  "(string \<Rightarrow> string) \<Rightarrow> disk \<Rightarrow> (nat \<times> io_err) option \<Rightarrow> path \<Rightarrow> string \<Rightarrow> 32 word \<Rightarrow>
   disk \<times> (host_error, private_store) result" where
  "open_account blake3 d fault rt wallet account =
     (let (d1, r) = open_store d fault rt
      in (d1, and_then r (\<lambda>st. Ok (st\<lparr>ps_account_digest := Some (account_digest blake3 wallet account)\<rparr>))))"

definition with_shared_keys :: "private_store \<Rightarrow> string set \<Rightarrow> private_store" where
  "with_shared_keys st keys = st\<lparr>ps_shared_keys := keys\<rparr>"

definition with_shared_root :: "private_store \<Rightarrow> path \<Rightarrow> private_store" where
  "with_shared_root st rt = st\<lparr>ps_shared_root := Some rt\<rparr>"

definition petal_dir :: "private_store \<Rightarrow> string \<Rightarrow> (host_error, path) result" where
  "petal_dir st petal_hash =
     (if \<not> is_valid_hex_hash petal_hash then Err (H_Invalid [S ''invalid petal hash''])
      else Ok (case ps_account_digest st of
                 Some digest \<Rightarrow> ps_root st @ [petal_hash, digest]
               | None \<Rightarrow> ps_root st @ [petal_hash]))"

definition key_path :: "private_store \<Rightarrow> string \<Rightarrow> string \<Rightarrow> (host_error, path) result" where
  "key_path st petal_hash key =
     and_then (validate_key key) (\<lambda>_.
       and_then (petal_dir st petal_hash) (\<lambda>dir.
         if ps_account_digest st \<noteq> None \<and> key \<in> ps_shared_keys st
         then Ok ((case ps_shared_root st of Some rt \<Rightarrow> rt | None \<Rightarrow> ps_root st)
                    @ [petal_hash] @ split_on CHR ''/'' key)
         else Ok (dir @ split_on CHR ''/'' key)))"

definition store_op_guard :: "disk \<Rightarrow> (host_error, unit) result" where
  "store_op_guard d =
     (if dk_poisoned d then Err (H_Backend [S ''store operation lock poisoned'']) else Ok ())"

definition at_key ::
  "disk \<Rightarrow> private_store \<Rightarrow> string \<Rightarrow> string \<Rightarrow> (path \<Rightarrow> disk \<times> (host_error, 'a) result) \<Rightarrow>
   disk \<times> (host_error, 'a) result" where
  "at_key d st petal_hash key f =
     (case key_path st petal_hash key of
        Inl e \<Rightarrow> (d, Err e)
      | Inr p \<Rightarrow> (case store_op_guard d of Inl e \<Rightarrow> (d, Err e) | Inr _ \<Rightarrow> f p))"

definition store_get :: "disk \<Rightarrow> private_store \<Rightarrow> string \<Rightarrow> string \<Rightarrow> (host_error, string) result" where
  "store_get d st petal_hash key =
     snd (at_key d st petal_hash key (\<lambda>p. (d,
       case tree_read (dk_fs d) p of
         Inr bytes \<Rightarrow> Ok bytes
       | Inl e \<Rightarrow> if e = Io_NotFound then Err (H_NotFound [S key])
                  else Err (H_Backend [S ''store get: '', S (io_text e)]))))"

record put_faults =
  pf_mkdir :: "(nat \<times> io_err) option"
  pf_write :: "write_fault option"
  pf_rename :: "io_err option"

definition no_put_faults :: put_faults where
  "no_put_faults = \<lparr>pf_mkdir = None, pf_write = None, pf_rename = None\<rparr>"

definition store_put ::
  "disk \<Rightarrow> put_faults \<Rightarrow> private_store \<Rightarrow> string \<Rightarrow> string \<Rightarrow> string \<Rightarrow> bool \<Rightarrow>
   disk \<times> (host_error, unit) result" where
  "store_put d faults st petal_hash key data secret =
     at_key d st petal_hash key (\<lambda>p.
       let (fs, r) = create_dir_all (dk_fs d) (pf_mkdir faults) (butlast p) in
       case r of
         Inl e \<Rightarrow> (d\<lparr>dk_fs := fs\<rparr>, Err (H_Backend [S ''store mkdir: '', S (io_text e)]))
       | Inr _ \<Rightarrow>
           let (fs', w) = atomic_write fs p data secret (pf_write faults) (pf_rename faults) in
           (d\<lparr>dk_fs := fs'\<rparr>, map_err (\<lambda>e. H_Backend [S ''store put: '', S (io_text e)]) w))"

definition store_put_new ::
  "disk \<Rightarrow> put_faults \<Rightarrow> private_store \<Rightarrow> string \<Rightarrow> string \<Rightarrow> string \<Rightarrow> bool \<Rightarrow>
   disk \<times> (host_error, unit) result" where
  "store_put_new d faults st petal_hash key data secret =
     at_key d st petal_hash key (\<lambda>p.
       let (fs, r) = create_dir_all (dk_fs d) (pf_mkdir faults) (butlast p) in
       case r of
         Inl e \<Rightarrow> (d\<lparr>dk_fs := fs\<rparr>, Err (H_Backend [S ''store mkdir: '', S (io_text e)]))
       | Inr _ \<Rightarrow>
           let (fs', w) = create_new_file fs p data secret (pf_write faults) in
           (d\<lparr>dk_fs := fs'\<rparr>, map_err (\<lambda>e.
              if e = Io_AlreadyExists then H_Denied [S ''store key already exists'']
              else H_Backend [S ''store put_new: '', S (io_text e)]) w))"

definition store_del ::
  "disk \<Rightarrow> io_err option \<Rightarrow> private_store \<Rightarrow> string \<Rightarrow> string \<Rightarrow> disk \<times> (host_error, unit) result" where
  "store_del d fault st petal_hash key =
     at_key d st petal_hash key (\<lambda>p.
       let (fs, r) = fs_remove (dk_fs d) p fault in
       (d\<lparr>dk_fs := fs\<rparr>, case r of
          Inr _ \<Rightarrow> Ok ()
        | Inl e \<Rightarrow> if e = Io_NotFound then Ok ()
                   else Err (H_Backend [S ''store del: '', S (io_text e)])))"

definition store_del_if_value ::
  "disk \<Rightarrow> io_err option \<Rightarrow> private_store \<Rightarrow> string \<Rightarrow> string \<Rightarrow> string \<Rightarrow>
   disk \<times> (host_error, unit) result" where
  "store_del_if_value d fault st petal_hash key expected =
     at_key d st petal_hash key (\<lambda>p.
       case tree_read (dk_fs d) p of
         Inl e \<Rightarrow> (d, if e = Io_NotFound then Err (H_NotFound [S key])
                      else Err (H_Backend [S ''store del_if_value read: '', S (io_text e)]))
       | Inr current \<Rightarrow>
           if current \<noteq> expected then (d, Err (H_Denied [S ''store key value changed'']))
           else let (fs, r) = fs_remove (dk_fs d) p fault in
             (d\<lparr>dk_fs := fs\<rparr>, case r of
                Inr _ \<Rightarrow> Ok ()
              | Inl e \<Rightarrow> if e = Io_NotFound then Err (H_NotFound [S key])
                         else Err (H_Backend [S ''store del_if_value: '', S (io_text e)])))"

definition has_hidden_component :: "path \<Rightarrow> bool" where
  "has_hidden_component rel \<longleftrightarrow> list_ex (\<lambda>c. c \<noteq> [] \<and> hd c = CHR ''.'') rel"

definition collect_files :: "file_system \<Rightarrow> path \<Rightarrow> string \<Rightarrow> (host_error, string list) result" where
  "collect_files fs dir pre =
     (if is_reg (map_of fs dir) then Err (H_Backend [S ''store list: '', S (io_text Io_NotADirectory)])
      else Ok (concat (map (\<lambda>(p, nd).
        let rel = drop (length dir) p; key = join ''/'' rel in
        if is_reg (Some nd) \<and> take (length dir) p = dir \<and> rel \<noteq> [] \<and> \<not> has_hidden_component rel
           \<and> starts_with key pre
        then [key] else []) fs)))"

fun shared_listing ::
  "file_system \<Rightarrow> private_store \<Rightarrow> string \<Rightarrow> string \<Rightarrow> string list \<Rightarrow> (host_error, string list) result" where
  "shared_listing fs st petal_hash pre [] = Ok []"
| "shared_listing fs st petal_hash pre (key # keys) =
     (if starts_with key pre then
        and_then (key_path st petal_hash key) (\<lambda>p.
          and_then (shared_listing fs st petal_hash pre keys) (\<lambda>rest.
            Ok (if is_reg (map_of fs p) then key # rest else rest)))
      else shared_listing fs st petal_hash pre keys)"

definition store_list :: "disk \<Rightarrow> private_store \<Rightarrow> string \<Rightarrow> string \<Rightarrow> (host_error, string list) result" where
  "store_list d st petal_hash pre =
     and_then (validate_prefix pre) (\<lambda>_.
     and_then (petal_dir st petal_hash) (\<lambda>dir.
     and_then (store_op_guard d) (\<lambda>_.
     and_then (if map_of (dk_fs d) dir = None then Ok [] else collect_files (dk_fs d) dir pre) (\<lambda>out.
       if ps_account_digest st = None then Ok (sort out)
       else and_then (shared_listing (dk_fs d) st petal_hash pre (sorted_list_of_set (ps_shared_keys st)))
         (\<lambda>shared. Ok (sort (filter (\<lambda>key. key \<notin> ps_shared_keys st) out @ shared)))))))"

section \<open>Carrying a partition forward\<close>

definition under :: "path \<Rightarrow> path \<Rightarrow> bool" where
  "under p q \<longleftrightarrow> take (length p) q = p"

definition tree_of :: "file_system \<Rightarrow> path \<Rightarrow> file_system" where
  "tree_of fs p = filter (\<lambda>(q, _). under p q) fs"

definition remove_tree :: "file_system \<Rightarrow> path \<Rightarrow> file_system" where
  "remove_tree fs p = filter (\<lambda>(q, _). \<not> under p q) fs"

definition copy_tree :: "file_system \<Rightarrow> path \<Rightarrow> path \<Rightarrow> file_system" where
  "copy_tree tree src dst = map (\<lambda>(q, nd). (dst @ drop (length src) q, nd)) tree"

text \<open>
  A copy fault \<open>(got, e, left)\<close> fails after copying the paths \<open>got\<close> and the directories above them;
  \<open>left\<close> says that removing the partial copy failed as well.
\<close>

record carry_faults =
  cy_cleanup :: "io_err option"
  cy_copy :: "(path list \<times> io_err \<times> bool) option"
  cy_rename :: "io_err option"

definition carry_temporary :: "path \<Rightarrow> string \<Rightarrow> path" where
  "carry_temporary rt successor = rt @ [''.'' @ successor @ ''.carry.tmp'']"

definition copy_directory ::
  "file_system \<Rightarrow> path \<Rightarrow> path \<Rightarrow> (path list \<times> io_err \<times> bool) option \<Rightarrow> file_system \<times> (io_err, unit) result" where
  "copy_directory fs src dst fault =
     (if map_of fs src \<noteq> Some Dir then (fs, Err (Io_Other ''store partition is not a directory''))
      else case fault of
        Some (got, e, _) \<Rightarrow>
          (copy_tree (filter (\<lambda>(q, _). list_ex (\<lambda>k. under q k) got) (tree_of fs src)) src dst @ fs, Err e)
      | None \<Rightarrow> (copy_tree (tree_of fs src) src dst @ fs, Ok ()))"

definition rename_tree ::
  "file_system \<Rightarrow> path \<Rightarrow> path \<Rightarrow> io_err option \<Rightarrow> file_system \<times> (io_err, unit) result" where
  "rename_tree fs src dst fault =
     (case fault of
        Some e \<Rightarrow> (fs, Err e)
      | None \<Rightarrow> (copy_tree (tree_of fs src) src dst @ remove_tree fs src, Ok ()))"

definition copy_partition ::
  "file_system \<Rightarrow> carry_faults \<Rightarrow> path \<Rightarrow> string \<Rightarrow> string \<Rightarrow> file_system \<times> (host_error, bool) result" where
  "copy_partition fs faults rt predecessor successor =
     (let source = rt @ [predecessor]; destination = rt @ [successor];
          temp = carry_temporary rt successor
      in if map_of fs destination \<noteq> None \<or> map_of fs source = None then (fs, Ok False)
         else case (if map_of fs temp = None then None
                    else if is_reg (map_of fs temp) then Some Io_NotADirectory
                    else cy_cleanup faults) of
           Some e \<Rightarrow> (fs, Err (H_Backend [S ''store carry cleanup: '', S (io_text e)]))
         | None \<Rightarrow>
             (case copy_directory (remove_tree fs temp) source temp (cy_copy faults) of
                (fs1, Inl e) \<Rightarrow>
                  ((case cy_copy faults of Some (_, _, True) \<Rightarrow> fs1 | _ \<Rightarrow> remove_tree fs1 temp),
                   Err (H_Backend [S ''store carry copy: '', S (io_text e)]))
              | (fs1, Inr _) \<Rightarrow>
                  (case rename_tree fs1 temp destination (cy_rename faults) of
                     (fs2, Inl e) \<Rightarrow> (fs2, Err (H_Backend [S ''store carry rename: '', S (io_text e)]))
                   | (fs2, Inr _) \<Rightarrow> (fs2, Ok True))))"

definition carry_forward ::
  "disk \<Rightarrow> carry_faults \<Rightarrow> carry_faults \<Rightarrow> path \<Rightarrow> path \<Rightarrow> string \<Rightarrow> string \<Rightarrow>
   disk \<times> (host_error, bool) result" where
  "carry_forward d pfaults afaults data_root accounts_root predecessor successor =
     (if \<not> is_valid_hex_hash predecessor \<or> \<not> is_valid_hex_hash successor \<or> predecessor = successor
      then (d, Err (H_Invalid [S ''invalid carry-forward hashes'']))
      else case store_op_guard d of
        Inl e \<Rightarrow> (d, Err e)
      | Inr _ \<Rightarrow>
          (case copy_partition (dk_fs d) pfaults data_root predecessor successor of
             (fs1, Inl e) \<Rightarrow> (d\<lparr>dk_fs := fs1\<rparr>, Err e)
           | (fs1, Inr public) \<Rightarrow>
               (case copy_partition fs1 afaults accounts_root predecessor successor of
                  (fs2, Inl e) \<Rightarrow> (d\<lparr>dk_fs := fs2\<rparr>, Err e)
                | (fs2, Inr accounts) \<Rightarrow> (d\<lparr>dk_fs := fs2\<rparr>, Ok (public \<or> accounts)))))"

section \<open>The store policy of a manifest\<close>

definition validate_store_namespace :: "string \<Rightarrow> (petal_error, unit) result" where
  "validate_store_namespace ns =
     (if ns = [] \<or> length ns > 128
      then Err (InvalidWasm [S ''Petal store namespace must be 1..128 bytes''])
      else if CHR ''/'' \<in> set ns \<or>
        \<not> list_all (\<lambda>c. is_ascii_alphanumeric c \<or> c = CHR ''.'' \<or> c = CHR ''-'' \<or> c = CHR ''_'') ns
      then Err (InvalidWasm [S ''Petal store namespace '', V2 ns, S '' contains an unsupported byte''])
      else Ok ())"

fun host_error_text :: "host_error \<Rightarrow> string msg" where
  "host_error_text (H_NotFound m) = S ''not found: '' # m"
| "host_error_text (H_Denied m) = S ''denied: '' # m"
| "host_error_text (H_Invalid m) = S ''invalid: '' # m"
| "host_error_text (H_Backend m) = S ''backend: '' # m"
| "host_error_text (H_UnsupportedVersion m) = S ''UNSUPPORTED_VERSION: '' # m"

definition validate_shared_key :: "store_policy \<Rightarrow> string \<Rightarrow> (petal_error, unit) result" where
  "validate_shared_key pol key =
     and_then (map_err (\<lambda>e. InvalidWasm ([S ''Petal store shared key '', V2 key, S '': ''] @ host_error_text e))
       (validate_key key)) (\<lambda>_.
     and_then (ok_or (split_once CHR ''/'' key)
       (InvalidWasm [S ''Petal store shared key '', V2 key, S '' must be fully namespaced''])) (\<lambda>(ns, _).
       if list_ex (\<lambda>part. part \<noteq> [] \<and> hd part = CHR ''.'') (split_on CHR ''/'' key) \<or> ns \<notin> sn_private pol
       then Err (InvalidWasm [S ''Petal store shared key '', V2 key,
         S '' must use a declared namespace and visible canonical path segments''])
       else Ok ()))"

fun all_ok :: "('a \<Rightarrow> ('e, unit) result) \<Rightarrow> 'a list \<Rightarrow> ('e, unit) result" where
  "all_ok f [] = Ok ()"
| "all_ok f (x # xs) = and_then (f x) (\<lambda>_. all_ok f xs)"

definition validate_store_policy :: "string set \<Rightarrow> store_policy \<Rightarrow> (petal_error, unit) result" where
  "validate_store_policy allowed_caps pol =
     (if ''bloom:store'' \<in> allowed_caps \<and> sn_private pol = {}
      then Err (InvalidWasm
        [S ''Petal package cap bloom:store requires [store].namespaces or [store].secret_namespaces''])
      else and_then (all_ok (validate_shared_key pol) (sorted_list_of_set (sn_shared_keys pol))) (\<lambda>_.
        all_ok validate_store_namespace (sorted_list_of_set (sn_private pol))))"

definition store_policy_from_manifest :: "petal_toml \<Rightarrow> store_policy" where
  "store_policy_from_manifest manifest =
     policy_with_shared_keys
       (from_namespaces (st_namespaces (pt_store manifest)) (st_secret_namespaces (pt_store manifest)))
       (st_shared_keys (pt_store manifest))"

definition store_policy_from_manifest_toml ::
  "toml_parser \<Rightarrow> string \<Rightarrow> (petal_error, store_policy) result" where
  "store_policy_from_manifest_toml toml bytes =
     and_then (read_manifest toml bytes) (\<lambda>manifest.
       let pol = store_policy_from_manifest manifest in
       and_then (validate_store_policy (set (pt_caps_allowed manifest)) pol) (\<lambda>_. Ok pol))"

section \<open>Store functions of the component runtime\<close>

datatype capability = VfsRead | VfsWrite | NetFetch | Sign | Store | Chain | TxOutbox | KeyDerive

record store_data =
  sd_caps :: "capability set"
  sd_petal_hash :: string
  sd_store_namespaces :: "store_policy option"
  sd_private_store :: "private_store option"

definition open_selected_private_store ::
  "(string \<Rightarrow> string) \<Rightarrow> disk \<Rightarrow> (nat \<times> io_err) option \<Rightarrow> path \<Rightarrow> (string \<times> 32 word) option \<Rightarrow>
   store_policy option \<Rightarrow> path option \<Rightarrow> disk \<times> (host_error, private_store) result" where
  "open_selected_private_store blake3 d fault rt account pol shared_root =
     (let (d1, r) = (case account of
            Some (wallet, number) \<Rightarrow> open_account blake3 d fault rt wallet number
          | None \<Rightarrow> open_store d fault rt)
      in (d1, and_then r (\<lambda>st.
           let st = (case shared_root of Some rt \<Rightarrow> with_shared_root st rt | None \<Rightarrow> st) in
           Ok (with_shared_keys st (case pol of Some p \<Rightarrow> sn_shared_keys p | None \<Rightarrow> {})))))"

text \<open>
  Arguments and results of component functions. \<open>dbg\<close> below is the \<open>Debug\<close> rendering of a
  component value.
\<close>

datatype component_val =
    CV_Bool bool | CV_U8 char | CV_String string | CV_List "component_val list"
  | CV_Option "component_val option" | CV_Other string

fun component_string :: "(component_val \<Rightarrow> string) \<Rightarrow> component_val \<Rightarrow> string \<Rightarrow> (host_error, string) result" where
  "component_string dbg (CV_String v) label = Ok v"
| "component_string dbg other label =
     Err (H_Invalid [S ''component '', S label, S '' expected string, got '', S (dbg other)])"

fun component_bool :: "(component_val \<Rightarrow> string) \<Rightarrow> component_val \<Rightarrow> string \<Rightarrow> (host_error, bool) result" where
  "component_bool dbg (CV_Bool v) label = Ok v"
| "component_bool dbg other label =
     Err (H_Invalid [S ''component '', S label, S '' expected bool, got '', S (dbg other)])"

fun component_byte_items ::
  "(component_val \<Rightarrow> string) \<Rightarrow> component_val list \<Rightarrow> string \<Rightarrow> (host_error, string) result" where
  "component_byte_items dbg [] label = Ok []"
| "component_byte_items dbg (CV_U8 b # items) label =
     and_then (component_byte_items dbg items label) (\<lambda>bs. Ok (b # bs))"
| "component_byte_items dbg (other # items) label =
     Err (H_Invalid [S ''component '', S label, S '' expected u8 item, got '', S (dbg other)])"

fun component_byte_list :: "(component_val \<Rightarrow> string) \<Rightarrow> component_val \<Rightarrow> string \<Rightarrow> (host_error, string) result" where
  "component_byte_list dbg (CV_List items) label = component_byte_items dbg items label"
| "component_byte_list dbg other label =
     Err (H_Invalid [S ''component '', S label, S '' expected list<u8>, got '', S (dbg other)])"

definition component_bytes :: "string \<Rightarrow> component_val" where
  "component_bytes bs = CV_List (map CV_U8 bs)"

fun component_namespace_key ::
  "(component_val \<Rightarrow> string) \<Rightarrow> component_val list \<Rightarrow> (host_error, string \<times> string) result" where
  "component_namespace_key dbg [ns, key] =
     and_then (component_string dbg ns ''namespace'') (\<lambda>n.
       and_then (component_string dbg key ''key'') (\<lambda>k. Ok (n, k)))"
| "component_namespace_key dbg _ =
     Err (H_Invalid [S ''component store function expected namespace and key/prefix''])"

definition namespaced_store_key :: "string \<Rightarrow> string \<Rightarrow> (host_error, string) result" where
  "namespaced_store_key ns key =
     (if ns = [] then Err (H_Invalid [S ''store namespace is empty'']) else Ok (ns @ ''/'' @ key))"

definition namespaced_store_prefix :: "string \<Rightarrow> string \<Rightarrow> (host_error, string) result" where
  "namespaced_store_prefix ns pre =
     (if ns = [] then Err (H_Invalid [S ''store namespace is empty''])
      else if pre = [] then Ok (ns @ ''/'') else Ok (ns @ ''/'' @ pre))"

definition store_namespace_allowed :: "store_data \<Rightarrow> string \<Rightarrow> (host_error, unit) result" where
  "store_namespace_allowed sd ns =
     (case sd_store_namespaces sd of Some pol \<Rightarrow> check_namespace pol ns | None \<Rightarrow> Ok ())"

definition store_namespace_put_allowed :: "store_data \<Rightarrow> string \<Rightarrow> bool \<Rightarrow> (host_error, unit) result" where
  "store_namespace_put_allowed sd ns secret =
     (case sd_store_namespaces sd of Some pol \<Rightarrow> check_put pol ns secret | None \<Rightarrow> Ok ())"

definition require_store :: "store_data \<Rightarrow> (host_error, unit) result" where
  "require_store sd = (if Store \<in> sd_caps sd then Ok () else Err (H_Denied [S ''store'']))"

definition selected_store :: "store_data \<Rightarrow> (host_error, private_store) result" where
  "selected_store sd = ok_or (sd_private_store sd) (H_Denied [S ''store unavailable''])"

definition component_store_get ::
  "(component_val \<Rightarrow> string) \<Rightarrow> store_data \<Rightarrow> disk \<Rightarrow> component_val list \<Rightarrow>
   (host_error, component_val option) result" where
  "component_store_get dbg sd d params =
     and_then (require_store sd) (\<lambda>_.
     and_then (component_namespace_key dbg params) (\<lambda>(ns, logical_key).
     and_then (store_namespace_allowed sd ns) (\<lambda>_.
     and_then (namespaced_store_key ns logical_key) (\<lambda>key.
     and_then (selected_store sd) (\<lambda>st.
       let found = (\<lambda>r. case r of
             Inr bytes \<Rightarrow> Ok (Some (CV_Option (Some (component_bytes bytes))))
           | Inl (H_NotFound _) \<Rightarrow> Ok (Some (CV_Option None))
           | Inl e \<Rightarrow> Err e)
       in case store_get d st (sd_petal_hash sd) key of
            Inl (H_NotFound m) \<Rightarrow>
              if ns = ''state'' \<and> (logical_key = ''creds'' \<or> starts_with logical_key ''creds/'') then
                and_then (store_namespace_allowed sd ''secrets'') (\<lambda>_.
                and_then (namespaced_store_key ''secrets'' logical_key) (\<lambda>secret_key.
                  found (store_get d st (sd_petal_hash sd) secret_key)))
              else found (Inl (H_NotFound m))
          | r \<Rightarrow> found r)))))"

definition put_request ::
  "(component_val \<Rightarrow> string) \<Rightarrow> store_data \<Rightarrow> component_val \<Rightarrow> component_val \<Rightarrow> component_val \<Rightarrow> component_val \<Rightarrow>
   (host_error, private_store \<times> string \<times> string \<times> bool) result" where
  "put_request dbg sd ns key data secret =
     and_then (component_string dbg ns ''namespace'') (\<lambda>ns.
     and_then (component_string dbg key ''key'') (\<lambda>key.
     and_then (component_byte_list dbg data ''value'') (\<lambda>data.
     and_then (component_bool dbg secret ''secret'') (\<lambda>secret.
     and_then (store_namespace_put_allowed sd ns secret) (\<lambda>_.
     and_then (namespaced_store_key ns key) (\<lambda>key.
     and_then (selected_store sd) (\<lambda>st. Ok (st, key, data, secret))))))))"

fun put_params ::
  "(component_val \<Rightarrow> string) \<Rightarrow> store_data \<Rightarrow> component_val list \<Rightarrow>
   (host_error, private_store \<times> string \<times> string \<times> bool) result" where
  "put_params dbg sd [ns, key, data, secret] = put_request dbg sd ns key data secret"
| "put_params dbg sd _ = Err (H_Invalid [S ''invalid bloom:store.put params''])"

fun put_new_params ::
  "(component_val \<Rightarrow> string) \<Rightarrow> store_data \<Rightarrow> component_val list \<Rightarrow>
   (host_error, private_store \<times> string \<times> string \<times> bool) result" where
  "put_new_params dbg sd [ns, key, data, secret] = put_request dbg sd ns key data secret"
| "put_new_params dbg sd _ = Err (H_Invalid [S ''invalid bloom:store.put-new params''])"

definition component_store_put ::
  "(component_val \<Rightarrow> string) \<Rightarrow> store_data \<Rightarrow> disk \<Rightarrow> put_faults \<Rightarrow> component_val list \<Rightarrow>
   disk \<times> (host_error, component_val option) result" where
  "component_store_put dbg sd d faults params =
     (case and_then (require_store sd) (\<lambda>_. put_params dbg sd params) of
        Inl e \<Rightarrow> (d, Err e)
      | Inr (st, key, data, secret) \<Rightarrow>
          (case store_put d faults st (sd_petal_hash sd) key data secret of
             (d1, Inr _) \<Rightarrow> (d1, Ok None)
           | (d1, Inl e) \<Rightarrow> (d1, Err e)))"

definition component_store_put_new ::
  "(component_val \<Rightarrow> string) \<Rightarrow> store_data \<Rightarrow> disk \<Rightarrow> put_faults \<Rightarrow> component_val list \<Rightarrow>
   disk \<times> (host_error, component_val option) result" where
  "component_store_put_new dbg sd d faults params =
     (case and_then (require_store sd) (\<lambda>_. put_new_params dbg sd params) of
        Inl e \<Rightarrow> (d, Err e)
      | Inr (st, key, data, secret) \<Rightarrow>
          (case store_put_new d faults st (sd_petal_hash sd) key data secret of
             (d1, Inr _) \<Rightarrow> (d1, Ok None)
           | (d1, Inl e) \<Rightarrow> (d1, Err e)))"

definition component_store_list ::
  "(component_val \<Rightarrow> string) \<Rightarrow> store_data \<Rightarrow> disk \<Rightarrow> component_val list \<Rightarrow>
   (host_error, component_val option) result" where
  "component_store_list dbg sd d params =
     and_then (require_store sd) (\<lambda>_.
     and_then (component_namespace_key dbg params) (\<lambda>(ns, pre).
     and_then (store_namespace_allowed sd ns) (\<lambda>_.
     and_then (namespaced_store_prefix ns pre) (\<lambda>store_prefix.
     and_then (selected_store sd) (\<lambda>st.
     and_then (store_list d st (sd_petal_hash sd) store_prefix) (\<lambda>keys.
       Ok (Some (CV_List (map CV_String (List.map_filter (strip_prefix (ns @ ''/'')) keys))))))))))"

definition component_store_delete ::
  "(component_val \<Rightarrow> string) \<Rightarrow> store_data \<Rightarrow> disk \<Rightarrow> io_err option \<Rightarrow> component_val list \<Rightarrow>
   disk \<times> (host_error, component_val option) result" where
  "component_store_delete dbg sd d fault params =
     (case and_then (require_store sd) (\<lambda>_.
           and_then (component_namespace_key dbg params) (\<lambda>(ns, key).
           and_then (store_namespace_allowed sd ns) (\<lambda>_.
           and_then (namespaced_store_key ns key) (\<lambda>key.
           and_then (selected_store sd) (\<lambda>st. Ok (st, key)))))) of
        Inl e \<Rightarrow> (d, Err e)
      | Inr (st, key) \<Rightarrow>
          (case store_del d fault st (sd_petal_hash sd) key of
             (d1, Inr _) \<Rightarrow> (d1, Ok None)
           | (d1, Inl e) \<Rightarrow> (d1, Err e)))"

fun delete_if_value_params ::
  "(component_val \<Rightarrow> string) \<Rightarrow> store_data \<Rightarrow> component_val list \<Rightarrow>
   (host_error, private_store \<times> string \<times> string) result" where
  "delete_if_value_params dbg sd [ns, key, expected] =
     and_then (component_string dbg ns ''namespace'') (\<lambda>ns.
     and_then (component_string dbg key ''key'') (\<lambda>key.
     and_then (component_byte_list dbg expected ''expected'') (\<lambda>expected.
     and_then (store_namespace_allowed sd ns) (\<lambda>_.
     and_then (namespaced_store_key ns key) (\<lambda>key.
     and_then (selected_store sd) (\<lambda>st. Ok (st, key, expected)))))))"
| "delete_if_value_params dbg sd _ = Err (H_Invalid [S ''invalid bloom:store.delete-if-value params''])"

definition component_store_delete_if_value ::
  "(component_val \<Rightarrow> string) \<Rightarrow> store_data \<Rightarrow> disk \<Rightarrow> io_err option \<Rightarrow> component_val list \<Rightarrow>
   disk \<times> (host_error, component_val option) result" where
  "component_store_delete_if_value dbg sd d fault params =
     (case and_then (require_store sd) (\<lambda>_. delete_if_value_params dbg sd params) of
        Inl e \<Rightarrow> (d, Err e)
      | Inr (st, key, expected) \<Rightarrow>
          (case store_del_if_value d fault st (sd_petal_hash sd) key expected of
             (d1, Inr _) \<Rightarrow> (d1, Ok None)
           | (d1, Inl e) \<Rightarrow> (d1, Err e)))"

section \<open>Effects on the file system\<close>

text \<open>
  Only directories on the way to \<open>p\<close> appear (\<open>grown\<close>); a read sees the node of its path and
  which of the path's proper prefixes are files (\<open>tree_read_cong\<close>).
\<close>

definition grown :: "file_system \<Rightarrow> file_system \<Rightarrow> path \<Rightarrow> bool" where
  "grown fs fs' p \<longleftrightarrow>
     (\<forall>q. map_of fs' q = map_of fs q \<or> map_of fs q = None \<and> map_of fs' q = Some Dir \<and> prefix q p)"

lemma grown_refl [simp]: "grown fs fs p"
  by (simp add: grown_def)

lemma grown_file: "grown fs fs' p \<Longrightarrow> map_of fs q = Some (Reg b m) \<longleftrightarrow> map_of fs' q = Some (Reg b m)"
  unfolding grown_def by (metis tnode.distinct(1) option.inject option.simps(3))

lemma is_file_iff: "is_reg x \<longleftrightarrow> (\<exists>b m. x = Some (Reg b m))"
  by (cases x rule: is_reg.cases) auto

lemma grown_is_reg: "grown fs fs' p \<Longrightarrow> is_reg (map_of fs' q) = is_reg (map_of fs q)"
  by (auto simp: is_file_iff grown_file)

lemma create_dirs_grown:
  "create_dirs fs fault pre cs = (fs', r) \<Longrightarrow> grown fs fs' (pre @ cs)"
proof (induction fs fault pre cs rule: create_dirs.induct)
  case (2 fs fault pre c cs)
  show ?case
  proof (cases "map_of fs (pre @ [c])")
    case None
    have step: "grown fs fs' (pre @ c # cs)"
      if "grown (AList.update (pre @ [c]) Dir fs) fs' ((pre @ [c]) @ cs)"
      using that None unfolding grown_def update_conv'
      by (metis append.assoc append_Cons append_Nil fun_upd_apply prefixI)
    show ?thesis
      using 2 None step
      by (auto split: option.splits prod.splits nat.splits)
  next
    case (Some nd)
    then show ?thesis using 2 by (cases nd) auto
  qed
qed simp

lemma create_dirs_dirs:
  assumes "create_dirs fs fault pre cs = (fs', Ok ())" "q \<noteq> []" "prefix q cs"
  shows "map_of fs' (pre @ q) = Some Dir"
  using assms
proof (induction fs fault pre cs arbitrary: q rule: create_dirs.induct)
  case (2 fs fault pre c cs)
  obtain q' where q: "q = c # q'" "prefix q' cs" using 2(5,6) by (cases q) auto
  obtain fs1 fault1 where c1: "create_dirs fs1 fault1 (pre @ [c]) cs = (fs', Ok ())"
    "map_of fs1 (pre @ [c]) = Some Dir"
    "q' \<noteq> [] \<Longrightarrow> map_of fs' ((pre @ [c]) @ q') = Some Dir"
    using 2 q by (force split: option.splits tnode.splits prod.splits nat.splits simp: update_conv')
  show ?case
  proof (cases "q' = []")
    case True
    then show ?thesis
      using create_dirs_grown [OF c1(1)] c1(2) q unfolding grown_def by (metis option.distinct(1))
  qed (use c1 q in auto)
qed simp

lemma create_dir_all_grown: "create_dir_all fs fault p = (fs', r) \<Longrightarrow> grown fs fs' p"
  unfolding create_dir_all_def using create_dirs_grown by fastforce

lemma create_dir_all_dirs:
  "create_dir_all fs fault p = (fs', Ok ()) \<Longrightarrow> q \<noteq> [] \<Longrightarrow> prefix q p \<Longrightarrow> map_of fs' q = Some Dir"
  unfolding create_dir_all_def using create_dirs_dirs [of fs fault "[]" p fs' q] by simp

lemma blocked_iff: "blocked fs p \<longleftrightarrow> (\<exists>q. strict_prefix q p \<and> is_reg (map_of fs q))"
proof -
  have "strict_prefix q p \<longleftrightarrow> (\<exists>n<length p. q = take n p)" for q
    by (metis append_eq_conv_conj prefix_length_less prefix_order.less_le prefix_def take_is_prefix
        length_take min.absorb4 nat_less_le)
  then show ?thesis by (simp add: blocked_def list_ex_iff Bex_def) blast
qed

lemma tree_read_cong:
  assumes "map_of fs' q = map_of fs q"
    and "\<And>s. strict_prefix s q \<Longrightarrow> is_reg (map_of fs' s) = is_reg (map_of fs s)"
  shows "tree_read fs' q = tree_read fs q"
  using assms by (auto simp: tree_read_def missing_err_def blocked_iff split: option.splits tnode.splits)

section \<open>What an operation can touch\<close>

text \<open>
  An operation at \<open>p\<close> changes the node of \<open>p\<close>, the node of its temporary file and the
  directories above it; a path unrelated to \<open>p\<close> reads as before.
\<close>

definition unrelated :: "path \<Rightarrow> path \<Rightarrow> bool" where
  "unrelated p q \<longleftrightarrow> \<not> prefix p q \<and> \<not> prefix q p \<and> \<not> prefix (temporary p) q"

definition local_change :: "path set \<Rightarrow> file_system \<Rightarrow> file_system \<Rightarrow> path \<Rightarrow> bool" where
  "local_change P fs fs' p \<longleftrightarrow>
     (\<forall>q. q \<notin> P \<longrightarrow>
        map_of fs' q = map_of fs q \<or> map_of fs q = None \<and> map_of fs' q = Some Dir \<and> prefix q (butlast p))"

lemma local_change_refl [simp]: "local_change P fs fs p"
  by (simp add: local_change_def)

lemma local_change_grown: "grown fs fs' (butlast p) \<Longrightarrow> local_change P fs fs' p"
  by (auto simp: grown_def local_change_def)

lemma local_change_upd:
  assumes "grown fs fs1 (butlast p)" "\<And>q. q \<notin> P \<Longrightarrow> map_of fs' q = map_of fs1 q"
  shows "local_change P fs fs' p"
  using assms by (auto simp: grown_def local_change_def)

lemma temporary_neq: "p \<noteq> [] \<Longrightarrow> temporary p \<noteq> p"
proof
  assume "p \<noteq> []" "temporary p = p"
  then have "length (last (temporary p)) = length (last p)" by simp
  then show False by (simp add: temporary_def)
qed

lemma prefix_butlast: "prefix q (butlast p) \<Longrightarrow> prefix q p"
  by (metis append_butlast_last_id butlast.simps(1) prefix_prefix)

lemma local_change_file:
  assumes "local_change P fs fs' p" "s \<notin> P"
  shows "is_reg (map_of fs' s) = is_reg (map_of fs s)"
proof -
  have "map_of fs' s = map_of fs s \<or> map_of fs s = None \<and> map_of fs' s = Some Dir"
    using assms unfolding local_change_def by blast
  then show ?thesis by auto
qed

lemma local_change_read:
  assumes "local_change {p, temporary p} fs fs' p" "unrelated p q"
  shows "tree_read fs' q = tree_read fs q"
proof (rule tree_read_cong)
  have out: "s \<notin> {p, temporary p}" if "prefix s q" for s
    using that assms(2) by (auto simp: unrelated_def)
  have "\<not> prefix q (butlast p)" using assms(2) prefix_butlast by (auto simp: unrelated_def)
  then show "map_of fs' q = map_of fs q"
    using assms(1) out [of q] unfolding local_change_def by blast
  show "is_reg (map_of fs' s) = is_reg (map_of fs s)" if "strict_prefix s q" for s
    using local_change_file [OF assms(1) out [OF prefix_order.less_imp_le [OF that]]] .
qed

lemma local_change_read_self:
  assumes "local_change {temporary p} fs fs' p" "p \<noteq> []"
  shows "tree_read fs' p = tree_read fs p"
proof (rule tree_read_cong)
  have "\<not> prefix p (butlast p)"
    using prefix_length_le [of p "butlast p"] assms(2) by (cases p rule: rev_cases) auto
  moreover have "p \<notin> {temporary p}" using temporary_neq [OF assms(2)] by auto
  ultimately show "map_of fs' p = map_of fs p" using assms(1) unfolding local_change_def by blast
  show "is_reg (map_of fs' s) = is_reg (map_of fs s)" if s: "strict_prefix s p" for s
  proof -
    have "length (temporary p) = length p" using assms(2) by (simp add: temporary_def)
    then have "s \<notin> {temporary p}" using prefix_length_less [OF s] by auto
    then show ?thesis by (rule local_change_file [OF assms(1)])
  qed
qed

lemma write_file_cases:
  assumes "write_file_with_mode fs p data secret create_new fault = (fs', r)"
  shows "fs' = fs \<and> (\<exists>e. r = Err e) \<or>
    (\<exists>b m. fs' = AList.update p (Reg b m) fs \<and> open_for_write fs p create_new = Ok () \<and>
       (r = Ok () \<longrightarrow> b = data \<and> m = file_mode secret) \<and>
       (m = file_mode secret \<or> (\<exists>old. map_of fs p = Some (Reg old m))))"
proof (cases "open_for_write fs p create_new")
  case (Inl e)
  then show ?thesis using assms by (simp add: write_file_with_mode_def Let_def) metis
next
  case (Inr u)
  show ?thesis
  proof (cases fault)
    case None
    then show ?thesis using assms Inr by (auto simp: write_file_with_mode_def Let_def)
  next
    case (Some f)
    then show ?thesis
      using assms Inr
      by (cases f) (fastforce simp: write_file_with_mode_def Let_def split: option.splits tnode.splits)+
  qed
qed

lemma write_file_other:
  "write_file_with_mode fs p data secret create_new fault = (fs', r) \<Longrightarrow> q \<noteq> p \<Longrightarrow> map_of fs' q = map_of fs q"
  by (drule write_file_cases) (auto simp: update_conv')

lemma write_file_Ok:
  "write_file_with_mode fs p data secret create_new fault = (fs', Ok ()) \<Longrightarrow>
   map_of fs' = (map_of fs)(p \<mapsto> Reg data (file_mode secret))"
  by (drule write_file_cases) (auto simp: update_conv')

lemma atomic_write_Ok:
  assumes "atomic_write fs p data secret wfault rfault = (fs', Ok ())" "p \<noteq> []"
  shows "map_of fs' = (map_of fs)(temporary p := None, p \<mapsto> Reg data (file_mode secret))"
proof -
  obtain fs1 r where w: "write_file_with_mode fs (temporary p) data secret False wfault = (fs1, r)"
    by (cases "write_file_with_mode fs (temporary p) data secret False wfault")
  then have "r = Ok ()" "fs_rename fs1 (temporary p) p rfault = (fs', Ok ())"
    using assms(1) by (auto simp: atomic_write_def split: sum.splits)
  moreover have m: "map_of fs1 = (map_of fs)(temporary p \<mapsto> Reg data (file_mode secret))"
    using write_file_Ok w calculation(1) by blast
  ultimately have "fs' = AList.update p (Reg data (file_mode secret)) (AList.delete (temporary p) fs1)"
    by (simp add: fs_rename_def split: if_splits option.splits)
  then show ?thesis by (simp add: update_conv' delete_conv' m)
qed

lemma fs_rename_Err: "fs_rename fs a b fault = (fs', Err e) \<Longrightarrow> fs' = fs"
  by (auto simp: fs_rename_def split: option.splits if_splits)

lemma atomic_write_Err:
  assumes "atomic_write fs p data secret wfault rfault = (fs', Err e)" "q \<noteq> temporary p"
  shows "map_of fs' q = map_of fs q"
proof -
  obtain fs1 r where w: "write_file_with_mode fs (temporary p) data secret False wfault = (fs1, r)"
    by (cases "write_file_with_mode fs (temporary p) data secret False wfault")
  then have "fs' = fs1"
    using assms(1) by (auto simp: atomic_write_def dest: fs_rename_Err split: sum.splits)
  then show ?thesis using write_file_other [OF w assms(2)] by simp
qed

section \<open>Operations as changes at one path\<close>

lemma key_path_nonempty: "key_path st h key = Ok p \<Longrightarrow> p \<noteq> []"
  by (auto simp: key_path_def and_then_Ok_iff split: if_splits)

lemma at_key_cases:
  assumes "at_key d st h key f = (d', r)"
  obtains e where "d' = d" "r = Err e"
  | p where "key_path st h key = Ok p" "f p = (d', r)" "\<not> dk_poisoned d"
  using assms by (auto simp: at_key_def store_op_guard_def split: sum.splits if_splits)

lemma store_put_cases:
  assumes put: "store_put d faults st h key data secret = (d', r)"
  obtains e where "d' = d" "r = Err e"
  | e p where "key_path st h key = Ok p" "r = Err e" "local_change {temporary p} (dk_fs d) (dk_fs d') p"
      "dk_poisoned d' = dk_poisoned d"
  | p fs where "key_path st h key = Ok p" "r = Ok ()" "grown (dk_fs d) fs (butlast p)" "\<not> dk_poisoned d'"
      "map_of (dk_fs d') = (map_of fs)(temporary p := None, p \<mapsto> Reg data (file_mode secret))"
proof -
  show ?thesis
    using put unfolding store_put_def
  proof (cases rule: at_key_cases)
    case (2 p)
    obtain fs w where m: "create_dir_all (dk_fs d) (pf_mkdir faults) (butlast p) = (fs, w)"
      by (cases "create_dir_all (dk_fs d) (pf_mkdir faults) (butlast p)")
    note g = create_dir_all_grown [OF m]
    show ?thesis
    proof (cases w)
      case (Inl e)
      with 2 m that(2) [of p] local_change_grown [OF g] show ?thesis by auto
    next
      case (Inr u)
      obtain fs' w' where a: "atomic_write fs p data secret (pf_write faults) (pf_rename faults) = (fs', w')"
        by (cases "atomic_write fs p data secret (pf_write faults) (pf_rename faults)")
      have d': "d' = d\<lparr>dk_fs := fs'\<rparr>" "r = map_err (\<lambda>e. H_Backend [S ''store put: '', S (io_text e)]) w'"
        using 2(2) m Inr a by auto
      show ?thesis
      proof (cases w')
        case (Inl e)
        then show ?thesis
          using that(2) [of p] 2(1) d' a local_change_upd [OF g, of "{temporary p}" fs']
            atomic_write_Err [of fs p data secret "pf_write faults" "pf_rename faults" fs' e] by auto
      next
        case (Inr u')
        then show ?thesis
          using that(3) [of p fs] 2 d' a g atomic_write_Ok [OF _ key_path_nonempty [OF 2(1)]] by auto
      qed
    qed
  qed (use that in blast)
qed

lemma store_put_local:
  assumes "store_put d faults st h key data secret = (d', r)" "key_path st h key = Ok p"
  shows "local_change {p, temporary p} (dk_fs d) (dk_fs d') p \<and> dk_poisoned d' = dk_poisoned d"
  using assms(1)
proof (cases rule: store_put_cases)
  case (3 p' fs)
  then have "\<not> dk_poisoned d" using assms(1) by (auto simp: store_put_def at_key_def store_op_guard_def split: sum.splits if_splits)
  moreover have "local_change {p, temporary p} (dk_fs d) (dk_fs d') p"
    using 3 assms(2) local_change_upd [OF 3(3), of "{p', temporary p'}" "dk_fs d'"] by simp
  ultimately show ?thesis using 3 by simp
next
  case 2
  then show ?thesis using assms(2) by (auto simp: local_change_def)
qed simp

lemma store_put_new_local:
  assumes "store_put_new d faults st h key data secret = (d', r)" "key_path st h key = Ok p"
  shows "local_change {p} (dk_fs d) (dk_fs d') p \<and> dk_poisoned d' = dk_poisoned d"
  using assms(1) unfolding store_put_new_def
proof (cases rule: at_key_cases)
  case (2 p')
  obtain fs w where m: "create_dir_all (dk_fs d) (pf_mkdir faults) (butlast p) = (fs, w)"
    by (cases "create_dir_all (dk_fs d) (pf_mkdir faults) (butlast p)")
  note g = create_dir_all_grown [OF m]
  obtain fs' w' where a: "write_file_with_mode fs p data secret True (pf_write faults) = (fs', w')"
    by (cases "write_file_with_mode fs p data secret True (pf_write faults)")
  have same: "map_of fs' q = map_of fs q" if "q \<noteq> p" for q
    using write_file_other [OF a that] .
  show ?thesis
    using 2 m a assms(2) local_change_upd [OF g, of "{p}" fs'] local_change_grown [OF g] same
    by (cases w) (auto simp: create_new_file_def)
qed simp

lemma fs_remove_other: "fs_remove fs p fault = (fs', r) \<Longrightarrow> q \<noteq> p \<Longrightarrow> map_of fs' q = map_of fs q"
  by (auto simp: fs_remove_def split: option.splits tnode.splits)

lemma store_del_local:
  assumes "store_del d fault st h key = (d', r)" "key_path st h key = Ok p"
  shows "local_change {p} (dk_fs d) (dk_fs d') p \<and> dk_poisoned d' = dk_poisoned d"
  using assms(1) unfolding store_del_def
proof (cases rule: at_key_cases)
  case (2 p')
  obtain fs w where m: "fs_remove (dk_fs d) p fault = (fs, w)" by (cases "fs_remove (dk_fs d) p fault")
  have "d' = d\<lparr>dk_fs := fs\<rparr>" using 2 m assms(2) by (simp add: Let_def)
  then show ?thesis using fs_remove_other [OF m] by (simp add: local_change_def)
qed simp

lemma store_del_if_value_local:
  assumes "store_del_if_value d fault st h key expected = (d', r)" "key_path st h key = Ok p"
  shows "local_change {p} (dk_fs d) (dk_fs d') p \<and> dk_poisoned d' = dk_poisoned d"
  using assms(1) unfolding store_del_if_value_def
proof (cases rule: at_key_cases)
  case (2 p')
  obtain fs w where m: "fs_remove (dk_fs d) p fault = (fs, w)" by (cases "fs_remove (dk_fs d) p fault")
  have "d' = d \<or> d' = d\<lparr>dk_fs := fs\<rparr>"
    using 2 m assms(2) by (auto simp: Let_def split: sum.splits if_splits)
  then show ?thesis using fs_remove_other [OF m] by (auto simp: local_change_def)
qed simp

section \<open>Reads after an operation\<close>

lemma store_get_path:
  "key_path st h key = Ok p \<Longrightarrow>
   store_get d st h key =
     (if dk_poisoned d then Err (H_Backend [S ''store operation lock poisoned''])
      else case tree_read (dk_fs d) p of
         Inr bytes \<Rightarrow> Ok bytes
       | Inl e \<Rightarrow> if e = Io_NotFound then Err (H_NotFound [S key])
                  else Err (H_Backend [S ''store get: '', S (io_text e)]))"
  by (simp add: store_get_def at_key_def store_op_guard_def)

lemma store_get_cong:
  assumes "dk_poisoned d' = dk_poisoned d"
    and "\<And>p. key_path st h key = Ok p \<Longrightarrow> tree_read (dk_fs d') p = tree_read (dk_fs d) p"
  shows "store_get d' st h key = store_get d st h key"
proof (cases "key_path st h key")
  case (Inl e)
  then show ?thesis by (simp add: store_get_def at_key_def)
next
  case (Inr p)
  then show ?thesis using assms by (simp add: store_get_path)
qed

datatype store_op =
    Op_put put_faults string string bool
  | Op_put_new put_faults string string bool
  | Op_del "io_err option" string
  | Op_del_if_value "io_err option" string string

fun op_key :: "store_op \<Rightarrow> string" where
  "op_key (Op_put _ key _ _) = key"
| "op_key (Op_put_new _ key _ _) = key"
| "op_key (Op_del _ key) = key"
| "op_key (Op_del_if_value _ key _) = key"

fun run_op :: "private_store \<Rightarrow> string \<Rightarrow> store_op \<Rightarrow> disk \<Rightarrow> disk" where
  "run_op st h (Op_put faults key data secret) d = fst (store_put d faults st h key data secret)"
| "run_op st h (Op_put_new faults key data secret) d = fst (store_put_new d faults st h key data secret)"
| "run_op st h (Op_del fault key) d = fst (store_del d fault st h key)"
| "run_op st h (Op_del_if_value fault key expected) d = fst (store_del_if_value d fault st h key expected)"

lemma run_op_invalid: "key_path st h (op_key op) = Err e \<Longrightarrow> run_op st h op d = d"
  by (cases op) (simp_all add: store_put_def store_put_new_def store_del_def store_del_if_value_def at_key_def)

lemma local_change_mono: "local_change P fs fs' p \<Longrightarrow> P \<subseteq> Q \<Longrightarrow> local_change Q fs fs' p"
  by (auto simp: local_change_def)

lemma run_op_local:
  assumes "key_path st h (op_key op) = Ok p"
  shows "local_change {p, temporary p} (dk_fs d) (dk_fs (run_op st h op d)) p \<and>
    dk_poisoned (run_op st h op d) = dk_poisoned d"
proof (cases op)
  case (Op_put f k v s)
  then show ?thesis
    using assms store_put_local [of d f st h k v s "fst (store_put d f st h k v s)" "snd (store_put d f st h k v s)" p]
    by simp
next
  case (Op_put_new f k v s)
  then show ?thesis
    using assms local_change_mono
      store_put_new_local [of d f st h k v s "fst (store_put_new d f st h k v s)" "snd (store_put_new d f st h k v s)" p]
    by fastforce
next
  case (Op_del f k)
  then show ?thesis
    using assms local_change_mono
      store_del_local [of d f st h k "fst (store_del d f st h k)" "snd (store_del d f st h k)" p]
    by fastforce
next
  case (Op_del_if_value f k v)
  then show ?thesis
    using assms local_change_mono
      store_del_if_value_local [of d f st h k v "fst (store_del_if_value d f st h k v)" "snd (store_del_if_value d f st h k v)" p]
    by fastforce
qed

lemma run_op_get:
  assumes "\<And>p q. key_path st h (op_key op) = Ok p \<Longrightarrow> key_path st' h' key = Ok q \<Longrightarrow> unrelated p q"
  shows "store_get (run_op st h op d) st' h' key = store_get d st' h' key"
proof (cases "key_path st h (op_key op)")
  case (Inl e)
  then show ?thesis by (simp add: run_op_invalid)
next
  case (Inr p)
  note l = run_op_local [OF this, of d]
  show ?thesis
    using l local_change_read assms [OF Inr] by (auto intro!: store_get_cong)
qed

section \<open>Reg modes\<close>

text \<open>A write leaves files of the requested mode, or a temporary file of the mode it had.\<close>

definition mode_at :: "file_system \<Rightarrow> path \<Rightarrow> nat \<Rightarrow> bool" where
  "mode_at fs q m \<longleftrightarrow> (\<exists>b. map_of fs q = Some (Reg b m))"

lemma grown_mode_at: "grown fs fs' p \<Longrightarrow> mode_at fs' q m \<longleftrightarrow> mode_at fs q m"
  by (simp add: mode_at_def grown_file [symmetric])

lemma write_file_mode:
  assumes "write_file_with_mode fs p data secret create_new fault = (fs', r)" "mode_at fs' q m"
  shows "mode_at fs q m \<or> q = p \<and> m = file_mode secret"
  using write_file_cases [OF assms(1)] assms(2)
  by (auto simp: mode_at_def update_conv' split: if_splits)

lemma rename_mode:
  assumes "fs_rename fs a b fault = (fs', r)" "mode_at fs' q m"
  shows "mode_at fs q m \<or> q = b \<and> mode_at fs a m"
  using assms by (auto simp: mode_at_def fs_rename_def update_conv' delete_conv' split: option.splits if_splits)

lemma atomic_write_mode:
  assumes "atomic_write fs p data secret wfault rfault = (fs', r)" "mode_at fs' q m"
  shows "mode_at fs q m \<or> q = temporary p \<and> m = file_mode secret \<or> q = p \<and> m = file_mode secret"
proof -
  obtain fs1 w where w: "write_file_with_mode fs (temporary p) data secret False wfault = (fs1, w)"
    by (cases "write_file_with_mode fs (temporary p) data secret False wfault")
  show ?thesis
  proof (cases w)
    case (Inl e)
    then show ?thesis using assms w write_file_mode [OF w, of q m] by (auto simp: atomic_write_def)
  next
    case (Inr u)
    then have "fs_rename fs1 (temporary p) p rfault = (fs', r)" using assms(1) w by (simp add: atomic_write_def)
    from rename_mode [OF this assms(2)] have "mode_at fs1 q m \<or> q = p \<and> mode_at fs1 (temporary p) m" .
    moreover have "map_of fs1 (temporary p) = Some (Reg data (file_mode secret))"
      using write_file_Ok w Inr by fastforce
    ultimately show ?thesis using write_file_mode [OF w, of q m] by (auto simp: mode_at_def)
  qed
qed

lemma store_put_mode:
  assumes "store_put d faults st h key data secret = (d', r)" "mode_at (dk_fs d') q m"
  shows "mode_at (dk_fs d) q m \<or>
    (\<exists>p. key_path st h key = Ok p \<and> q \<in> {p, temporary p} \<and> m = file_mode secret)"
  using assms(1) unfolding store_put_def
proof (cases rule: at_key_cases)
  case (2 p)
  obtain fs w where m: "create_dir_all (dk_fs d) (pf_mkdir faults) (butlast p) = (fs, w)"
    by (cases "create_dir_all (dk_fs d) (pf_mkdir faults) (butlast p)")
  note g = grown_mode_at [OF create_dir_all_grown [OF m]]
  obtain fs' w' where a: "atomic_write fs p data secret (pf_write faults) (pf_rename faults) = (fs', w')"
    by (cases "atomic_write fs p data secret (pf_write faults) (pf_rename faults)")
  have "dk_fs d' = fs \<or> dk_fs d' = fs'" using 2(2) m a by (auto split: sum.splits)
  then show ?thesis using assms(2) g atomic_write_mode [OF a, of q m] 2(1) by auto
qed (use assms(2) in simp)

lemma store_put_new_mode:
  assumes "store_put_new d faults st h key data secret = (d', r)" "mode_at (dk_fs d') q m"
  shows "mode_at (dk_fs d) q m \<or> (\<exists>p. key_path st h key = Ok p \<and> q \<in> {p, temporary p} \<and> m = file_mode secret)"
  using assms(1) unfolding store_put_new_def
proof (cases rule: at_key_cases)
  case (2 p)
  obtain fs w where m: "create_dir_all (dk_fs d) (pf_mkdir faults) (butlast p) = (fs, w)"
    by (cases "create_dir_all (dk_fs d) (pf_mkdir faults) (butlast p)")
  note g = grown_mode_at [OF create_dir_all_grown [OF m]]
  obtain fs' w' where a: "write_file_with_mode fs p data secret True (pf_write faults) = (fs', w')"
    by (cases "write_file_with_mode fs p data secret True (pf_write faults)")
  have "dk_fs d' = fs \<or> dk_fs d' = fs'" using 2(2) m a by (auto simp: create_new_file_def split: sum.splits)
  then show ?thesis using assms(2) g write_file_mode [OF a, of q m] 2(1) by auto
qed (use assms(2) in simp)

lemma fs_remove_mode: "fs_remove fs p fault = (fs', r) \<Longrightarrow> mode_at fs' q m \<Longrightarrow> mode_at fs q m"
  by (auto simp: fs_remove_def mode_at_def delete_conv' split: option.splits tnode.splits if_splits)

lemma store_del_mode:
  assumes "store_del d fault st h key = (d', r)" "mode_at (dk_fs d') q m"
  shows "mode_at (dk_fs d) q m"
  using assms(1) unfolding store_del_def
proof (cases rule: at_key_cases)
  case (2 p)
  obtain fs w where m: "fs_remove (dk_fs d) p fault = (fs, w)" by (cases "fs_remove (dk_fs d) p fault")
  have "d' = d\<lparr>dk_fs := fs\<rparr>" using 2 m by (simp add: Let_def)
  then show ?thesis using fs_remove_mode [OF m] assms(2) by simp
qed (use assms(2) in simp)

lemma store_del_if_value_mode:
  assumes "store_del_if_value d fault st h key expected = (d', r)" "mode_at (dk_fs d') q m"
  shows "mode_at (dk_fs d) q m"
  using assms(1) unfolding store_del_if_value_def
proof (cases rule: at_key_cases)
  case (2 p)
  obtain fs w where m: "fs_remove (dk_fs d) p fault = (fs, w)" by (cases "fs_remove (dk_fs d) p fault")
  have "d' = d \<or> d' = d\<lparr>dk_fs := fs\<rparr>" using 2 m by (auto simp: Let_def split: sum.splits if_splits)
  then show ?thesis using fs_remove_mode [OF m] assms(2) by auto
qed (use assms(2) in simp)

section \<open>Where a key lives\<close>

definition base_dirs :: "private_store \<Rightarrow> string \<Rightarrow> path set" where
  "base_dirs st h =
     (case ps_account_digest st of
        None \<Rightarrow> {ps_root st @ [h]}
      | Some dg \<Rightarrow> {ps_root st @ [h, dg],
                   (case ps_shared_root st of Some rt \<Rightarrow> rt | None \<Rightarrow> ps_root st) @ [h]})"

lemma key_path_base: "key_path st h key = Ok p \<Longrightarrow> \<exists>b\<in>base_dirs st h. p = b @ split_on CHR ''/'' key"
  by (auto simp: key_path_def petal_dir_def base_dirs_def and_then_Ok_iff split: if_splits option.splits)

lemma temporary_append: "ks \<noteq> [] \<Longrightarrow> temporary (b @ ks) = b @ temporary ks"
  by (simp add: temporary_def butlast_append)

lemma unrelated_bases:
  assumes "b \<parallel> c" "ks \<noteq> []"
  shows "unrelated (b @ ks) (c @ ms)"
  using assms(1) parallelD1 [OF parallel_append [OF assms(1)]] parallelD2 [OF parallel_append [OF assms(1)]]
  by (auto simp: unrelated_def temporary_append [OF assms(2)])

lemma run_op_other_base:
  assumes "\<And>b c. b \<in> base_dirs st h \<Longrightarrow> key_path st' h' key = Ok (c @ split_on CHR ''/'' key) \<Longrightarrow>
      c \<in> base_dirs st' h' \<Longrightarrow> b \<parallel> c"
  shows "store_get (run_op st h op d) st' h' key = store_get d st' h' key"
proof (rule run_op_get)
  fix p q
  assume p: "key_path st h (op_key op) = Ok p" and q: "key_path st' h' key = Ok q"
  from key_path_base [OF p] key_path_base [OF q] obtain b c where
    bc: "b \<in> base_dirs st h" "p = b @ split_on CHR ''/'' (op_key op)"
    "c \<in> base_dirs st' h'" "q = c @ split_on CHR ''/'' key" by blast
  have "b \<parallel> c" using assms [OF bc(1) _ bc(3)] q bc(4) by simp
  then show "unrelated p q" by (simp add: bc unrelated_bases)
qed

lemma parallel_last: "x \<noteq> y \<Longrightarrow> a @ x # s \<parallel> a @ y # t"
  by (simp add: parallel_def)

text \<open>
  The two roots of the package store: package-wide data under \<open>D\<close>, account data under \<open>R\<close> with
  the shared keys under \<open>D\<close>.
\<close>

definition laid_out :: "path \<Rightarrow> path \<Rightarrow> private_store \<Rightarrow> bool" where
  "laid_out R D st \<longleftrightarrow>
     (case ps_account_digest st of
        None \<Rightarrow> ps_root st = D
      | Some _ \<Rightarrow> ps_root st = R \<and> ps_shared_root st = Some D)"

lemma laid_out_bases:
  "laid_out R D st \<Longrightarrow> b \<in> base_dirs st h \<Longrightarrow> b = D @ [h] \<or> (\<exists>dg. ps_account_digest st = Some dg \<and> b = R @ [h, dg])"
  by (auto simp: laid_out_def base_dirs_def split: option.splits)

lemma open_selected_laid_out:
  assumes "open_selected_private_store blake3 d fault (case account of Some _ \<Rightarrow> R | None \<Rightarrow> D) account pol (Some D) = (d', Ok st)"
  shows "laid_out R D st \<and>
    ps_account_digest st = map_option (\<lambda>(wallet, number). account_digest blake3 wallet number) account \<and>
    ps_shared_keys st = (case pol of Some p \<Rightarrow> sn_shared_keys p | None \<Rightarrow> {})"
  using assms
  by (auto simp: open_selected_private_store_def open_account_def open_store_def laid_out_def
      with_shared_root_def with_shared_keys_def Let_def and_then_Ok_iff split: option.splits prod.splits sum.splits)

lemma digest_input_inj:
  assumes "digest_input w a = digest_input w' a'" "length w < 2 ^ 64" "length w' < 2 ^ 64"
  shows "w = w' \<and> a = a'"
proof -
  have eq: "be_bytes 8 (length w) @ w @ be_bytes 4 (unat a) = be_bytes 8 (length w') @ w' @ be_bytes 4 (unat a')"
    using assms by (simp add: digest_input_def)
  then have "be_bytes 8 (length w) = be_bytes 8 (length w')" by (simp add: append_eq_append_conv)
  then have len: "length w = length w'" using assms(2,3) by (auto intro: be_bytes_inj)
  then have w: "w = w'" "be_bytes 4 (unat a) = be_bytes 4 (unat a')"
    using eq by (simp_all add: append_eq_append_conv)
  have "unat a < 256 ^ 4" "unat a' < 256 ^ 4" using unsigned_less [of a, where 'a = nat] unsigned_less [of a', where 'a = nat] by simp_all
  then have "unat a = unat a'" using be_bytes_inj [OF w(2)] by blast
  then show ?thesis using w by (simp add: word_unat_eq_iff)
qed

section \<open>Writes of a component\<close>

datatype component_op =
    C_put put_faults "component_val list"
  | C_put_new put_faults "component_val list"
  | C_delete "io_err option" "component_val list"
  | C_delete_if_value "io_err option" "component_val list"

fun component_step :: "(component_val \<Rightarrow> string) \<Rightarrow> store_data \<Rightarrow> component_op \<Rightarrow> disk \<Rightarrow> disk" where
  "component_step dbg sd (C_put faults params) d = fst (component_store_put dbg sd d faults params)"
| "component_step dbg sd (C_put_new faults params) d = fst (component_store_put_new dbg sd d faults params)"
| "component_step dbg sd (C_delete fault params) d = fst (component_store_delete dbg sd d fault params)"
| "component_step dbg sd (C_delete_if_value fault params) d =
     fst (component_store_delete_if_value dbg sd d fault params)"

definition written :: "store_data \<Rightarrow> path \<Rightarrow> nat \<Rightarrow> bool" where
  "written sd q m \<longleftrightarrow>
     (\<exists>st ns key sec p. sd_private_store sd = Some st \<and> store_namespace_put_allowed sd ns sec = Ok () \<and>
        key_path st (sd_petal_hash sd) (ns @ ''/'' @ key) = Ok p \<and> q \<in> {p, temporary p} \<and> m = file_mode sec)"

lemma put_request_Ok:
  assumes "put_request dbg sd ns key data secret = Ok (st, k, v, sec)"
  shows "sd_private_store sd = Some st \<and>
    (\<exists>n l. k = n @ ''/'' @ l \<and> store_namespace_put_allowed sd n sec = Ok ())"
  using assms
  by (auto simp: put_request_def and_then_Ok_iff selected_store_def namespaced_store_key_def ok_or_def
      split: option.splits if_splits)

lemma put_params_request:
  "put_params dbg sd params = Ok x \<Longrightarrow> \<exists>ns key data secret. put_request dbg sd ns key data secret = Ok x"
  "put_new_params dbg sd params = Ok x \<Longrightarrow> \<exists>ns key data secret. put_request dbg sd ns key data secret = Ok x"
  by (cases "(dbg, sd, params)" rule: put_params.cases; auto)+

lemma put_params_Ok:
  assumes "put_params dbg sd params = Ok (st, k, v, sec) \<or> put_new_params dbg sd params = Ok (st, k, v, sec)"
  shows "sd_private_store sd = Some st \<and>
    (\<exists>n l. k = n @ ''/'' @ l \<and> store_namespace_put_allowed sd n sec = Ok ())"
  using assms put_params_request put_request_Ok by metis

lemma component_put_mode:
  assumes "mode_at (dk_fs (fst (component_store_put dbg sd d faults params))) q m"
  shows "mode_at (dk_fs d) q m \<or> written sd q m"
proof (cases "and_then (require_store sd) (\<lambda>_. put_params dbg sd params)")
  case (Inl e)
  then show ?thesis using assms by (simp add: component_store_put_def)
next
  case (Inr a)
  obtain st k v sec where a: "a = (st, k, v, sec)" by (cases a)
  have par: "put_params dbg sd params = Ok (st, k, v, sec)" using Inr a by (auto simp: and_then_Ok_iff)
  obtain d1 r where put: "store_put d faults st (sd_petal_hash sd) k v sec = (d1, r)"
    by (cases "store_put d faults st (sd_petal_hash sd) k v sec")
  have "fst (component_store_put dbg sd d faults params) = d1"
    using Inr a put by (simp add: component_store_put_def split: sum.splits)
  then show ?thesis
    using store_put_mode [OF put, of q m] assms put_params_Ok [OF disjI1 [OF par]] unfolding written_def by auto
qed

lemma component_put_new_mode:
  assumes "mode_at (dk_fs (fst (component_store_put_new dbg sd d faults params))) q m"
  shows "mode_at (dk_fs d) q m \<or> written sd q m"
proof (cases "and_then (require_store sd) (\<lambda>_. put_new_params dbg sd params)")
  case (Inl e)
  then show ?thesis using assms by (simp add: component_store_put_new_def)
next
  case (Inr a)
  obtain st k v sec where a: "a = (st, k, v, sec)" by (cases a)
  have par: "put_new_params dbg sd params = Ok (st, k, v, sec)" using Inr a by (auto simp: and_then_Ok_iff)
  obtain d1 r where put: "store_put_new d faults st (sd_petal_hash sd) k v sec = (d1, r)"
    by (cases "store_put_new d faults st (sd_petal_hash sd) k v sec")
  have "fst (component_store_put_new dbg sd d faults params) = d1"
    using Inr a put by (simp add: component_store_put_new_def split: sum.splits)
  then show ?thesis
    using store_put_new_mode [OF put, of q m] assms put_params_Ok [OF disjI2 [OF par]] unfolding written_def by auto
qed

lemma component_step_mode:
  assumes "mode_at (dk_fs (component_step dbg sd op d)) q m"
  shows "mode_at (dk_fs d) q m \<or> written sd q m"
proof (cases op)
  case (C_delete fault params)
  then show ?thesis
    using assms store_del_mode
    by (auto simp: component_store_delete_def split: sum.splits prod.splits)
next
  case (C_delete_if_value fault params)
  then show ?thesis
    using assms store_del_if_value_mode
    by (auto simp: component_store_delete_if_value_def split: sum.splits prod.splits)
qed (use assms component_put_mode component_put_new_mode in auto)

section \<open>Secret namespaces\<close>

definition sealed :: "store_data \<Rightarrow> string \<Rightarrow> disk \<Rightarrow> bool" where
  "sealed sd ns d \<longleftrightarrow>
     (\<forall>st b rest m. sd_private_store sd = Some st \<and> b \<in> base_dirs st (sd_petal_hash sd) \<and> rest \<noteq> [] \<and>
        mode_at (dk_fs d) (b @ ns # rest) m \<longrightarrow> m = 384)"

definition guarded :: "store_data \<Rightarrow> string \<Rightarrow> bool" where
  "guarded sd ns \<longleftrightarrow>
     (\<exists>pol. sd_store_namespaces sd = Some pol \<and> (\<forall>n\<in>sn_private pol. CHR ''/'' \<notin> set n) \<and>
        (ns \<in> sn_private pol \<longrightarrow> ns \<in> sn_secret pol)) \<and>
     (\<forall>st. sd_private_store sd = Some st \<longrightarrow>
        (\<forall>b\<in>base_dirs st (sd_petal_hash sd). \<forall>c\<in>base_dirs st (sd_petal_hash sd). b = c \<or> b \<parallel> c))"

lemma check_put_Ok:
  "check_put pol ns sec = Ok () \<longleftrightarrow> ns \<in> sn_private pol \<and> (sec \<longleftrightarrow> ns \<in> sn_secret pol)"
  by (cases sec; cases "ns \<in> sn_secret pol") (auto simp: check_put_def check_namespace_def and_then_Ok_iff)

lemma written_sealed:
  assumes g: "guarded sd ns" and w: "written sd (b @ ns # rest) m"
    and b: "sd_private_store sd = Some st" "b \<in> base_dirs st (sd_petal_hash sd)"
  shows "m = 384"
proof -
  obtain n key sec p where w': "store_namespace_put_allowed sd n sec = Ok ()"
    "key_path st (sd_petal_hash sd) (n @ ''/'' @ key) = Ok p"
    "b @ ns # rest = p \<or> b @ ns # rest = temporary p" "m = file_mode sec"
    using w b(1) unfolding written_def by auto
  obtain pol where pol: "sd_store_namespaces sd = Some pol" "\<forall>n\<in>sn_private pol. CHR ''/'' \<notin> set n"
    "ns \<in> sn_private pol \<longrightarrow> ns \<in> sn_secret pol" using g by (auto simp: guarded_def)
  have n: "n \<in> sn_private pol" "sec \<longleftrightarrow> n \<in> sn_secret pol" "CHR ''/'' \<notin> set n"
    using w'(1) pol(1,2) by (auto simp: store_namespace_put_allowed_def check_put_Ok)
  obtain c where c: "c \<in> base_dirs st (sd_petal_hash sd)" "p = c @ n # split_on CHR ''/'' key"
    using key_path_base [OF w'(2)] split_on_append [OF n(3)] by auto
  have q: "\<exists>s. b @ ns # rest = c @ n # s"
    using w'(3) temporary_append [of "split_on CHR ''/'' key" "c @ [n]"] by (auto simp: c(2))
  have "b = c"
  proof (rule ccontr)
    assume "b \<noteq> c"
    then have "b \<parallel> c" using g b c(1) by (auto simp: guarded_def)
    then show False using q parallel_append [of b c] by (metis parallelD1 prefix_order.refl)
  qed
  then have "n = ns" using q by auto
  then show ?thesis using n pol(3) w'(4) by (simp add: file_mode_def)
qed

lemma all_ok_iff: "all_ok f xs = Ok () \<longleftrightarrow> (\<forall>x\<in>set xs. f x = Ok ())"
  by (induction xs) (auto simp: and_then_Ok_iff)

lemma manifest_namespaces:
  assumes "store_policy_from_manifest_toml toml bytes = Ok pol"
  shows "n \<in> sn_private pol \<Longrightarrow> CHR ''/'' \<notin> set n" "sn_secret pol \<subseteq> sn_private pol"
proof -
  obtain manifest caps where m: "pol = store_policy_from_manifest manifest" "validate_store_policy caps pol = Ok ()"
    using assms by (auto simp: store_policy_from_manifest_toml_def and_then_Ok_iff Let_def)
  have fin: "finite (sn_private pol)"
    by (simp add: m(1) store_policy_from_manifest_def policy_with_shared_keys_def from_namespaces_def)
  show "CHR ''/'' \<notin> set n" if n: "n \<in> sn_private pol"
  proof -
    have "validate_store_namespace n = Ok ()"
      using m(2) n fin by (auto simp: validate_store_policy_def and_then_Ok_iff all_ok_iff split: if_splits)
    then show ?thesis by (auto simp: validate_store_namespace_def split: if_splits)
  qed
  show "sn_secret pol \<subseteq> sn_private pol"
    by (simp add: m(1) store_policy_from_manifest_def policy_with_shared_keys_def from_namespaces_def)
qed

lemma effective_namespaces:
  "sn_private (effective_store_policy pol store_mask) \<subseteq> sn_private pol"
  "ns \<in> sn_secret pol \<Longrightarrow> ns \<in> sn_private (effective_store_policy pol store_mask) \<Longrightarrow>
   ns \<in> sn_secret (effective_store_policy pol store_mask)"
  by (auto simp: effective_store_policy_def store_intersect_def Let_def split: option.splits)

interpretation sealing: op_machine "component_step dbg sd" "\<lambda>d. guarded sd ns \<longrightarrow> sealed sd ns d" "\<lambda>_. True"
  for dbg sd ns
proof
  fix d op
  assume inv: "guarded sd ns \<longrightarrow> sealed sd ns d"
  show "guarded sd ns \<longrightarrow> sealed sd ns (component_step dbg sd op d)"
    using inv component_step_mode [of dbg sd op d] written_sealed [of sd ns]
    unfolding sealed_def by blast
qed

section \<open>Partitions carried forward\<close>

lemma under_iff: "under p q \<longleftrightarrow> (\<exists>r. q = p @ r)"
  unfolding under_def by (metis append_eq_conv_conj append_take_drop_id)

lemma map_of_filter_fst: "map_of (filter (\<lambda>(q, _). P q) fs) q = (if P q then map_of fs q else None)"
  by (induction fs) auto

lemma map_of_tree [simp]: "map_of (tree_of fs p) q = (if under p q then map_of fs q else None)"
  unfolding tree_of_def by (rule map_of_filter_fst)

lemma map_of_remove_tree [simp]: "map_of (remove_tree fs p) q = (if under p q then None else map_of fs q)"
  unfolding remove_tree_def by (induction fs) auto

lemma tree_under: "(q, nd) \<in> set (tree_of fs p) \<Longrightarrow> under p q"
  by (simp add: tree_of_def)

lemma map_of_copy:
  "(\<And>q nd. (q, nd) \<in> set tree \<Longrightarrow> under src q) \<Longrightarrow>
   map_of (copy_tree tree src dst) (dst @ rel) = map_of tree (src @ rel)"
  by (induction tree) (force simp: copy_tree_def under_iff)+

lemma map_of_copy_other: "\<not> under dst q \<Longrightarrow> map_of (copy_tree tree src dst) q = None"
  by (induction tree) (auto simp: copy_tree_def under_iff)

definition same_outside :: "path list \<Rightarrow> file_system \<Rightarrow> file_system \<Rightarrow> bool" where
  "same_outside ps fs fs' \<longleftrightarrow> (\<forall>q. list_all (\<lambda>p. \<not> under p q) ps \<longrightarrow> map_of fs' q = map_of fs q)"

text \<open>Nothing exists below an absent directory.\<close>

definition rooted :: "file_system \<Rightarrow> path \<Rightarrow> bool" where
  "rooted fs p \<longleftrightarrow> (map_of fs p = None \<longrightarrow> (\<forall>rel. map_of fs (p @ rel) = None))"

lemma copy_partition_effect:
  assumes c: "copy_partition fs faults X a b = (fs', r)"
    and ne: "a \<noteq> b" "a \<noteq> ''.'' @ b @ ''.carry.tmp''"
    and rooted: "rooted fs (X @ [b])"
  shows "(if r = Ok True then same_outside [X @ [b], carry_temporary X b] fs fs' \<and>
            (\<forall>rel. map_of fs' (X @ b # rel) = map_of fs (X @ a # rel))
          else same_outside [carry_temporary X b] fs fs') \<and>
    (\<forall>v. r = Ok v \<longrightarrow> v = (map_of fs (X @ [b]) = None \<and> map_of fs (X @ [a]) \<noteq> None))"
proof (cases "map_of fs (X @ [b]) \<noteq> None \<or> map_of fs (X @ [a]) = None")
  case True
  then show ?thesis using c by (auto simp: copy_partition_def Let_def same_outside_def)
next
  case go: False
  let ?t = "carry_temporary X b"
  let ?fs = "remove_tree fs ?t"
  have sep: "\<not> under ?t (X @ a # rel)" "\<not> under ?t (X @ b # rel)" "\<not> under (X @ [b]) ?t"
    "\<not> under (X @ [b]) (X @ a # rel)" for rel
    using ne arg_cong [of b "''.'' @ b @ ''.carry.tmp''" length]
    by (auto simp: carry_temporary_def under_iff)
  show ?thesis
  proof (cases "(if map_of fs ?t = None then None
      else if is_reg (map_of fs ?t) then Some Io_NotADirectory else cy_cleanup faults)")
    case (Some e)
    then show ?thesis using c go by (auto simp: copy_partition_def Let_def same_outside_def)
  next
    case clean: None
    obtain fs1 w where w: "copy_directory ?fs (X @ [a]) ?t (cy_copy faults) = (fs1, w)"
      by (cases "copy_directory ?fs (X @ [a]) ?t (cy_copy faults)")
    have fs1: "map_of fs1 q = map_of fs q" if "\<not> under ?t q" for q
      using w that map_of_copy_other [of ?t q]
      by (auto simp: copy_directory_def map_add_def split: if_splits option.splits)
    show ?thesis
    proof (cases w)
      case (Inl e)
      then have "fs' = fs1 \<or> fs' = remove_tree fs1 ?t" "\<exists>e. r = Err e"
        using c go clean w by (auto simp: copy_partition_def Let_def split: option.splits prod.splits bool.splits)
      then show ?thesis using fs1 by (auto simp: same_outside_def)
    next
      case (Inr u)
      have copied: "map_of fs1 (?t @ rel) = map_of fs (X @ a # rel)" for rel
      proof -
        have "fs1 = copy_tree (tree_of ?fs (X @ [a])) (X @ [a]) ?t @ ?fs"
          using w Inr by (auto simp: copy_directory_def split: if_splits option.splits)
        moreover have "map_of (copy_tree (tree_of ?fs (X @ [a])) (X @ [a]) ?t) (?t @ rel) =
            map_of (tree_of ?fs (X @ [a])) ((X @ [a]) @ rel)"
          by (rule map_of_copy) (rule tree_under)
        ultimately show ?thesis
          using sep(1) [of rel] by (auto simp: map_add_def under_iff split: option.splits)
      qed
      show ?thesis
      proof (cases "cy_rename faults")
        case (Some e)
        then have "fs' = fs1" "\<exists>e. r = Err e"
          using c go clean w Inr by (auto simp: copy_partition_def Let_def rename_tree_def)
        then show ?thesis using fs1 by (auto simp: same_outside_def)
      next
        case None
        then have fs': "fs' = copy_tree (tree_of fs1 ?t) ?t (X @ [b]) @ remove_tree fs1 ?t" "r = Ok True"
          using c go clean w Inr by (auto simp: copy_partition_def Let_def rename_tree_def)
        have "map_of (copy_tree (tree_of fs1 ?t) ?t (X @ [b])) ((X @ [b]) @ rel) =
            map_of (tree_of fs1 ?t) (?t @ rel)" for rel
          by (rule map_of_copy) (rule tree_under)
        then have "map_of fs' (X @ b # rel) = map_of fs (X @ a # rel)" for rel
          using copied [of rel] sep(2) [of rel] fs1 [of "X @ b # rel"] go rooted
          by (auto simp: fs' map_add_def under_iff rooted_def split: option.splits)
        moreover have "same_outside [X @ [b], ?t] fs fs'"
          using fs1 map_of_copy_other [of "X @ [b]"] by (auto simp: same_outside_def fs' map_add_def)
        ultimately show ?thesis using fs'(2) go by auto
      qed
    qed
  qed
qed

lemma same_outside_weaken: "same_outside ps fs fs' \<Longrightarrow> set ps \<subseteq> set qs \<Longrightarrow> same_outside qs fs fs'"
  unfolding same_outside_def list_all_iff by blast

lemma copy_partition_existing:
  "map_of fs (X @ [b]) \<noteq> None \<Longrightarrow> copy_partition fs faults X a b = (fs, Ok False)"
  by (simp add: copy_partition_def)

lemma copy_partition_outside:
  assumes "copy_partition fs faults X a b = (fs', r)" "a \<noteq> b" "a \<noteq> ''.'' @ b @ ''.carry.tmp''"
    "rooted fs (X @ [b])" "\<not> under (X @ [b]) q" "\<not> under (carry_temporary X b) q"
  shows "map_of fs' q = map_of fs q"
  using copy_partition_effect [OF assms(1-4)] assms(5,6) by (auto simp: same_outside_def split: if_splits)

lemma copy_partition_result:
  assumes c: "copy_partition fs faults X a b = (fs', Ok v)" "a \<noteq> b" "a \<noteq> ''.'' @ b @ ''.carry.tmp''"
    and rooted: "rooted fs (X @ [b])"
  shows "map_of fs' (X @ b # rel) =
    map_of fs (X @ (if map_of fs (X @ [b]) = None \<and> map_of fs (X @ [a]) \<noteq> None then a else b) # rel)"
proof -
  have "\<not> under (carry_temporary X b) (X @ b # rel)"
    using arg_cong [of b "''.'' @ b @ ''.carry.tmp''" length] by (auto simp: carry_temporary_def under_iff)
  then show ?thesis
    using copy_partition_effect [OF c rooted] by (auto simp: same_outside_def split: if_splits)
qed

lemma parallel_not_under: "R \<parallel> D \<Longrightarrow> \<not> under (R @ s) (D @ t)" "R \<parallel> D \<Longrightarrow> \<not> under (D @ s) (R @ t)"
  unfolding under_iff parallel_def by (metis append.assoc prefix_def prefix_same_cases)+

lemma prefix_not_under: "prefix s X \<Longrightarrow> \<not> under (X @ [z]) s"
  by (auto simp: under_iff dest: prefix_length_le)

lemma parallel_prefix_not_under: "R \<parallel> D \<Longrightarrow> prefix s R \<Longrightarrow> \<not> under (D @ t) s"
  unfolding under_iff parallel_def by (metis append.assoc prefix_def prefix_order.trans)

lemma tree_read_shift:
  assumes "\<And>rel. map_of fs' (X @ b # rel) = map_of fs (X @ a # rel)"
    and "\<And>s. prefix s X \<Longrightarrow> map_of fs' s = map_of fs s"
  shows "tree_read fs' (X @ b # rel) = tree_read fs (X @ a # rel)"
proof -
  have sp: "strict_prefix s (X @ c # rel) \<longleftrightarrow> prefix s X \<or> (\<exists>u. strict_prefix u rel \<and> s = X @ c # u)" for s c
    by (auto simp: strict_prefix_def prefix_append prefix_Cons)
  have "blocked fs' (X @ b # rel) = blocked fs (X @ a # rel)"
    unfolding blocked_iff sp using assms by metis
  then show ?thesis using assms(1) [of rel] by (simp add: tree_read_def missing_err_def split: option.split tnode.split)
qed

lemma key_path_shift:
  assumes "key_path st a key = Ok p" "is_valid_hex_hash b" "laid_out R D st"
  shows "\<exists>X rel. X \<in> {R, D} \<and> p = X @ a # rel \<and> key_path st b key = Ok (X @ b # rel)"
  using assms
  by (auto simp: key_path_def petal_dir_def laid_out_def and_then_Ok_iff split: if_splits option.splits)

lemma key_path_invalid_iff:
  "is_valid_hex_hash a \<Longrightarrow> is_valid_hex_hash b \<Longrightarrow> key_path st a key = Err e \<longleftrightarrow> key_path st b key = Err e"
  by (auto simp: key_path_def petal_dir_def and_then_def split: sum.splits if_splits option.splits)

lemma hash_not_temporary: "is_valid_hex_hash a \<Longrightarrow> a \<noteq> ''.'' @ b"
  by (auto simp: is_valid_hex_hash_def is_ascii_digit_def byte_def)

lemma carry_forward_nodes:
  assumes run: "carry_forward d pfaults afaults D R a b = (d', r)" "R \<parallel> D" "X \<in> {R, D}"
    and valid: "is_valid_hex_hash a" "is_valid_hex_hash b" "a \<noteq> b" "\<not> dk_poisoned d"
    and rooted: "rooted (dk_fs d) (R @ [b])" "rooted (dk_fs d) (D @ [b])"
  shows "prefix s X \<Longrightarrow> map_of (dk_fs d') s = map_of (dk_fs d) s"
    and "map_of (dk_fs d') (X @ a # rel) = map_of (dk_fs d) (X @ a # rel)"
    and "r = Ok moved \<or> map_of (dk_fs d) (R @ [b]) \<noteq> None \<and> map_of (dk_fs d) (D @ [b]) \<noteq> None \<Longrightarrow>
      map_of (dk_fs d') (X @ b # rel) = map_of (dk_fs d) (X @
        (if map_of (dk_fs d) (X @ [b]) = None \<and> map_of (dk_fs d) (X @ [a]) \<noteq> None then a else b) # rel)"
proof -
  let ?fs = "dk_fs d"
  obtain fs1 r1 where c1: "copy_partition ?fs pfaults D a b = (fs1, r1)"
    by (cases "copy_partition ?fs pfaults D a b")
  obtain fs2 r2 where c2: "copy_partition fs1 afaults R a b = (fs2, r2)"
    by (cases "copy_partition fs1 afaults R a b")
  have t: "a \<noteq> ''.'' @ b @ ''.carry.tmp''" using hash_not_temporary [OF valid(1)] by blast
  note o1 = copy_partition_outside [OF c1 valid(3) t rooted(2)]
  have under: "\<not> under (D @ [z]) (R @ u)" "\<not> under (R @ [z]) (D @ u)" for z u
    using parallel_not_under [OF run(2), of "[z]" u] by auto
  have rest1: "map_of fs1 (R @ u) = map_of ?fs (R @ u)" for u
    by (rule o1) (simp_all add: under carry_temporary_def)
  then have "rooted fs1 (R @ [b])" using rooted(1) by (simp add: rooted_def)
  note o2 = copy_partition_outside [OF c2 valid(3) t this]
  note res2 = copy_partition_result [OF _ valid(3) t \<open>rooted fs1 (R @ [b])\<close>]
  note res1 = copy_partition_result [OF _ valid(3) t rooted(2)]
  have rest2: "map_of fs2 (D @ u) = map_of fs1 (D @ u)" for u
    by (rule o2) (simp_all add: under carry_temporary_def)
  have pre: "map_of fs1 s = map_of ?fs s \<and> map_of fs2 s = map_of ?fs s" if s: "prefix s X" for s
  proof -
    have "\<not> under (D @ [z]) s \<and> \<not> under (R @ [z]) s" for z
      using s run(3) prefix_not_under [of s X z] parallel_prefix_not_under [OF run(2), of s "[z]"]
        parallel_prefix_not_under [OF parallel_commute [THEN iffD1, OF run(2)], of s "[z]"] by auto
    then show ?thesis using o1 [of s] o2 [of s] by (simp add: carry_temporary_def)
  qed
  have own: "map_of fs1 (X @ a # u) = map_of ?fs (X @ a # u) \<and> map_of fs2 (X @ a # u) = map_of ?fs (X @ a # u)" for u
    using run(3) o1 [of "X @ a # u"] o2 [of "X @ a # u"] under valid(3) t rest1 rest2
    by (auto simp: carry_temporary_def under_iff)
  have d': "dk_fs d' = (if r1 \<in> range Inl then fs1 else fs2)"
    "r1 = Err e \<Longrightarrow> r = Err e" "r1 = Ok v \<Longrightarrow> r2 = Err e \<Longrightarrow> r = Err e" for e v
    using run(1) valid c1 c2
    by (auto simp: carry_forward_def store_op_guard_def split: if_splits sum.splits)
  show "prefix s X \<Longrightarrow> map_of (dk_fs d') s = map_of ?fs s" using pre d'(1) by simp
  show "map_of (dk_fs d') (X @ a # rel) = map_of ?fs (X @ a # rel)" using own [of rel] d'(1) by simp
  assume "r = Ok moved \<or> map_of ?fs (R @ [b]) \<noteq> None \<and> map_of ?fs (D @ [b]) \<noteq> None"
  then have "is_ok r1 \<and> is_ok r2"
  proof
    assume "r = Ok moved"
    then show ?thesis using d'(2,3) by (cases r1; cases r2) simp_all
  next
    assume have_both: "map_of ?fs (R @ [b]) \<noteq> None \<and> map_of ?fs (D @ [b]) \<noteq> None"
    then have "map_of fs1 (R @ [b]) \<noteq> None" using rest1 [of "[b]"] by simp
    from copy_partition_existing [OF this, of afaults a]
      copy_partition_existing [OF have_both [THEN conjunct2], of pfaults a]
    show ?thesis using c1 c2 by simp
  qed
  then obtain v1 v2 where v: "r1 = Ok v1" "r2 = Ok v2" by (auto simp: is_ok_iff)
  show "map_of (dk_fs d') (X @ b # rel) = map_of ?fs (X @
      (if map_of ?fs (X @ [b]) = None \<and> map_of ?fs (X @ [a]) \<noteq> None then a else b) # rel)"
  proof (cases "X = R")
    case True
    then show ?thesis using res2 [of afaults fs2 v2 rel] c2 v d'(1) by (simp add: rest1 image_iff)
  next
    case False
    then have "X = D" using run(3) by simp
    then show ?thesis using res1 [of pfaults fs1 v1 rel] c1 v d'(1) rest2 [of "b # rel"] by (simp add: image_iff)
  qed
qed

definition no_collision :: "(string \<Rightarrow> string) \<Rightarrow> string \<Rightarrow> string \<Rightarrow> bool" where
  "no_collision hash x y \<longleftrightarrow> (hash x = hash y \<longrightarrow> x = y)"

definition run_ops :: "(private_store \<times> string \<times> store_op) list \<Rightarrow> disk \<Rightarrow> disk" where
  "run_ops ops d = fold (\<lambda>(st, h, op). run_op st h op) ops d"

lemma run_ops_get:
  assumes "\<And>st' h' op e. (st', h', op) \<in> set ops \<Longrightarrow> store_get (run_op st' h' op e) st h key = store_get e st h key"
  shows "store_get (run_ops ops d) st h key = store_get d st h key"
  using assms unfolding run_ops_def
  by (induction ops arbitrary: d) (auto split: prod.splits)

section \<open>A sample disk\<close>

definition sample_hash :: "char \<Rightarrow> string" where
  "sample_hash c = replicate 64 c"

definition sample_store :: private_store where
  "sample_store = \<lparr>ps_root = [''d''], ps_account_digest = None, ps_shared_keys = {}, ps_shared_root = None\<rparr>"

definition sample_account :: "32 word \<Rightarrow> private_store" where
  "sample_account a = \<lparr>ps_root = [''r''], ps_account_digest = Some (account_digest (\<lambda>x. x) ''w'' a),
     ps_shared_keys = {}, ps_shared_root = Some [''d'']\<rparr>"

definition empty_disk :: disk where
  "empty_disk = \<lparr>dk_fs = [], dk_poisoned = False\<rparr>"

lemma sample_laid_out: "laid_out [''r''] [''d''] sample_store" "laid_out [''r''] [''d''] (sample_account a)"
  by (simp_all add: laid_out_def sample_store_def sample_account_def)

section \<open>Properties\<close>

text \<open>
  C13: \<open>put\<close> is all or nothing. Whatever call fails on the way, either the operation succeeds and
  the key reads back as the new value, or it fails and the key reads as before; keys that are
  unrelated (neither of the two paths is a prefix of the other, and the other key is not stored
  at the temporary name) read as before in both cases.
\<close>

theorem put_atomic:
  assumes "store_put d faults st h key data secret = (d', r)"
  shows "(r = Ok () \<and> store_get d' st h key = Ok data \<or>
      (\<exists>e. r = Err e) \<and> store_get d' st h key = store_get d st h key) \<and>
    (\<forall>st' h' key' p q. key_path st h key = Ok p \<and> key_path st' h' key' = Ok q \<and> unrelated p q \<longrightarrow>
      store_get d' st' h' key' = store_get d st' h' key')"
proof (intro conjI allI impI)
  show "r = Ok () \<and> store_get d' st h key = Ok data \<or>
      (\<exists>e. r = Err e) \<and> store_get d' st h key = store_get d st h key"
    using assms
  proof (cases rule: store_put_cases)
    case (2 e p)
    have "tree_read (dk_fs d') p = tree_read (dk_fs d) p"
      using local_change_read_self [OF 2(3) key_path_nonempty [OF 2(1)]] .
    then show ?thesis using 2 by (simp add: store_get_path)
  next
    case (3 p fs)
    then show ?thesis by (simp add: store_get_path tree_read_def)
  qed simp
  fix st' h' key' p q
  assume pq: "key_path st h key = Ok p \<and> key_path st' h' key' = Ok q \<and> unrelated p q"
  have "store_get (run_op st h (Op_put faults key data secret) d) st' h' key' = store_get d st' h' key'"
    using pq by (intro run_op_get) simp
  then show "store_get d' st' h' key' = store_get d st' h' key'" using assms by simp
qed

theorem put_atomic_witness:
  "snd (store_put empty_disk no_put_faults sample_store (sample_hash CHR ''0'') ''s/a'' ''v'' False) = Ok () \<and>
   store_get (fst (store_put empty_disk no_put_faults sample_store (sample_hash CHR ''0'') ''s/a'' ''v'' False))
     sample_store (sample_hash CHR ''0'') ''s/a'' = Ok ''v''"
proof -
  have "snd (store_put empty_disk no_put_faults sample_store (sample_hash CHR ''0'') ''s/a'' ''v'' False) = Ok ()"
    by code_simp
  then show ?thesis
    using put_atomic [OF prod.collapse [symmetric,
      of "store_put empty_disk no_put_faults sample_store (sample_hash CHR ''0'') ''s/a'' ''v'' False"]]
    by auto
qed

text \<open>
  no sequence of store operations of other petals, of any account and with any failures,
  changes what a petal reads: the data of a petal is reached through its own hash only.
\<close>

theorem petals_isolated:
  assumes roots: "R \<parallel> D"
    and mine: "laid_out R D st"
    and others: "\<forall>(st', h', op)\<in>set ops. laid_out R D st' \<and> h' \<noteq> h"
  shows "store_get (run_ops ops d) st h key = store_get d st h key"
proof (rule run_ops_get)
  fix st' h' op e
  assume "(st', h', op) \<in> set ops"
  with others have st': "laid_out R D st'" "h' \<noteq> h" by auto
  show "store_get (run_op st' h' op e) st h key = store_get e st h key"
  proof (rule run_op_other_base)
    fix b c
    assume "b \<in> base_dirs st' h'" "c \<in> base_dirs st h"
    then show "b \<parallel> c"
      using laid_out_bases [OF st'(1)] laid_out_bases [OF mine] st'(2) roots
        parallel_last [of h' h] parallel_append [OF roots] parallel_append [OF parallel_commute [THEN iffD1, OF roots]]
      by (metis append_Cons append_Nil)
  qed
qed

theorem petals_isolated_witness:
  "store_get (run_ops [(sample_store, sample_hash CHR ''1'', Op_put no_put_faults ''s/a'' ''v'' False)] empty_disk)
     sample_store (sample_hash CHR ''0'') ''s/a'' = Err (H_NotFound [S ''s/a''])"
proof -
  have "[''r''] \<parallel> [''d'']" by (simp add: parallel_def)
  moreover have "sample_hash CHR ''1'' \<noteq> sample_hash CHR ''0''" by (simp add: sample_hash_def)
  moreover have "store_get empty_disk sample_store (sample_hash CHR ''0'') ''s/a'' = Err (H_NotFound [S ''s/a''])"
    by code_simp
  ultimately show ?thesis
    using petals_isolated [of "[''r'']" "[''d'']" sample_store
      "[(sample_store, sample_hash CHR ''1'', Op_put no_put_faults ''s/a'' ''v'' False)]" "sample_hash CHR ''0''"]
    by (simp add: sample_laid_out)
qed

text \<open>
  accounts of one petal do not see each other's keys. Operations of other accounts (or
  package-wide ones) leave every key an account reads unchanged, except the declared shared keys:
  two different accounts have different digest inputs, so only a blake3 collision could join them.
\<close>

theorem accounts_isolated:
  assumes roots: "R \<parallel> D"
    and mine: "laid_out R D st" "ps_account_digest st = Some (account_digest blake3 w a)" "length w < 2 ^ 64"
    and key: "key \<notin> ps_shared_keys st"
    and others: "\<forall>(st', h', op)\<in>set ops. laid_out R D st' \<and>
      (ps_account_digest st' = None \<or> (\<exists>w' a'. ps_account_digest st' = Some (account_digest blake3 w' a') \<and>
         (w', a') \<noteq> (w, a) \<and> length w' < 2 ^ 64 \<and> no_collision blake3 (digest_input w' a') (digest_input w a)))"
  shows "store_get (run_ops ops d) st h key = store_get d st h key"
proof (rule run_ops_get)
  fix st' h' op e
  assume "(st', h', op) \<in> set ops"
  with others have st': "laid_out R D st'"
    "ps_account_digest st' = None \<or> (\<exists>w' a'. ps_account_digest st' = Some (account_digest blake3 w' a') \<and>
         (w', a') \<noteq> (w, a) \<and> length w' < 2 ^ 64 \<and> no_collision blake3 (digest_input w' a') (digest_input w a))"
    by auto
  have dg: "dg \<noteq> account_digest blake3 w a" if some: "ps_account_digest st' = Some dg" for dg
  proof -
    obtain w' a' where o: "dg = account_digest blake3 w' a'" "(w', a') \<noteq> (w, a)" "length w' < 2 ^ 64"
      "no_collision blake3 (digest_input w' a') (digest_input w a)"
      using st'(2) some by auto
    have "digest_input w' a' \<noteq> digest_input w a"
      using digest_input_inj o(2,3) mine(3) by blast
    then show ?thesis using o(4) by (simp add: o(1) account_digest_def no_collision_def)
  qed
  show "store_get (run_op st' h' op e) st h key = store_get e st h key"
  proof (rule run_op_other_base)
    fix b c
    assume b: "b \<in> base_dirs st' h'" and c: "c \<in> base_dirs st h"
      and q: "key_path st h key = Ok (c @ split_on CHR ''/'' key)"
    have c': "c = R @ [h, account_digest blake3 w a]"
      using q key mine(1,2)
      by (auto simp: key_path_def petal_dir_def laid_out_def and_then_Ok_iff split: if_splits)
    consider "b = D @ [h']" | dg where "ps_account_digest st' = Some dg" "b = R @ [h', dg]"
      using laid_out_bases [OF st'(1) b] by blast
    then show "b \<parallel> c"
    proof cases
      case 1
      then show ?thesis using parallel_append [OF parallel_commute [THEN iffD1, OF roots]] c' by blast
    next
      case 2
      then show ?thesis
        using dg [OF 2(1)] parallel_last [of h' h R "[dg]" "[account_digest blake3 w a]"]
          parallel_last [of dg "account_digest blake3 w a" "R @ [h]" "[]" "[]"] c'
        by (cases "h' = h") auto
    qed
  qed
qed

theorem accounts_isolated_witness:
  "store_get (run_ops [(sample_account 1, sample_hash CHR ''0'', Op_put no_put_faults ''s/a'' ''v'' False)] empty_disk)
     (sample_account 0) (sample_hash CHR ''0'') ''s/a'' =
   store_get empty_disk (sample_account 0) (sample_hash CHR ''0'') ''s/a''"
proof -
  let ?ops = "[(sample_account 1, sample_hash CHR ''0'', Op_put no_put_faults ''s/a'' ''v'' False)]"
  have "[''r''] \<parallel> [''d'']" by (simp add: parallel_def)
  moreover have "\<forall>(st', h', op)\<in>set ?ops. laid_out [''r''] [''d''] st' \<and>
      (ps_account_digest st' = None \<or> (\<exists>w' a'. ps_account_digest st' = Some (account_digest (\<lambda>x. x) w' a') \<and>
         (w', a') \<noteq> (''w'', 0) \<and> length w' < 2 ^ 64 \<and>
         no_collision (\<lambda>x. x) (digest_input w' a') (digest_input ''w'' 0)))"
    by (auto simp: sample_laid_out no_collision_def sample_account_def laid_out_def intro!: exI [of _ "''w''"] exI [of _ 1])
  moreover have "ps_account_digest (sample_account 0) = Some (account_digest (\<lambda>x. x) ''w'' 0)"
    "''s/a'' \<notin> ps_shared_keys (sample_account 0)" "length ''w'' < 2 ^ 64"
    by (simp_all add: sample_account_def)
  ultimately show ?thesis
    using accounts_isolated [of "[''r'']" "[''d'']" "sample_account 0" "\<lambda>x. x" "''w''" 0 "''s/a''" ?ops]
      sample_laid_out(2) by blast
qed

text \<open>
  C16: a namespace the manifest declares secret holds only owner-readable files. Whatever a
  component of the petal writes, under whatever mask and with whatever I/O failures, every file
  stored below the namespace keeps mode 0600, temporary files included.
\<close>

theorem secret_namespace_sealed:
  assumes manifest: "store_policy_from_manifest_toml toml bytes = Ok pol" "ns \<in> sn_secret pol"
    and run: "sd_store_namespaces sd = Some (effective_store_policy pol store_mask)"
      "sd_private_store sd = Some st" "laid_out R D st" "R \<parallel> D"
    and start: "sealed sd ns d"
  shows "sealed sd ns (fold (component_step dbg sd) ops d)"
proof -
  have "b = c \<or> b \<parallel> c" if b: "b \<in> base_dirs st h" and c: "c \<in> base_dirs st h" for b c h
  proof -
    have "b = D @ [h] \<or> (\<exists>dg. ps_account_digest st = Some dg \<and> b = R @ [h, dg])"
      "c = D @ [h] \<or> (\<exists>dg. ps_account_digest st = Some dg \<and> c = R @ [h, dg])"
      using laid_out_bases [OF run(3)] b c by blast+
    then show ?thesis
      using parallel_append [OF run(4)] parallel_append [OF parallel_commute [THEN iffD1, OF run(4)]] by auto
  qed
  then have "guarded sd ns"
    using run(1,2) manifest_namespaces(1) [OF manifest(1)] effective_namespaces(1) [of pol store_mask]
      effective_namespaces(2) [OF manifest(2), of store_mask]
    by (auto simp: guarded_def)
  then show ?thesis using sealing.run_inv [of sd ns d ops dbg] start by blast
qed

definition sample_secret_manifest :: petal_toml where
  "sample_secret_manifest = (sample_manifest [''/v1/*''])\<lparr>pt_store :=
     \<lparr>st_namespaces = [''s''], st_secret_namespaces = [''k''], st_shared_keys = []\<rparr>\<rparr>"

definition sample_data :: store_data where
  "sample_data = \<lparr>sd_caps = {Store}, sd_petal_hash = sample_hash CHR ''0'',
     sd_store_namespaces = Some (effective_store_policy (store_policy_from_manifest sample_secret_manifest) None),
     sd_private_store = Some sample_store\<rparr>"

definition sample_component_ops :: "component_op list" where
  "sample_component_ops =
     [C_put no_put_faults [CV_String ''k'', CV_String ''key'', CV_List [CV_U8 CHR ''v''], CV_Bool True]]"

theorem secret_namespace_sealed_witness:
  "store_policy_from_manifest_toml (\<lambda>_. Ok sample_secret_manifest) [] =
     Ok (store_policy_from_manifest sample_secret_manifest) \<and>
   map_of (dk_fs (fold (component_step (\<lambda>_. []) sample_data) sample_component_ops empty_disk))
     [''d'', sample_hash CHR ''0'', ''k'', ''key''] = Some (Reg ''v'' 384) \<and>
   sealed sample_data ''k'' (fold (component_step (\<lambda>_. []) sample_data) sample_component_ops empty_disk)"
proof -
  have pol: "store_policy_from_manifest_toml (\<lambda>_. Ok sample_secret_manifest) [] =
      Ok (store_policy_from_manifest sample_secret_manifest)"
    by code_simp
  have "''k'' \<in> sn_secret (store_policy_from_manifest sample_secret_manifest)" by code_simp
  moreover have "[''r''] \<parallel> [''d'']" by (simp add: parallel_def)
  moreover have "sealed sample_data ''k'' empty_disk" by (simp add: sealed_def mode_at_def empty_disk_def)
  moreover have "sd_store_namespaces sample_data =
      Some (effective_store_policy (store_policy_from_manifest sample_secret_manifest) None)"
    "sd_private_store sample_data = Some sample_store" by (simp_all add: sample_data_def)
  ultimately have "sealed sample_data ''k'' (fold (component_step (\<lambda>_. []) sample_data) sample_component_ops empty_disk)"
    using secret_namespace_sealed [OF pol, of "''k''" sample_data None sample_store "[''r'']" "[''d'']" empty_disk
      "\<lambda>_. []" sample_component_ops] sample_laid_out(1) by blast
  moreover have "map_of (dk_fs (fold (component_step (\<lambda>_. []) sample_data) sample_component_ops empty_disk))
     [''d'', sample_hash CHR ''0'', ''k'', ''key''] = Some (Reg ''v'' 384)"
    by code_simp
  ultimately show ?thesis using pol by blast
qed

lemma carry_forward_get:
  assumes run: "carry_forward d pfaults afaults D R a b = (d', r)"
    and layout: "R \<parallel> D" "laid_out R D st"
    and valid: "is_valid_hex_hash a" "is_valid_hex_hash b" "a \<noteq> b" "\<not> dk_poisoned d"
    and rooted: "\<forall>X\<in>{R, D}. rooted (dk_fs d) (X @ [a]) \<and> rooted (dk_fs d) (X @ [b])"
  shows "store_get d' st a key = store_get d st a key \<and>
    (is_ok r \<and> (\<forall>X\<in>{R, D}. map_of (dk_fs d) (X @ [b]) = None) \<longrightarrow>
       store_get d' st b key = store_get d st a key) \<and>
    ((\<forall>X\<in>{R, D}. map_of (dk_fs d) (X @ [b]) \<noteq> None) \<longrightarrow> store_get d' st b key = store_get d st b key)"
proof (cases "key_path st a key")
  case (Inl e)
  then have "key_path st b key = Err e" using key_path_invalid_iff [OF valid(1,2), of st key e] by blast
  with Inl show ?thesis by (simp add: store_get_def at_key_def)
next
  case (Inr p)
  from key_path_shift [OF Inr valid(2) layout(2)] obtain X rel where
    X: "X \<in> {R, D}" "key_path st a key = Ok (X @ a # rel)" "key_path st b key = Ok (X @ b # rel)"
    using Inr by auto
  note nodes = carry_forward_nodes [OF run layout(1) X(1) valid bspec [OF rooted, of R, THEN conjunct2]
    bspec [OF rooted, of D, THEN conjunct2], simplified]
  have locked: "dk_poisoned d' = dk_poisoned d"
    using run by (auto simp: carry_forward_def store_op_guard_def split: if_splits sum.splits prod.splits)
  have "tree_read (dk_fs d') (X @ a # rel) = tree_read (dk_fs d) (X @ a # rel)"
    by (rule tree_read_shift) (simp_all add: nodes)
  then have g1: "store_get d' st a key = store_get d st a key" by (simp add: store_get_path [OF X(2)] locked)
  have g2: "store_get d' st b key = store_get d st a key"
    if ok: "r = Ok moved" and none: "\<forall>X\<in>{R, D}. map_of (dk_fs d) (X @ [b]) = None" for moved
  proof -
    have "map_of (dk_fs d') (X @ b # u) = map_of (dk_fs d) (X @ a # u)" for u
      using nodes(3) [of moved u] ok none rooted X(1) by (auto simp: rooted_def split: if_splits)
    then have "tree_read (dk_fs d') (X @ b # rel) = tree_read (dk_fs d) (X @ a # rel)"
      by (rule tree_read_shift) (simp add: nodes)
    then show ?thesis by (simp add: store_get_path [OF X(2)] store_get_path [OF X(3)] locked)
  qed
  have g3: "store_get d' st b key = store_get d st b key"
    if some: "\<forall>X\<in>{R, D}. map_of (dk_fs d) (X @ [b]) \<noteq> None"
  proof -
    have "map_of (dk_fs d') (X @ b # u) = map_of (dk_fs d) (X @ b # u)" for u
      using nodes(3) [of _ u] some X(1) by (auto split: if_splits)
    then have "tree_read (dk_fs d') (X @ b # rel) = tree_read (dk_fs d) (X @ b # rel)"
      by (rule tree_read_shift) (simp add: nodes)
    then show ?thesis by (simp add: store_get_path [OF X(3)] locked)
  qed
  show ?thesis using g1 g2 g3 unfolding is_ok_iff by blast
qed

text \<open>
  carrying a package's data to its successor loses nothing and overwrites nothing. Whatever
  copy fails, every key of the predecessor (package-wide, shared or of an account) still reads as
  before. When the operation succeeds on a successor without data, the successor reads, for every
  key, what the predecessor reads; a successor that already has both partitions is left alone.
\<close>

theorem carry_forward_exact:
  assumes run: "carry_forward d pfaults afaults D R a b = (d', r)"
    and layout: "R \<parallel> D" "laid_out R D st"
    and valid: "is_valid_hex_hash a" "is_valid_hex_hash b" "a \<noteq> b" "\<not> dk_poisoned d"
    and rooted: "\<forall>X\<in>{R, D}. rooted (dk_fs d) (X @ [a]) \<and> rooted (dk_fs d) (X @ [b])"
  shows "store_get d' st a key = store_get d st a key \<and>
    (is_ok r \<and> (\<forall>X\<in>{R, D}. map_of (dk_fs d) (X @ [b]) = None) \<longrightarrow>
       store_get d' st b key = store_get d st a key) \<and>
    ((\<forall>X\<in>{R, D}. map_of (dk_fs d) (X @ [b]) \<noteq> None) \<longrightarrow> store_get d' st b key = store_get d st b key)"
  by (rule carry_forward_get [OF assms])

definition no_carry_faults :: carry_faults where
  "no_carry_faults = \<lparr>cy_cleanup = None, cy_copy = None, cy_rename = None\<rparr>"

definition sample_carry_disk :: disk where
  "sample_carry_disk = fst (store_put empty_disk no_put_faults sample_store (sample_hash CHR ''0'') ''s/a'' ''v'' False)"

theorem carry_forward_exact_witness:
  "store_get (fst (carry_forward sample_carry_disk no_carry_faults no_carry_faults [''d''] [''r'']
       (sample_hash CHR ''0'') (sample_hash CHR ''1''))) sample_store (sample_hash CHR ''1'') ''s/a'' = Ok ''v''"
proof -
  let ?c = "carry_forward sample_carry_disk no_carry_faults no_carry_faults [''d''] [''r'']
       (sample_hash CHR ''0'') (sample_hash CHR ''1'')"
  have fs: "dk_fs sample_carry_disk = [([''d''], Dir), ([''d'', sample_hash CHR ''0''], Dir),
      ([''d'', sample_hash CHR ''0'', ''s''], Dir), ([''d'', sample_hash CHR ''0'', ''s'', ''a''], Reg ''v'' 420)]"
    by code_simp
  have ok: "snd ?c = Ok True" "\<not> dk_poisoned sample_carry_disk" by code_simp+
  have valid: "is_valid_hex_hash (sample_hash CHR ''0'')" "is_valid_hex_hash (sample_hash CHR ''1'')"
    "sample_hash CHR ''0'' \<noteq> sample_hash CHR ''1''" by code_simp+
  have "\<forall>X\<in>{[''r''], [''d'']}. rooted (dk_fs sample_carry_disk) (X @ [sample_hash CHR ''0'']) \<and>
      rooted (dk_fs sample_carry_disk) (X @ [sample_hash CHR ''1''])"
    using valid(3) by (auto simp: rooted_def fs)
  moreover have "\<forall>X\<in>{[''r''], [''d'']}. map_of (dk_fs sample_carry_disk) (X @ [sample_hash CHR ''1'']) = None"
    using valid(3) by (auto simp: fs)
  moreover have "[''r''] \<parallel> [''d'']" by (simp add: parallel_def)
  moreover have "store_get sample_carry_disk sample_store (sample_hash CHR ''0'') ''s/a'' = Ok ''v''" by code_simp
  ultimately show ?thesis
    using carry_forward_exact [OF prod.collapse [symmetric, of ?c] _ sample_laid_out(1) valid ok(2), of "''s/a''"]
    unfolding ok(1) by simp
qed


text \<open>
  \<open>put_new\<close> is not all or nothing. When the write fails after some bytes, the operation
  reports an error but the truncated value is readable under the key and every retry is refused.
\<close>

theorem put_new_leaves_truncated_value:
  "let h = sample_hash CHR ''0'';
       (d1, r1) = store_put_new empty_disk (no_put_faults\<lparr>pf_write := Some (WF_data 2 (Io_Other ''disk full''))\<rparr>)
         sample_store h ''s/a'' ''value'' False;
       (d2, r2) = store_put_new d1 no_put_faults sample_store h ''s/a'' ''value'' False
   in r1 = Err (H_Backend [S ''store put_new: '', S ''disk full'']) \<and>
      store_get d1 sample_store h ''s/a'' = Ok ''va'' \<and>
      r2 = Err (H_Denied [S ''store key already exists''])"
  by code_simp

end
