(* ===== verification/Petal_Routes.thy ===== *)
theory Petal_Routes
  imports Petal_Store "HOL-Library.Product_Lexorder" "HOL-Library.Multiset"
begin

text \<open>
  The routes of a petal package, \<open>crates/bloom-petals/src/package.rs\<close> and \<open>runner.rs\<close>: the pattern
  of a route file, the conflict checks of a package, the choice of a route for a request path, the
  discovery listing, the narrowing of the metadata a component reports at run time, and the
  parameters a dispatch hands to the component.

  A route file is given by the names of its path below the petal's directory. A specificity is
  the triple of its three counts, compared lexicographically as the derived \<open>Ord\<close> does. Modes are
  32-bit words.
\<close>

unbundle bit_operations_syntax

section \<open>Patterns\<close>

abbreviation bad_wasm :: "string msg \<Rightarrow> (petal_error, 'a) result" where
  "bad_wasm m \<equiv> Err (InvalidWasm m)"

definition dynamic_segment :: "string \<Rightarrow> (petal_error, (string \<times> string) option) result" where
  "dynamic_segment segment =
     (if \<not> starts_with segment ''['' then Ok None
      else case split_once CHR '']'' (tl segment) of
        None \<Rightarrow> bad_wasm [S ''dynamic route segment missing ]: '', V2 segment]
      | Some (param, sfx) \<Rightarrow>
          if param = [] \<or>
             \<not> list_all (\<lambda>c. is_ascii_alphanumeric c \<or> c = CHR ''_'' \<or> c = CHR ''-'') param
          then bad_wasm [S ''invalid route param in segment '', V2 segment]
          else Ok (Some (param, sfx)))"

definition normalize_request_path :: "string \<Rightarrow> string option" where
  "normalize_request_path path =
     (if path = [] then Some path
      else if hd path = CHR ''/'' \<or> CHR 0x5C \<in> set path \<or> CHR 0x00 \<in> set path
         \<or> list_ex (\<lambda>seg. seg = [] \<or> seg = ''.'' \<or> seg = ''..'') (split_on CHR ''/'' path)
      then None else Some path)"

definition match_segment :: "string \<Rightarrow> string \<Rightarrow> (string \<times> string) list option" where
  "match_segment pattern seg =
     (case dynamic_segment pattern of
        Inl _ \<Rightarrow> None
      | Inr (Some (param, sfx)) \<Rightarrow>
          (case strip_suffix seg sfx of
             None \<Rightarrow> None
           | Some bound \<Rightarrow> if bound = [] then None else Some [(param, bound)])
      | Inr None \<Rightarrow> if pattern = seg then Some [] else None)"

fun match_segments :: "string list \<Rightarrow> string list \<Rightarrow> (string \<times> string) list option" where
  "match_segments [] [] = Some []"
| "match_segments (p # ps) (v # vs) =
     (case match_segment p v of
        None \<Rightarrow> None
      | Some here \<Rightarrow> map_option (\<lambda>rest. here @ rest) (match_segments ps vs))"
| "match_segments _ _ = None"

definition match_pattern :: "string \<Rightarrow> string \<Rightarrow> (string \<times> string) list option" where
  "match_pattern pattern path = match_segments (split_on CHR ''/'' pattern) (split_on CHR ''/'' path)"

definition segments_overlap :: "string \<Rightarrow> string \<Rightarrow> (petal_error, bool) result" where
  "segments_overlap a b =
     and_then (dynamic_segment a) (\<lambda>da.
     and_then (dynamic_segment b) (\<lambda>db.
       Ok (case (da, db) of
             (None, None) \<Rightarrow> a = b
           | (Some (_, sfx), None) \<Rightarrow> ends_with b sfx
           | (None, Some (_, sfx)) \<Rightarrow> ends_with a sfx
           | (Some (_, sa), Some (_, sb)) \<Rightarrow> sa = sb \<or> ends_with sa sb \<or> ends_with sb sa)))"

fun all_segments ::
  "(string \<Rightarrow> string \<Rightarrow> (petal_error, bool) result) \<Rightarrow> (string \<times> string) list \<Rightarrow> (petal_error, bool) result" where
  "all_segments f [] = Ok True"
| "all_segments f ((a, b) # rest) = and_then (f a b) (\<lambda>ok. if \<not> ok then Ok False else all_segments f rest)"

definition patterns_overlap :: "string \<Rightarrow> string \<Rightarrow> (petal_error, bool) result" where
  "patterns_overlap a b =
     (let sa = split_on CHR ''/'' a; sb = split_on CHR ''/'' b in
      if length sa \<noteq> length sb then Ok False else all_segments segments_overlap (zip sa sb))"

definition segment_covers :: "string \<Rightarrow> string \<Rightarrow> (petal_error, bool) result" where
  "segment_covers candidate descendant =
     and_then (dynamic_segment candidate) (\<lambda>dc.
     and_then (dynamic_segment descendant) (\<lambda>dd.
       Ok (case (dc, dd) of
             (None, None) \<Rightarrow> candidate = descendant
           | (Some (_, sfx), None) \<Rightarrow>
               (case strip_suffix descendant sfx of Some bound \<Rightarrow> bound \<noteq> [] | None \<Rightarrow> False)
           | (None, Some _) \<Rightarrow> False
           | (Some (_, cs), Some (_, ds)) \<Rightarrow> ends_with ds cs)))"

section \<open>Routes of a package\<close>

type_synonym route_specificity = "nat \<times> nat \<times> nat"

record route_record =
  rr_route_id :: string
  rr_pattern :: string
  rr_source :: path
  rr_params :: "string list"
  rr_specificity :: route_specificity

definition specificity :: "string \<Rightarrow> route_specificity" where
  "specificity pattern =
     (let segments = split_on CHR ''/'' pattern in
      (length segments, length (filter (\<lambda>s. \<not> starts_with s ''['') segments),
       if ends_with pattern ''/'' then 0 else 1))"

fun route_params_from :: "string \<Rightarrow> string list \<Rightarrow> string list \<Rightarrow> (petal_error, string list) result" where
  "route_params_from pattern params [] = Ok params"
| "route_params_from pattern params (segment # segments) =
     and_then (dynamic_segment segment) (\<lambda>dyn.
       case dyn of
         None \<Rightarrow> route_params_from pattern params segments
       | Some (param, _) \<Rightarrow>
           if param \<in> set params
           then bad_wasm [S ''duplicate route param '', V2 param, S '' in '', V2 pattern]
           else route_params_from pattern (params @ [param]) segments)"

definition route_params :: "string \<Rightarrow> (petal_error, string list) result" where
  "route_params pattern = route_params_from pattern [] (split_on CHR ''/'' pattern)"

definition route_pattern :: "path \<Rightarrow> (petal_error, string) result" where
  "route_pattern rel =
     (case find (\<lambda>seg. CHR 0x5C \<in> set seg \<or> CHR 0x00 \<in> set seg) rel of
        Some seg \<Rightarrow> bad_wasm [S ''route path contains invalid segment '', V2 seg]
      | None \<Rightarrow>
          if rel = [] then bad_wasm [S ''empty route path'']
          else case find (\<lambda>seg. starts_with seg ''$'') (butlast rel) of
            Some reserved \<Rightarrow> bad_wasm [S ''reserved route segment '', V2 reserved,
              S '' is only allowed as a recognized route leaf'']
          | None \<Rightarrow>
              (case strip_suffix (last rel) ''.wasm'' of
                 None \<Rightarrow> bad_wasm [S ''route leaf is not .wasm'']
               | Some leaf \<Rightarrow>
                   if leaf = ''$index'' then Ok (join ''/'' (butlast rel))
                   else if leaf \<noteq> ''$lookup'' \<and> starts_with leaf ''$''
                   then bad_wasm [S ''unsupported reserved route file '', S leaf, S ''.wasm'']
                   else Ok (join ''/'' (butlast rel @ [leaf]))))"

fun scan_routes :: "path list \<Rightarrow> (petal_error, route_record list) result" where
  "scan_routes [] = Ok []"
| "scan_routes (file # files) =
     (if \<not> ends_with (last file) ''.wasm'' then scan_routes files
      else and_then (route_pattern file) (\<lambda>pattern.
           and_then (route_params pattern) (\<lambda>params.
           and_then (scan_routes files) (\<lambda>rest.
             Ok (\<lparr>rr_route_id = [], rr_pattern = pattern, rr_source = file, rr_params = params,
                  rr_specificity = specificity pattern\<rparr> # rest)))))"

fun number_routes :: "nat \<Rightarrow> route_record list \<Rightarrow> route_record list" where
  "number_routes i [] = []"
| "number_routes i (r # rs) = r\<lparr>rr_route_id := ''r'' @ pad_nat 6 (i + 1)\<rparr> # number_routes (i + 1) rs"

definition file_route_shadows_descendant :: "'a route_record_scheme \<Rightarrow> 'a route_record_scheme \<Rightarrow> (petal_error, bool) result" where
  "file_route_shadows_descendant candidate descendant =
     (if rr_source candidate \<noteq> [] \<and> last (rr_source candidate) = ''$index.wasm'' then Ok False
      else let cs = split_on CHR ''/'' (rr_pattern candidate); ds = split_on CHR ''/'' (rr_pattern descendant) in
        if length ds \<le> length cs then Ok False
        else all_segments segment_covers (zip cs ds))"

definition route_conflict :: "'a route_record_scheme \<Rightarrow> 'a route_record_scheme \<Rightarrow> (petal_error, unit) result" where
  "route_conflict a b =
     and_then (if rr_specificity a = rr_specificity b then patterns_overlap (rr_pattern a) (rr_pattern b)
               else Ok False) (\<lambda>overlap.
       if overlap then bad_wasm [S ''conflicting Petal routes '', V2 (rr_pattern a), S '' and '', V2 (rr_pattern b)]
       else and_then (file_route_shadows_descendant a b) (\<lambda>ab.
            and_then (if ab then Ok True else file_route_shadows_descendant b a) (\<lambda>shadow.
              if shadow then bad_wasm [S ''file route shadows descendant Petal route: '', V2 (rr_pattern a),
                S '' and '', V2 (rr_pattern b)]
              else Ok ())))"

fun validate_route_conflicts :: "'a route_record_scheme list \<Rightarrow> (petal_error, unit) result" where
  "validate_route_conflicts [] = Ok ()"
| "validate_route_conflicts (a # rest) =
     and_then (all_ok (route_conflict a) rest) (\<lambda>_. validate_route_conflicts rest)"

definition scan_dir :: "path list \<Rightarrow> (petal_error, route_record list) result" where
  "scan_dir files =
     and_then (scan_routes files) (\<lambda>routes.
       let numbered = number_routes 0 (sort_key rr_pattern routes) in
       and_then (validate_route_conflicts numbered) (\<lambda>_. Ok numbered))"

section \<open>Choosing a route\<close>

type_synonym 'r matched = "'r \<times> (string \<times> string) list"

definition better :: "'a route_record_scheme matched \<Rightarrow> 'a route_record_scheme matched option \<Rightarrow> bool" where
  "better candidate best =
     (case best of None \<Rightarrow> True | Some b \<Rightarrow> rr_specificity (fst b) < rr_specificity (fst candidate))"

fun best_route ::
  "string \<Rightarrow> 'a route_record_scheme matched option \<Rightarrow> 'a route_record_scheme list \<Rightarrow>
   'a route_record_scheme matched option" where
  "best_route path best [] = best"
| "best_route path best (r # rs) =
     (case match_pattern (rr_pattern r) path of
        None \<Rightarrow> best_route path best rs
      | Some params \<Rightarrow>
          best_route path (if better (r, params) best then Some (r, params) else best) rs)"

definition match_route :: "'a route_record_scheme list \<Rightarrow> string \<Rightarrow> 'a route_record_scheme matched option" where
  "match_route routes path =
     (case normalize_request_path path of None \<Rightarrow> None | Some p \<Rightarrow> best_route p None routes)"

section \<open>The installed route index\<close>

datatype route_op = R_Lookup | R_List | R_Read | R_Write

datatype entry_kind = K_Dir | K_File | K_Symlink

record install_metadata =
  im_mode :: "32 word"
  im_cache_ttl_ms :: "nat option"
  im_side_effecting_read :: bool
  im_write_async :: bool
  im_executable :: bool
  im_required_caps :: "string list"
  im_sign_intent :: "string option"

datatype route_abi = ComponentBloomRoute010

record index_record = route_record +
  ix_artifact_path :: string
  ix_artifact_hash :: string
  ix_abi :: route_abi
  ix_kind :: entry_kind
  ix_ops :: "route_op list"
  ix_install_metadata :: install_metadata
  ix_operation_classes :: "string list"
  ix_allowed_routes :: "string list"
  ix_scope_declared :: bool
  ix_crypto_suites :: "string list"
  ix_maximum_lifetime_ms :: "nat option"

definition index_match_route :: "index_record list \<Rightarrow> string \<Rightarrow> index_record matched option" where
  "index_match_route routes path = match_route routes path"

definition route_segments :: "string \<Rightarrow> string list" where
  "route_segments path = (if path = [] then [] else split_on CHR ''/'' path)"

definition route_segment_matches :: "string \<Rightarrow> string \<Rightarrow> bool" where
  "route_segment_matches pattern seg =
     (case (if starts_with pattern ''['' then split_once CHR '']'' (tl pattern) else None) of
        Some (_, sfx) \<Rightarrow> (case strip_suffix seg sfx of Some bound \<Rightarrow> bound \<noteq> [] | None \<Rightarrow> False)
      | None \<Rightarrow> pattern = seg)"

definition route_has_descendant :: "string \<Rightarrow> string \<Rightarrow> bool" where
  "route_has_descendant pattern path =
     (let ps = route_segments pattern; vs = route_segments path in
      if length ps \<le> length vs then False
      else list_all (\<lambda>(v, p). route_segment_matches p v) (zip vs ps))"

definition ancestor_score :: "nat \<Rightarrow> string \<Rightarrow> nat" where
  "ancestor_score depth pattern =
     length (filter (\<lambda>part. \<not> starts_with part ''['' \<and> \<not> starts_with part ''$'')
       (take depth (split_on CHR ''/'' pattern)))"

definition ancestor_routes :: "index_record list \<Rightarrow> string \<Rightarrow> index_record list" where
  "ancestor_routes routes path =
     (let depth = length (route_segments path);
          candidates = filter (\<lambda>r. route_has_descendant (rr_pattern r) path) routes;
          score = (\<lambda>r. ancestor_score depth (rr_pattern r))
      in filter (\<lambda>r. list_all (\<lambda>c. score c \<le> score r) candidates) candidates)"

text \<open>The entries of a listing, an ordered map from names to directory or file.\<close>

fun add_entry :: "string \<Rightarrow> bool \<Rightarrow> (string \<times> bool) list \<Rightarrow> (string \<times> bool) list" where
  "add_entry name is_dir [] = [(name, is_dir)]"
| "add_entry name is_dir ((n, k) # rest) =
     (if name = n then (n, k \<or> is_dir) # rest
      else if name < n then (name, is_dir) # (n, k) # rest
      else (n, k) # add_entry name is_dir rest)"

definition list_route :: "string \<Rightarrow> index_record \<Rightarrow> (string \<times> bool) list \<Rightarrow> (string \<times> bool) list" where
  "list_route path route entries =
     (let vs = route_segments path; ps = route_segments (rr_pattern route) in
      if length ps \<le> length vs \<or> \<not> list_all (\<lambda>(v, p). route_segment_matches p v) (zip vs ps) then entries
      else let nxt = ps ! length vs in
        if starts_with nxt ''$'' \<or> starts_with nxt ''['' then entries
        else add_entry nxt (\<not> (length vs + 1 = length ps \<and> ix_kind route = K_File)) entries)"

definition static_list_entries :: "index_record list \<Rightarrow> string \<Rightarrow> (string \<times> bool) list" where
  "static_list_entries routes path = fold (list_route path) (ancestor_routes routes path) []"

section \<open>Dispatch\<close>

datatype dispatch_op = D_Lookup | D_List | D_Read | D_Write

fun route_op_of :: "dispatch_op \<Rightarrow> route_op" where
  "route_op_of D_Lookup = R_Lookup"
| "route_op_of D_List = R_List"
| "route_op_of D_Read = R_Read"
| "route_op_of D_Write = R_Write"

fun route_op_text :: "route_op \<Rightarrow> string" where
  "route_op_text R_Lookup = ''Lookup''"
| "route_op_text R_List = ''List''"
| "route_op_text R_Read = ''Read''"
| "route_op_text R_Write = ''Write''"

definition special_route_path :: "string \<Rightarrow> string \<Rightarrow> string" where
  "special_route_path path special = (if path = [] then special else path @ ''/'' @ special)"

definition match_special_route :: "index_record list \<Rightarrow> string \<Rightarrow> string \<Rightarrow> index_record matched option" where
  "match_special_route routes path special =
     (case index_match_route routes (special_route_path path special) of
        None \<Rightarrow> None
      | Some m \<Rightarrow>
          (let segs = route_segments (rr_pattern (fst m)) in
           if segs \<noteq> [] \<and> last segs = special then Some m else None))"

definition match_index_for_op :: "index_record list \<Rightarrow> dispatch_op \<Rightarrow> string \<Rightarrow> index_record matched option" where
  "match_index_for_op routes op path =
     (case op of
        D_Lookup \<Rightarrow>
          (case index_match_route routes path of
             Some m \<Rightarrow> Some m
           | None \<Rightarrow> match_special_route routes path ''$lookup'')
      | _ \<Rightarrow> index_match_route routes path)"

definition validate_runtime_route_path :: "string \<Rightarrow> (petal_error, unit) result" where
  "validate_runtime_route_path path =
     (if starts_with path ''/'' \<or> CHR 0x5C \<in> set path \<or> CHR 0x00 \<in> set path \<or>
         path \<noteq> [] \<and> list_ex (\<lambda>seg. seg = [] \<or> seg = ''.'' \<or> seg = ''..'' \<or> starts_with seg ''$'')
           (split_on CHR ''/'' path)
      then bad_wasm [S ''invalid Petal runtime route path '', V2 path] else Ok ())"

definition app_path :: "string \<Rightarrow> string \<Rightarrow> string" where
  "app_path mount path = (if path = [] then ''petals/'' @ mount else ''petals/'' @ mount @ ''/'' @ path)"

text \<open>\<open>load\<close> resolves the mount to its installed route index.\<close>

definition petal_route ::
  "(string \<Rightarrow> (petal_error, index_record list) result) \<Rightarrow> string \<Rightarrow> dispatch_op \<Rightarrow> string \<Rightarrow>
   (petal_error, index_record matched) result" where
  "petal_route load mount op path =
     and_then (validate_runtime_route_path path) (\<lambda>_.
     and_then (load mount) (\<lambda>routes.
       case match_index_for_op routes op path of
         None \<Rightarrow> Err (P_NotFound [S (app_path mount path)])
       | Some m \<Rightarrow>
           if route_op_of op \<notin> set (ix_ops (fst m))
           then Err (ModeUnsupported [S ''Petal route '', S (rr_route_id (fst m)), S '' does not support '',
             S (route_op_text (route_op_of op))])
           else Ok m))"

record account_context =
  ac_evm_fingerprint :: "string option"
  ac_solana_fingerprint :: "string option"

definition route_owner_fingerprint :: "index_record \<Rightarrow> account_context \<Rightarrow> string option" where
  "route_owner_fingerprint route account =
     (let evm = list_ex (\<lambda>s. starts_with s ''secp256k1'') (ix_crypto_suites route);
          solana = list_ex (\<lambda>s. \<not> starts_with s ''secp256k1'' \<and> starts_with s ''ed25519'') (ix_crypto_suites route)
      in if evm \<and> \<not> solana then ac_evm_fingerprint account
         else if \<not> evm \<and> solana then ac_solana_fingerprint account
         else case (ac_evm_fingerprint account, ac_solana_fingerprint account) of
           (Some f, None) \<Rightarrow> Some f
         | (None, Some f) \<Rightarrow> Some f
         | _ \<Rightarrow> None)"

definition owner_params :: "account_context option \<Rightarrow> index_record \<Rightarrow> (string \<times> string) list" where
  "owner_params account route =
     (case account of
        Some a \<Rightarrow> (case route_owner_fingerprint route a of
          Some f \<Rightarrow> [(''bloom.owner_key_fingerprint'', f)] | None \<Rightarrow> [])
      | None \<Rightarrow> [])"

definition dispatch_context ::
  "(string \<Rightarrow> (petal_error, index_record list) result) \<Rightarrow> string \<Rightarrow> dispatch_op \<Rightarrow> string \<Rightarrow>
   (string \<times> string) list \<Rightarrow> (string \<times> string) list \<Rightarrow> account_context option \<Rightarrow>
   (petal_error, index_record matched \<times> (string \<times> string) list) result" where
  "dispatch_context load mount op path ctx trusted account =
     (case find (\<lambda>(name, _). starts_with name ''bloom.'') ctx of
        Some (name, _) \<Rightarrow> bad_wasm [S ''caller context parameter '', S [CHR 0x27], S name, S [CHR 0x27], S '' uses the reserved bloom. prefix'']
      | None \<Rightarrow>
          (case find (\<lambda>(name, _). \<not> starts_with name ''bloom.'' \<or> name = ''bloom.route_id'') trusted of
             Some (name, _) \<Rightarrow> bad_wasm [S ''trusted parameter '', S [CHR 0x27], S name, S [CHR 0x27], S '' is not a host-owned bloom. name'']
           | None \<Rightarrow>
               and_then (petal_route load mount op path) (\<lambda>(route, params).
                 let route_params = params @ [(''bloom.route_id'', rr_route_id route)] @ owner_params account route @ trusted
                 in Ok ((route, params), ctx @ route_params))))"

section \<open>Metadata a component reports\<close>

record component_metadata =
  cm_kind :: entry_kind
  cm_mode :: "32 word"
  cm_cache_ttl_ms :: "nat option"
  cm_side_effecting_read :: bool
  cm_write_async :: bool
  cm_required_caps :: "string list"
  cm_sign_intent :: "string option"
  cm_executable :: bool

definition validate_sign_intent :: "string \<Rightarrow> (petal_error, unit) result" where
  "validate_sign_intent intent =
     (if intent = [] \<or> length intent > 128 then bad_wasm [S ''Petal sign intent must be 1..128 bytes'']
      else if \<not> list_all (\<lambda>c. is_ascii_alphanumeric c \<or> c = CHR ''.'' \<or> c = CHR ''-'' \<or> c = CHR ''_'' \<or> c = CHR '':'') intent
      then bad_wasm [S ''Petal sign intent '', V2 intent, S '' contains an unsupported byte'']
      else Ok ())"

fun kind_text :: "entry_kind \<Rightarrow> string" where
  "kind_text K_Dir = ''Dir''"
| "kind_text K_File = ''File''"
| "kind_text K_Symlink = ''Symlink''"

abbreviation bad_route :: "string \<Rightarrow> string msg \<Rightarrow> (petal_error, 'a) result" where
  "bad_route route_id m \<equiv> bad_wasm (S ''Petal route '' # S route_id # m)"

definition validate_component_metadata_policy ::
  "string \<Rightarrow> entry_kind \<Rightarrow> component_metadata \<Rightarrow> string list option \<Rightarrow> string set \<Rightarrow> string set \<Rightarrow>
   (petal_error, unit) result" where
  "validate_component_metadata_policy route_id kind metadata cap_ceiling allowed_caps allowed_sign_intents =
     (if cm_kind metadata \<noteq> kind
      then bad_route route_id [S '' metadata kind '', S (kind_text (cm_kind metadata)),
        S '' does not match route kind '', S (kind_text kind)]
      else if cm_executable metadata then bad_route route_id [S '' metadata executable=true is not supported'']
      else if cm_mode metadata AND NOT 511 \<noteq> 0
      then bad_route route_id [S '' metadata mode must be a unix permission mode'']
      else and_then (all_ok (\<lambda>cap.
             if cap \<notin> allowed_caps then bad_route route_id [S '' metadata requires missing petal.toml cap '', S cap]
             else if (case cap_ceiling of Some caps \<Rightarrow> cap \<notin> set caps | None \<Rightarrow> False)
             then bad_route route_id [S '' metadata required cap '', S cap, S '' widens its capability ceiling'']
             else Ok ()) (cm_required_caps metadata)) (\<lambda>_.
           case cm_sign_intent metadata of
             None \<Rightarrow> Ok ()
           | Some intent \<Rightarrow>
               if ''bloom:sign'' \<notin> set (cm_required_caps metadata)
               then bad_route route_id [S '' metadata sign_intent requires bloom:sign'']
               else if intent \<notin> allowed_sign_intents
               then bad_route route_id [S '' metadata sign_intent '', V2 intent, S '' is not allowed'']
               else validate_sign_intent intent))"

definition narrow_runtime_route_metadata ::
  "index_record \<Rightarrow> component_metadata \<Rightarrow> string set \<Rightarrow> (petal_error, install_metadata) result" where
  "narrow_runtime_route_metadata route metadata allowed_sign_intents =
     (let inst = ix_install_metadata route; rid = rr_route_id route in
      and_then (validate_component_metadata_policy rid (ix_kind route) metadata (Some (im_required_caps inst))
          (set (im_required_caps inst)) allowed_sign_intents) (\<lambda>_.
        if cm_mode metadata AND NOT (im_mode inst) \<noteq> 0
        then bad_route rid [S '' runtime metadata mode widens install-time mode'']
        else if \<not> im_side_effecting_read inst \<and> cm_side_effecting_read metadata
        then bad_route rid [S '' runtime metadata widens side-effecting-read'']
        else if \<not> im_write_async inst \<and> cm_write_async metadata
        then bad_route rid [S '' runtime metadata widens write-async'']
        else and_then (case (im_cache_ttl_ms inst, cm_cache_ttl_ms metadata) of
               (None, Some _) \<Rightarrow> if rr_params route = []
                 then bad_route rid [S '' runtime metadata widens cacheability''] else Ok ()
             | (Some mx, Some ttl) \<Rightarrow> if ttl > mx
                 then bad_route rid [S '' runtime metadata widens cache ttl''] else Ok ()
             | _ \<Rightarrow> Ok ()) (\<lambda>_.
          if im_sign_intent inst \<noteq> None \<and> cm_sign_intent metadata \<noteq> im_sign_intent inst
          then bad_route rid [S '' runtime metadata widens sign intent'']
          else Ok \<lparr>im_mode = cm_mode metadata, im_cache_ttl_ms = cm_cache_ttl_ms metadata,
                   im_side_effecting_read = cm_side_effecting_read metadata,
                   im_write_async = cm_write_async metadata, im_executable = cm_executable metadata,
                   im_required_caps = cm_required_caps metadata, im_sign_intent = cm_sign_intent metadata\<rparr>)))"

definition enforce_runtime_route_op :: "dispatch_op \<Rightarrow> index_record \<Rightarrow> install_metadata \<Rightarrow> (petal_error, unit) result" where
  "enforce_runtime_route_op op route metadata =
     (if op = D_Write \<and> im_mode metadata AND 146 = 0
      then Err (ModeUnsupported [S ''Petal route '', S (rr_route_id route), S '' is not writable at runtime''])
      else Ok ())"

fun capability_parse :: "string \<Rightarrow> capability option" where
  "capability_parse s =
     (if s = ''vfs.read'' then Some VfsRead else if s = ''vfs.write'' then Some VfsWrite
      else if s = ''net.fetch'' then Some NetFetch else if s = ''sign'' then Some Sign
      else if s = ''store'' then Some Store else if s = ''chain'' then Some Chain
      else if s = ''tx.outbox'' then Some TxOutbox else if s = ''key.derive'' then Some KeyDerive else None)"

definition petal_capability :: "string \<Rightarrow> capability option" where
  "petal_capability cap =
     (if cap = ''bloom:http'' then Some NetFetch else if cap = ''bloom:store'' then Some Store
      else if cap = ''bloom:sign'' then Some Sign else if cap = ''bloom:chain'' then Some Chain
      else if cap = ''bloom:tx.outbox'' then Some TxOutbox else if cap = ''bloom:key.derive'' then Some KeyDerive
      else if cap = ''bloom:vfs.read'' then Some VfsRead else if cap = ''bloom:vfs.write'' then Some VfsWrite
      else capability_parse cap)"

fun capabilities :: "string \<Rightarrow> string list \<Rightarrow> (petal_error, capability set) result" where
  "capabilities route_id [] = Ok {}"
| "capabilities route_id (cap # caps) =
     (case petal_capability cap of
        None \<Rightarrow> bad_route route_id [S '' has unknown required cap '', V2 cap]
      | Some c \<Rightarrow> and_then (capabilities route_id caps) (\<lambda>cs. Ok (insert c cs)))"

definition dispatch_caps :: "string \<Rightarrow> install_metadata \<Rightarrow> capability set option \<Rightarrow> (petal_error, capability set) result" where
  "dispatch_caps route_id metadata cap_mask =
     and_then (capabilities route_id (im_required_caps metadata)) (\<lambda>caps.
       Ok (case cap_mask of Some m \<Rightarrow> caps \<inter> m | None \<Rightarrow> caps))"

definition route_sign_intents :: "string set \<Rightarrow> string option \<Rightarrow> string set option \<Rightarrow> string set" where
  "route_sign_intents declared route_intent intent_mask =
     (let limited = (case route_intent of
            Some intent \<Rightarrow> if intent \<in> declared then {intent} else {}
          | None \<Rightarrow> declared)
      in case intent_mask of Some m \<Rightarrow> limited \<inter> m | None \<Rightarrow> limited)"

text \<open>
  One dispatch up to the call of the component: the route, the metadata it runs under (\<open>report\<close>
  is what the component itself says, asked only for parameterized routes), its capabilities and
  signing intents, and its parameters.
\<close>

definition runtime_metadata ::
  "index_record matched \<Rightarrow> (petal_error, component_metadata) result \<Rightarrow> string set \<Rightarrow>
   (petal_error, install_metadata) result" where
  "runtime_metadata m report declared_intents =
     (if ix_abi (fst m) \<noteq> ComponentBloomRoute010 \<or> snd m = [] then Ok (ix_install_metadata (fst m))
      else and_then report (\<lambda>metadata. narrow_runtime_route_metadata (fst m) metadata declared_intents))"

definition prepare_dispatch ::
  "(string \<Rightarrow> (petal_error, index_record list) result) \<Rightarrow> string \<Rightarrow> dispatch_op \<Rightarrow> string \<Rightarrow>
   (string \<times> string) list \<Rightarrow> (string \<times> string) list \<Rightarrow> account_context option \<Rightarrow>
   (petal_error, component_metadata) result \<Rightarrow> string set \<Rightarrow> capability set option \<Rightarrow> string set option \<Rightarrow>
   (petal_error, index_record \<times> capability set \<times> string set \<times> (string \<times> string) list) result" where
  "prepare_dispatch load mount op path ctx trusted account report declared_intents cap_mask intent_mask =
     and_then (dispatch_context load mount op path ctx trusted account) (\<lambda>(m, full_ctx).
     and_then (runtime_metadata m report declared_intents) (\<lambda>metadata.
     and_then (enforce_runtime_route_op op (fst m) metadata) (\<lambda>_.
     and_then (dispatch_caps (rr_route_id (fst m)) metadata cap_mask) (\<lambda>caps.
       Ok (fst m, caps, route_sign_intents declared_intents (im_sign_intent metadata) intent_mask, full_ctx)))))"

section \<open>Matching\<close>

lemma match_segment_cases:
  "match_segment p v = Some here \<longleftrightarrow>
     dynamic_segment p = Ok None \<and> p = v \<and> here = [] \<or>
     (\<exists>param sfx bound. dynamic_segment p = Ok (Some (param, sfx)) \<and> v = bound @ sfx \<and> bound \<noteq> [] \<and>
        here = [(param, bound)])"
  by (auto simp: match_segment_def strip_suffix_Some split: sum.splits option.splits if_splits)

lemma suffixes_comparable: "a @ s = b @ (t :: string) \<Longrightarrow> ends_with s t \<or> ends_with t s"
  by (auto simp: append_eq_append_conv2 ends_with_iff)

lemma matched_segments_overlap:
  assumes "match_segment p v = Some x" "match_segment q v = Some y"
  shows "segments_overlap p q = Ok True"
  using assms suffixes_comparable
  by (auto simp: match_segment_cases segments_overlap_def ends_with_iff split: option.splits)

lemma match_segments_length: "match_segments ps vs = Some params \<Longrightarrow> length ps = length vs"
  by (induction ps vs arbitrary: params rule: match_segments.induct) (auto split: option.splits)

lemma matched_patterns_overlap:
  assumes "match_segments ps vs = Some x" "match_segments qs vs = Some y"
  shows "all_segments segments_overlap (zip ps qs) = Ok True"
  using assms
proof (induction ps vs arbitrary: x y qs rule: match_segments.induct)
  case (2 p ps v vs)
  then obtain q qs' where q: "qs = q # qs'" by (cases qs) auto
  with 2 show ?case by (auto split: option.splits simp: matched_segments_overlap)
qed (auto elim: match_segments.elims)

lemma patterns_overlap_matched:
  assumes "match_pattern a path = Some x" "match_pattern b path = Some y"
  shows "patterns_overlap a b = Ok True"
  using assms matched_patterns_overlap match_segments_length
  unfolding match_pattern_def patterns_overlap_def Let_def by metis

lemma validate_route_conflicts_iff:
  "validate_route_conflicts rs = Ok () \<longleftrightarrow> sorted_wrt (\<lambda>a b. route_conflict a b = Ok ()) rs"
  by (induction rs) (auto simp: and_then_Ok_iff all_ok_iff)

lemma sorted_wrt_pair: "sorted_wrt P xs \<Longrightarrow> a \<in> set xs \<Longrightarrow> b \<in> set xs \<Longrightarrow> a = b \<or> P a b \<or> P b a"
  by (induction xs) auto

lemma conflict_free_unique:
  assumes "validate_route_conflicts rs = Ok ()" "a \<in> set rs" "b \<in> set rs"
    and "match_pattern (rr_pattern a) path = Some x" "match_pattern (rr_pattern b) path = Some y"
    and "rr_specificity a = rr_specificity b"
  shows "a = b"
proof -
  have "route_conflict a b \<noteq> Ok ()" "route_conflict b a \<noteq> Ok ()"
    using assms(6) patterns_overlap_matched [OF assms(4,5)] patterns_overlap_matched [OF assms(5,4)]
    by (simp_all add: route_conflict_def)
  then show ?thesis
    using sorted_wrt_pair [of "\<lambda>a b. route_conflict a b = Ok ()"] assms(1-3)
    unfolding validate_route_conflicts_iff by metis
qed

definition is_best ::
  "'a route_record_scheme set \<Rightarrow> string \<Rightarrow> 'a route_record_scheme matched \<Rightarrow> bool" where
  "is_best routes path m \<longleftrightarrow> fst m \<in> routes \<and> match_pattern (rr_pattern (fst m)) path = Some (snd m) \<and>
     (\<forall>r\<in>routes. match_pattern (rr_pattern r) path \<noteq> None \<longrightarrow> rr_specificity r \<le> rr_specificity (fst m))"

definition chosen ::
  "'a route_record_scheme set \<Rightarrow> string \<Rightarrow> 'a route_record_scheme matched option \<Rightarrow> bool" where
  "chosen routes path best =
     (case best of None \<Rightarrow> (\<forall>r\<in>routes. match_pattern (rr_pattern r) path = None)
      | Some m \<Rightarrow> is_best routes path m)"

lemma best_route_chosen:
  "chosen X path best \<Longrightarrow> chosen (X \<union> set rs) path (best_route path best rs)"
proof (induction rs arbitrary: best X)
  case (Cons r rs)
  show ?case
  proof (cases "match_pattern (rr_pattern r) path")
    case None
    have "chosen (insert r X) path best"
      using Cons.prems None by (auto simp: chosen_def is_best_def split: option.splits)
    from Cons.IH [OF this] None show ?thesis by simp
  next
    case (Some params)
    have "chosen (insert r X) path (if better (r, params) best then Some (r, params) else best)"
      using Cons.prems Some
      by (auto simp: chosen_def is_best_def better_def not_less split: option.splits
          intro: order.strict_implies_order order_trans)
    from Cons.IH [OF this] Some show ?thesis by simp
  qed
qed simp

lemma best_route_spec: "chosen (set rs) path (best_route path None rs)"
  using best_route_chosen [of "{}" path None rs] by (simp add: chosen_def)

lemma is_best_unique:
  assumes "validate_route_conflicts rs = Ok ()" "is_best (set rs) path m" "is_best (set rs) path n"
  shows "m = n"
proof -
  have "rr_specificity (fst m) = rr_specificity (fst n)"
    using assms(2,3) unfolding is_best_def by (metis antisym option.distinct(1))
  then have "fst m = fst n"
    using conflict_free_unique [OF assms(1)] assms(2,3) unfolding is_best_def by blast
  then show ?thesis using assms(2,3) unfolding is_best_def by (metis option.inject prod.expand)
qed

lemma chosen_unique:
  assumes "validate_route_conflicts rs = Ok ()" "chosen (set rs) path m" "chosen (set rs) path n"
  shows "m = n"
  using assms is_best_unique [OF assms(1)]
  by (cases m; cases n) (auto simp: chosen_def is_best_def)

section \<open>Captures\<close>

text \<open>
  The path a pattern stands for when its parameters have given values; matching is its inverse.
\<close>

fun expand_segments :: "string list \<Rightarrow> string list \<Rightarrow> string list option" where
  "expand_segments [] [] = Some []"
| "expand_segments [] (v # vs) = None"
| "expand_segments (p # ps) vs =
     (case dynamic_segment p of
        Inl _ \<Rightarrow> None
      | Inr None \<Rightarrow> map_option (\<lambda>rest. p # rest) (expand_segments ps vs)
      | Inr (Some (_, sfx)) \<Rightarrow>
          (case vs of [] \<Rightarrow> None | v # vs' \<Rightarrow> map_option (\<lambda>rest. (v @ sfx) # rest) (expand_segments ps vs')))"

definition expand_pattern :: "string \<Rightarrow> string list \<Rightarrow> string option" where
  "expand_pattern pattern vals = map_option (join ''/'') (expand_segments (split_on CHR ''/'' pattern) vals)"

lemma match_expand_segments:
  "match_segments ps vs = Some params \<Longrightarrow> expand_segments ps (map snd params) = Some vs"
proof (induction ps vs arbitrary: params rule: match_segments.induct)
  case (2 p ps v vs)
  then obtain here rest where h: "match_segment p v = Some here" "match_segments ps vs = Some rest"
    "params = here @ rest" by (auto split: option.splits)
  with 2 show ?case by (auto simp: match_segment_cases)
qed auto

lemma expand_match_segments:
  "expand_segments ps vals = Some vs \<Longrightarrow> [] \<notin> set vals \<Longrightarrow>
   \<exists>params. match_segments ps vs = Some params \<and> map snd params = vals"
proof (induction ps vals arbitrary: vs rule: expand_segments.induct)
  case (3 p ps vals)
  show ?case
  proof (cases "dynamic_segment p")
    case (Inr dyn)
    show ?thesis
    proof (cases dyn)
      case None
      then obtain rest where r: "expand_segments ps vals = Some rest" "vs = p # rest"
        using 3(3) Inr by auto
      have "match_segment p p = Some []" using None Inr by (simp add: match_segment_def)
      then show ?thesis using 3(1) [OF Inr None r(1) 3(4)] r(2) by auto
    next
      case (Some a)
      then obtain param sfx v vals' rest where r: "dyn = Some (param, sfx)" "vals = v # vals'"
        "expand_segments ps vals' = Some rest" "vs = (v @ sfx) # rest"
        using 3(3) Inr by (cases a; cases vals) auto
      have "match_segment p (v @ sfx) = Some [(param, v)]"
        using r Inr 3(4) by (auto simp: match_segment_def)
      then show ?thesis
        using 3(2) [OF Inr r(1) refl r(2,3)] r 3(4) by auto
    qed
  qed (use 3(3) in auto)
qed auto

lemma join_split [simp]: "join [d] (split_on d s) = s"
proof (induction s)
  case (Cons c s)
  obtain t ts where "split_on d s = t # ts" by (cases "split_on d s") auto
  with Cons show ?case by (cases ts) auto
qed simp

lemma split_join: "segs \<noteq> [] \<Longrightarrow> (\<And>s. s \<in> set segs \<Longrightarrow> d \<notin> set s) \<Longrightarrow> split_on d (join [d] segs) = segs"
proof (induction segs)
  case (Cons s segs)
  then show ?case by (cases segs) (auto simp: split_on_no_sep split_on_append)
qed simp

lemma expand_segments_slash:
  assumes "expand_segments ps vals = Some segs" "list_all (\<lambda>v. CHR ''/'' \<notin> set v) vals"
    and "\<And>p. p \<in> set ps \<Longrightarrow> CHR ''/'' \<notin> set p"
  shows "list_all (\<lambda>s. CHR ''/'' \<notin> set s) segs"
  using assms
proof (induction ps vals arbitrary: segs rule: expand_segments.induct)
  case (3 p ps vals)
  have sfx: "CHR ''/'' \<notin> set sfx" if "dynamic_segment p = Ok (Some (param, sfx))" for param sfx
  proof -
    have "split_once CHR '']'' (tl p) = Some (param, sfx)"
      using that by (auto simp: dynamic_segment_def split: if_splits option.splits)
    then have "set sfx \<subseteq> set p" using split_once_Some by (cases p) fastforce+
    then show ?thesis using 3(5) [of p] by auto
  qed
  show ?case
    using 3 sfx by (auto split: sum.splits option.splits list.splits)
qed auto

section \<open>Parameters and captures of a dispatch\<close>

lemma dynamic_segment_param:
  "dynamic_segment p = Ok (Some (param, sfx)) \<Longrightarrow>
   list_all (\<lambda>c. is_ascii_alphanumeric c \<or> c = CHR ''_'' \<or> c = CHR ''-'') param"
  by (auto simp: dynamic_segment_def split: if_splits option.splits)

lemma dynamic_segment_static: "dynamic_segment p = Ok None \<longleftrightarrow> \<not> starts_with p ''[''"
  by (auto simp: dynamic_segment_def split: if_splits option.splits)

lemma capture_not_reserved:
  assumes "list_all (\<lambda>c. is_ascii_alphanumeric c \<or> c = CHR ''_'' \<or> c = CHR ''-'') name"
  shows "\<not> starts_with name ''bloom.''"
proof
  assume "starts_with name ''bloom.''"
  then obtain r where "name = ''bloom.'' @ r" by (auto simp: starts_with_iff)
  then show False using assms by (simp add: ascii_class_defs byte_def)
qed

lemma match_segments_names:
  "match_segments ps vs = Some params \<Longrightarrow> (name, v) \<in> set params \<Longrightarrow> \<not> starts_with name ''bloom.''"
proof (induction ps vs arbitrary: params rule: match_segments.induct)
  case (2 p ps v vs)
  then obtain here rest where h: "match_segment p v = Some here" "match_segments ps vs = Some rest"
    "params = here @ rest" by (auto split: option.splits)
  then show ?case
    using 2 dynamic_segment_param capture_not_reserved by (fastforce simp: match_segment_cases)
qed auto

lemma index_match_Some:
  "index_match_route routes path = Some m \<Longrightarrow>
   fst m \<in> set routes \<and> match_pattern (rr_pattern (fst m)) path = Some (snd m)"
  using best_route_spec [of routes path]
  by (auto simp: index_match_route_def match_route_def chosen_def is_best_def normalize_request_path_def
      split: if_splits option.splits)

lemma petal_route_Ok:
  assumes "petal_route load mount op path = Ok m"
  shows "\<exists>routes p. load mount = Ok routes \<and> fst m \<in> set routes \<and> match_pattern (rr_pattern (fst m)) p = Some (snd m) \<and>
    route_op_of op \<in> set (ix_ops (fst m)) \<and> validate_runtime_route_path path = Ok () \<and>
    (p = path \<or> op = D_Lookup \<and> p = special_route_path path ''$lookup'')"
proof -
  obtain routes where r: "load mount = Ok routes" "match_index_for_op routes op path = Some m"
    "route_op_of op \<in> set (ix_ops (fst m))" "validate_runtime_route_path path = Ok ()"
  proof -
    obtain routes where l: "validate_runtime_route_path path = Ok ()" "load mount = Ok routes"
      using assms by (auto simp: petal_route_def and_then_Ok_iff)
    then show ?thesis
      using assms that [of routes]
      by (cases "match_index_for_op routes op path") (simp_all add: petal_route_def split: if_splits)
  qed
  have "\<exists>p. index_match_route routes p = Some m \<and> (p = path \<or> op = D_Lookup \<and> p = special_route_path path ''$lookup'')"
    using r(2) by (cases op)
      (auto simp: match_index_for_op_def match_special_route_def Let_def split: option.splits if_splits)
  then show ?thesis using r index_match_Some by blast
qed

lemma match_segments_static:
  "match_segments ps vs = Some params \<Longrightarrow> p \<in> set ps \<Longrightarrow> starts_with p ''['' \<or> p \<in> set vs"
proof (induction ps vs arbitrary: params rule: match_segments.induct)
  case (2 q ps v vs)
  then obtain here rest where h: "match_segment q v = Some here" "match_segments ps vs = Some rest"
    by (auto split: option.splits)
  show ?case
  proof (cases "p = q")
    case True
    then show ?thesis
      using h(1) dynamic_segment_static [of q] by (auto simp: match_segment_cases)
  next
    case False
    then show ?thesis using 2(1) [OF h] 2(3) by auto
  qed
qed auto

lemma special_segments:
  "set (split_on CHR ''/'' (special_route_path path ''$lookup'')) \<subseteq> set (split_on CHR ''/'' path) \<union> {''$lookup''}"
  by (auto simp: special_route_path_def split_on_no_sep split_on_snoc [of _ "''$lookup''", simplified])

lemma runtime_path_segments:
  "validate_runtime_route_path path = Ok () \<Longrightarrow> seg \<in> set (split_on CHR ''/'' path) \<Longrightarrow> \<not> starts_with seg ''$''"
  by (cases "path = []") (auto simp: validate_runtime_route_path_def list_ex_iff starts_with_def split: if_splits)

section \<open>Metadata only narrows\<close>

lemma validate_component_metadata_Ok:
  assumes "validate_component_metadata_policy rid kind metadata cap_ceiling allowed intents = Ok ()"
  shows "set (cm_required_caps metadata) \<subseteq> allowed \<and>
    (\<forall>intent. cm_sign_intent metadata = Some intent \<longrightarrow> intent \<in> intents \<and> ''bloom:sign'' \<in> set (cm_required_caps metadata))"
  using assms
  by (auto simp: validate_component_metadata_policy_def and_then_Ok_iff all_ok_iff split: if_splits option.splits)

lemma narrow_Ok:
  assumes "narrow_runtime_route_metadata route metadata intents = Ok md"
  shows "im_mode md AND NOT (im_mode (ix_install_metadata route)) = 0"
    "set (im_required_caps md) \<subseteq> set (im_required_caps (ix_install_metadata route))"
    "im_sign_intent (ix_install_metadata route) = None \<or> im_sign_intent md = im_sign_intent (ix_install_metadata route)"
    "pred_option (\<lambda>intent. intent \<in> intents) (im_sign_intent md)"
proof -
  have md: "md = \<lparr>im_mode = cm_mode metadata, im_cache_ttl_ms = cm_cache_ttl_ms metadata,
      im_side_effecting_read = cm_side_effecting_read metadata, im_write_async = cm_write_async metadata,
      im_executable = cm_executable metadata, im_required_caps = cm_required_caps metadata,
      im_sign_intent = cm_sign_intent metadata\<rparr>"
    "cm_mode metadata AND NOT (im_mode (ix_install_metadata route)) = 0"
    "im_sign_intent (ix_install_metadata route) = None \<or>
     cm_sign_intent metadata = im_sign_intent (ix_install_metadata route)"
    "validate_component_metadata_policy (rr_route_id route) (ix_kind route) metadata
       (Some (im_required_caps (ix_install_metadata route)))
       (set (im_required_caps (ix_install_metadata route))) intents = Ok ()"
    using assms by (auto simp: narrow_runtime_route_metadata_def and_then_Ok_iff Let_def split: if_splits)
  show "im_mode md AND NOT (im_mode (ix_install_metadata route)) = 0"
    "im_sign_intent (ix_install_metadata route) = None \<or> im_sign_intent md = im_sign_intent (ix_install_metadata route)"
    using md by simp_all
  show "set (im_required_caps md) \<subseteq> set (im_required_caps (ix_install_metadata route))"
    "pred_option (\<lambda>intent. intent \<in> intents) (im_sign_intent md)"
    using validate_component_metadata_Ok [OF md(4)] md(1) by (auto simp: option.pred_set)
qed

lemma subset_bits: "(a :: 32 word) AND NOT b = 0 \<Longrightarrow> a AND c \<noteq> 0 \<Longrightarrow> b AND c \<noteq> 0"
  by (auto simp: bit_eq_iff bit_simps)

lemma capabilities_Ok:
  "capabilities rid caps = Ok cs \<Longrightarrow> c \<in> cs \<Longrightarrow> \<exists>cap\<in>set caps. petal_capability cap = Some c"
  by (induction caps arbitrary: cs) (auto simp: and_then_Ok_iff split: option.splits)

lemma strip_suffix_nonempty:
  "(case strip_suffix s p of None \<Rightarrow> False | Some b \<Rightarrow> b \<noteq> []) \<longleftrightarrow> (\<exists>b. b \<noteq> [] \<and> s = b @ p)"
proof (cases "strip_suffix s p")
  case None
  then have "s \<noteq> b @ p" for b by auto
  then show ?thesis by (simp add: None)
next
  case (Some a)
  then have "s = a @ p" by (simp add: strip_suffix_Some)
  then show ?thesis by simp
qed

lemma matches_dynamic:
  "dynamic_segment p = Ok (Some (n, sfx)) \<Longrightarrow> match_segment p v \<noteq> None \<longleftrightarrow> (\<exists>b. b \<noteq> [] \<and> v = b @ sfx)"
  by (auto simp: match_segment_def strip_suffix_Some split: option.splits)

lemma matches_static: "dynamic_segment p = Ok None \<Longrightarrow> match_segment p v \<noteq> None \<longleftrightarrow> v = p"
  by (auto simp: match_segment_def)

lemma suffix_inclusion:
  "(\<forall>v. (\<exists>b. b \<noteq> [] \<and> v = b @ ds) \<longrightarrow> (\<exists>b. b \<noteq> [] \<and> v = b @ cs)) \<longleftrightarrow> ends_with ds (cs :: string)"
proof
  assume "\<forall>v. (\<exists>b. b \<noteq> [] \<and> v = b @ ds) \<longrightarrow> (\<exists>b. b \<noteq> [] \<and> v = b @ cs)"
  then have "\<exists>b. b \<noteq> [] \<and> ''x'' @ ds = b @ cs" by blast
  then obtain b where "b \<noteq> []" "''x'' @ ds = b @ cs" by blast
  then show "ends_with ds cs" by (cases b) (auto simp: ends_with_iff)
next
  assume "ends_with ds cs"
  then obtain r where "ds = r @ cs" by (auto simp: ends_with_iff)
  then have "b @ ds = (b @ r) @ cs \<and> (b \<noteq> [] \<longrightarrow> b @ r \<noteq> [])" for b by simp
  then show "\<forall>v. (\<exists>b. b \<noteq> [] \<and> v = b @ ds) \<longrightarrow> (\<exists>b. b \<noteq> [] \<and> v = b @ cs)" by blast
qed

lemma find_None_all: "find P xs = None \<Longrightarrow> x \<in> set xs \<Longrightarrow> \<not> P x"
  by (induction xs) (auto split: if_splits)

lemma dispatch_context_parts:
  assumes "dispatch_context load mount op path ctx trusted account = Ok (m, full_ctx)"
  shows "petal_route load mount op path = Ok m"
    "full_ctx = ctx @ snd m @ [(''bloom.route_id'', rr_route_id (fst m))] @ owner_params account (fst m) @ trusted"
    "\<forall>e\<in>set ctx. \<not> starts_with (fst e) ''bloom.''" "\<forall>e\<in>set trusted. fst e \<noteq> ''bloom.route_id''"
proof -
  have f: "find (\<lambda>(name, _). starts_with name ''bloom.'') ctx = None"
    "find (\<lambda>(name, _). \<not> starts_with name ''bloom.'' \<or> name = ''bloom.route_id'') trusted = None"
    using assms by (auto simp: dispatch_context_def split: option.splits)
  then show "\<forall>e\<in>set ctx. \<not> starts_with (fst e) ''bloom.''" "\<forall>e\<in>set trusted. fst e \<noteq> ''bloom.route_id''"
    using find_None_all by fastforce+
  show "petal_route load mount op path = Ok m"
    "full_ctx = ctx @ snd m @ [(''bloom.route_id'', rr_route_id (fst m))] @ owner_params account (fst m) @ trusted"
    using assms f by (auto simp: dispatch_context_def and_then_Ok_iff Let_def)
qed

lemma owner_params_in:
  "e \<in> set (owner_params account route) \<Longrightarrow>
   fst e = ''bloom.owner_key_fingerprint'' \<and> (\<exists>a. account = Some a \<and> route_owner_fingerprint route a = Some (snd e))"
  by (auto simp: owner_params_def split: option.splits)

lemma dispatch_context_caller:
  assumes "dispatch_context load mount op path ctx trusted account = Ok (m, full_ctx)" "e \<in> set (ctx @ snd m)"
  shows "\<not> starts_with (fst e) ''bloom.''"
proof -
  obtain p where p: "match_segments (split_on CHR ''/'' (rr_pattern (fst m))) (split_on CHR ''/'' p) = Some (snd m)"
    using petal_route_Ok [OF dispatch_context_parts(1) [OF assms(1)]] unfolding match_pattern_def by blast
  show ?thesis
    using assms(2) dispatch_context_parts(3) [OF assms(1)] match_segments_names [OF p, of "fst e" "snd e"] by auto
qed

lemma dispatch_context_route_id:
  assumes "dispatch_context load mount op path ctx trusted account = Ok (m, full_ctx)"
  shows "filter (\<lambda>e. fst e = ''bloom.route_id'') full_ctx = [(''bloom.route_id'', rr_route_id (fst m))]"
proof -
  have "starts_with ''bloom.route_id'' ''bloom.''" by code_simp
  then have "filter (\<lambda>e. fst e = ''bloom.route_id'') (ctx @ snd m) = []"
    using dispatch_context_caller [OF assms] unfolding filter_empty_conv by metis
  moreover have "filter (\<lambda>e. fst e = ''bloom.route_id'') (owner_params account (fst m)) = []"
    using owner_params_in unfolding filter_empty_conv by fastforce
  moreover have "filter (\<lambda>e. fst e = ''bloom.route_id'') trusted = []"
    using dispatch_context_parts(4) [OF assms] by (simp add: filter_empty_conv)
  ultimately show ?thesis unfolding dispatch_context_parts(2) [OF assms] by simp
qed

lemma dispatch_context_reserved:
  assumes "dispatch_context load mount op path ctx trusted account = Ok (m, full_ctx)"
    "e \<in> set full_ctx" "starts_with (fst e) ''bloom.''"
  shows "fst e = ''bloom.route_id'' \<or> e \<in> set trusted \<or>
    fst e = ''bloom.owner_key_fingerprint'' \<and> (\<exists>a. account = Some a \<and> route_owner_fingerprint (fst m) a = Some (snd e))"
proof -
  have "e \<notin> set (ctx @ snd m)" using dispatch_context_caller [OF assms(1)] assms(3) by blast
  then have "e = (''bloom.route_id'', rr_route_id (fst m)) \<or> e \<in> set (owner_params account (fst m)) \<or> e \<in> set trusted"
    using assms(2) unfolding dispatch_context_parts(2) [OF assms(1)] by auto
  then show ?thesis using owner_params_in [of e account "fst m"] by auto
qed

lemma runtime_metadata_narrow:
  assumes "runtime_metadata m report declared = Ok md"
  shows "im_mode md AND NOT (im_mode (ix_install_metadata (fst m))) = 0"
    "set (im_required_caps md) \<subseteq> set (im_required_caps (ix_install_metadata (fst m)))"
proof -
  have "md = ix_install_metadata (fst m) \<or> (\<exists>metadata. narrow_runtime_route_metadata (fst m) metadata declared = Ok md)"
    using assms by (auto simp: runtime_metadata_def and_then_Ok_iff split: if_splits)
  then show "im_mode md AND NOT (im_mode (ix_install_metadata (fst m))) = 0"
    "set (im_required_caps md) \<subseteq> set (im_required_caps (ix_install_metadata (fst m)))"
    using narrow_Ok(1,2) by (auto simp: bit_eq_iff bit_simps) fastforce
qed

lemma dispatch_caps_Ok:
  assumes "dispatch_caps rid md cap_mask = Ok caps" "c \<in> caps"
  shows "(\<exists>cap\<in>set (im_required_caps md). petal_capability cap = Some c) \<and> pred_option (\<lambda>m. c \<in> m) cap_mask"
proof -
  obtain cs where "capabilities rid (im_required_caps md) = Ok cs"
    "caps = (case cap_mask of Some m \<Rightarrow> cs \<inter> m | None \<Rightarrow> cs)"
    using assms(1) by (auto simp: dispatch_caps_def and_then_Ok_iff)
  then show ?thesis using capabilities_Ok [of rid "im_required_caps md" cs c] assms(2) by (cases cap_mask) auto
qed

lemma route_sign_intents_bounds:
  "route_sign_intents declared intent intent_mask \<subseteq> declared \<and>
   pred_option (\<lambda>m. route_sign_intents declared intent intent_mask \<subseteq> m) intent_mask"
  by (auto simp: route_sign_intents_def Let_def split: option.splits if_splits)

section \<open>Properties\<close>

text \<open>
  C17: the order in which a package's routes are found or stored does not decide which route
  answers a request. When the conflict check of the package passed, any arrangement of the same
  routes chooses the same route with the same captures, the unique most specific match.
\<close>

theorem match_route_order_irrelevant:
  fixes routes :: "'a route_record_scheme list"
  assumes "validate_route_conflicts routes = Ok ()" "set routes' = set routes"
  shows "match_route routes' path = match_route routes path \<and>
    (\<forall>m. match_route routes path = Some m \<longrightarrow> is_best (set routes) path m)"
proof (cases "normalize_request_path path")
  case None
  then show ?thesis by (simp add: match_route_def)
next
  case (Some p)
  then have p: "p = path" by (auto simp: normalize_request_path_def split: if_splits)
  have "best_route path None routes' = best_route path None routes"
    using chosen_unique [OF assms(1)] best_route_spec [of routes path] best_route_spec [of routes' path]
    by (simp add: assms(2))
  then show ?thesis
    using Some p best_route_spec [of routes path] by (auto simp: match_route_def chosen_def)
qed

definition sample_routes :: "route_record list" where
  "sample_routes =
     [\<lparr>rr_route_id = ''r000001'', rr_pattern = ''a/[id].json'', rr_source = [''a'', ''[id].json.wasm''],
       rr_params = [''id''], rr_specificity = (2, 1, 1)\<rparr>,
      \<lparr>rr_route_id = ''r000002'', rr_pattern = ''a/new.json'', rr_source = [''a'', ''new.json.wasm''],
       rr_params = [], rr_specificity = (2, 2, 1)\<rparr>]"

lemma sample_routes_scan:
  "scan_dir [[''a'', ''new.json.wasm''], [''a'', ''[id].json.wasm'']] = Ok sample_routes"
  by code_simp

theorem match_route_order_irrelevant_witness:
  "validate_route_conflicts sample_routes = Ok () \<and>
   match_route (rev sample_routes) ''a/new.json'' = Some (sample_routes ! 1, [])"
proof -
  have ok: "validate_route_conflicts sample_routes = Ok ()" by code_simp
  have "match_route sample_routes ''a/new.json'' = Some (sample_routes ! 1, [])" by code_simp
  then show ?thesis using ok match_route_order_irrelevant [OF ok, of "rev sample_routes" "''a/new.json''"] by simp
qed

text \<open>
  captures are faithful. A matched path is the pattern with its parameters replaced by the
  captured values, and a path built from a pattern and non-empty values without slashes matches
  with exactly these captures.
\<close>

theorem captures_roundtrip:
  "(\<forall>params. match_pattern pattern path = Some params \<longrightarrow> expand_pattern pattern (map snd params) = Some path) \<and>
   (\<forall>vals segs. expand_segments (split_on CHR ''/'' pattern) vals = Some segs \<and> [] \<notin> set vals \<and>
      list_all (\<lambda>v. CHR ''/'' \<notin> set v) vals \<longrightarrow>
      (\<exists>params. match_pattern pattern (join ''/'' segs) = Some params \<and> map snd params = vals))"
proof (intro conjI allI impI)
  fix params
  assume "match_pattern pattern path = Some params"
  then show "expand_pattern pattern (map snd params) = Some path"
    using match_expand_segments join_split [of "CHR ''/''" path] by (simp add: match_pattern_def expand_pattern_def)
next
  fix vals segs
  assume "expand_segments (split_on CHR ''/'' pattern) vals = Some segs \<and> [] \<notin> set vals \<and>
    list_all (\<lambda>v. CHR ''/'' \<notin> set v) vals"
  then have e: "expand_segments (split_on CHR ''/'' pattern) vals = Some segs" "[] \<notin> set vals"
    "list_all (\<lambda>v. CHR ''/'' \<notin> set v) vals" by simp_all
  have "list_all (\<lambda>s. CHR ''/'' \<notin> set s) segs"
    using e(1,3) split_on_no_sep_in [of _ "CHR ''/''" pattern]
    by (rule expand_segments_slash) auto
  moreover have "segs \<noteq> []" using e(1) by (cases "split_on CHR ''/'' pattern") (auto split: sum.splits option.splits list.splits)
  ultimately have "split_on CHR ''/'' (join ''/'' segs) = segs"
    by (intro split_join) (auto simp: list_all_iff)
  then show "\<exists>params. match_pattern pattern (join ''/'' segs) = Some params \<and> map snd params = vals"
    using expand_match_segments [OF e(1,2)] by (simp add: match_pattern_def)
qed

theorem captures_roundtrip_witness:
  "match_pattern ''a/[id].json'' ''a/7.json'' = Some [(''id'', ''7'')] \<and>
   expand_pattern ''a/[id].json'' [''7''] = Some ''a/7.json''"
proof -
  have "match_pattern ''a/[id].json'' ''a/7.json'' = Some [(''id'', ''7'')]" by code_simp
  then show ?thesis using captures_roundtrip [of "''a/[id].json''" "''a/7.json''"] by auto
qed

text \<open>
  the containment test of the shadowing check is exact. When both segments are well formed it
  answers true exactly when every path segment the descendant matches is also matched by the
  candidate.
\<close>

theorem segment_covers_exact:
  assumes "segment_covers candidate descendant = Ok covered"
  shows "covered \<longleftrightarrow>
    (\<forall>v. match_segment descendant v \<noteq> None \<longrightarrow> match_segment candidate v \<noteq> None)"
proof -
  obtain dc dd where d: "dynamic_segment candidate = Ok dc" "dynamic_segment descendant = Ok dd"
    using assms by (auto simp: segment_covers_def and_then_Ok_iff)
  then have c: "segment_covers candidate descendant = Ok covered" using assms by simp
  show ?thesis
  proof (cases dd)
    case None
    have "covered \<longleftrightarrow> match_segment candidate descendant \<noteq> None"
    proof (cases dc)
      case n: None
      show ?thesis unfolding matches_static [OF d(1) [unfolded n]] using c d None n by (auto simp: segment_covers_def)
    next
      case (Some a)
      obtain k cs where a: "a = (k, cs)" by (cases a)
      show ?thesis
        unfolding matches_dynamic [OF d(1) [unfolded Some a]] strip_suffix_nonempty [symmetric]
        using c d None Some a by (simp add: segment_covers_def)
    qed
    then show ?thesis unfolding matches_static [OF d(2) [unfolded None]] by blast
  next
    case dd: (Some b)
    obtain n ds where b: "b = (n, ds)" by (cases b)
    note desc = matches_dynamic [OF d(2) [unfolded dd b]]
    show ?thesis
    proof (cases dc)
      case None
      have "\<not> (\<forall>v. match_segment descendant v \<noteq> None \<longrightarrow> match_segment candidate v \<noteq> None)"
      proof
        assume "\<forall>v. match_segment descendant v \<noteq> None \<longrightarrow> match_segment candidate v \<noteq> None"
        then have "''a'' @ ds = candidate" "''b'' @ ds = candidate"
          unfolding desc matches_static [OF d(1) [unfolded None]] by blast+
        then show False by auto
      qed
      then show ?thesis using c d None dd b by (simp add: segment_covers_def)
    next
      case (Some a)
      obtain k cs where a: "a = (k, cs)" by (cases a)
      show ?thesis
        unfolding desc matches_dynamic [OF d(1) [unfolded Some a]] suffix_inclusion
        using c d Some a dd b by (simp add: segment_covers_def)
    qed
  qed
qed

theorem segment_covers_exact_witness:
  "segment_covers ''[id].json'' ''[name].v2.json'' = Ok True \<and>
   match_segment ''[name].v2.json'' ''x.v2.json'' \<noteq> None \<and> match_segment ''[id].json'' ''x.v2.json'' \<noteq> None"
proof -
  have ok: "segment_covers ''[id].json'' ''[name].v2.json'' = Ok True" by code_simp
  have "match_segment ''[name].v2.json'' ''x.v2.json'' \<noteq> None" by code_simp
  then show ?thesis using ok segment_covers_exact [OF ok] by simp
qed

text \<open>
  C6: a dispatch never exceeds what was installed. The route belongs to the mounted index and
  supports the operation; its capabilities come from the caps recorded for it at installation,
  cut by the mask; its signing intents are declared in the manifest and in the mask; a write needs
  a write bit in the installed mode. The component's context names its route once, and no
  entry in the reserved namespace comes from the caller or from a capture.
\<close>

theorem dispatch_within_install:
  assumes "prepare_dispatch load mount op path ctx trusted account report declared_intents cap_mask intent_mask =
      Ok (route, caps, intents, full_ctx)"
  shows "(\<exists>routes. load mount = Ok routes \<and> route \<in> set routes) \<and> route_op_of op \<in> set (ix_ops route) \<and>
    (\<forall>c\<in>caps. (\<exists>cap\<in>set (im_required_caps (ix_install_metadata route)). petal_capability cap = Some c) \<and>
       pred_option (\<lambda>m. c \<in> m) cap_mask) \<and>
    intents \<subseteq> declared_intents \<and> pred_option (\<lambda>m. intents \<subseteq> m) intent_mask \<and>
    (op = D_Write \<longrightarrow> im_mode (ix_install_metadata route) AND 146 \<noteq> 0) \<and>
    filter (\<lambda>e. fst e = ''bloom.route_id'') full_ctx = [(''bloom.route_id'', rr_route_id route)] \<and>
    (\<forall>e\<in>set full_ctx. starts_with (fst e) ''bloom.'' \<longrightarrow>
       fst e = ''bloom.route_id'' \<or> e \<in> set trusted \<or>
       fst e = ''bloom.owner_key_fingerprint'' \<and> (\<exists>a. account = Some a \<and> route_owner_fingerprint route a = Some (snd e)))"
proof -
  obtain m md where p: "dispatch_context load mount op path ctx trusted account = Ok (m, full_ctx)"
    "runtime_metadata m report declared_intents = Ok md" "enforce_runtime_route_op op (fst m) md = Ok ()"
    "dispatch_caps (rr_route_id (fst m)) md cap_mask = Ok caps" "route = fst m"
    "intents = route_sign_intents declared_intents (im_sign_intent md) intent_mask"
    using assms by (auto simp: prepare_dispatch_def and_then_Ok_iff)
  note md = runtime_metadata_narrow [OF p(2), folded p(5)]
  have r: "(\<exists>routes. load mount = Ok routes \<and> route \<in> set routes) \<and> route_op_of op \<in> set (ix_ops route)"
    using petal_route_Ok [OF dispatch_context_parts(1) [OF p(1)]] unfolding p(5) by blast
  have w: "im_mode (ix_install_metadata route) AND 146 \<noteq> 0" if "op = D_Write"
    using p(3) that by (intro subset_bits [OF md(1)]) (simp add: enforce_runtime_route_op_def split: if_splits)
  have c: "(\<exists>cap\<in>set (im_required_caps (ix_install_metadata route)). petal_capability cap = Some x) \<and>
      pred_option (\<lambda>m. x \<in> m) cap_mask" if "x \<in> caps" for x
    using dispatch_caps_Ok [OF p(4) that] md(2) by (meson subsetD)
  show ?thesis
    using r w c route_sign_intents_bounds [of declared_intents "im_sign_intent md" intent_mask, folded p(6)]
      dispatch_context_route_id [OF p(1), folded p(5)] dispatch_context_reserved [OF p(1), folded p(5)]
    by (intro conjI ballI impI) blast+
qed

definition sample_index :: "index_record list" where
  "sample_index =
     [\<lparr>rr_route_id = ''r000001'', rr_pattern = ''a/[id].json'', rr_source = [''a'', ''[id].json.wasm''],
       rr_params = [''id''], rr_specificity = (2, 1, 1), ix_artifact_path = ''artifacts/routes/r000001.wasm'',
       ix_artifact_hash = replicate 64 CHR ''a'', ix_abi = ComponentBloomRoute010, ix_kind = K_File, ix_ops = [R_Read, R_Write],
       ix_install_metadata = \<lparr>im_mode = 420, im_cache_ttl_ms = None, im_side_effecting_read = False,
         im_write_async = False, im_executable = False, im_required_caps = [''bloom:store''], im_sign_intent = None\<rparr>,
       ix_operation_classes = [], ix_allowed_routes = [], ix_scope_declared = False, ix_crypto_suites = [''ed25519''],
       ix_maximum_lifetime_ms = None\<rparr>]"

definition sample_report :: component_metadata where
  "sample_report = \<lparr>cm_kind = K_File, cm_mode = 384, cm_cache_ttl_ms = None, cm_side_effecting_read = False,
     cm_write_async = False, cm_required_caps = [''bloom:store''], cm_sign_intent = None, cm_executable = False\<rparr>"

definition sample_dispatch ::
  "(petal_error, index_record \<times> capability set \<times> string set \<times> (string \<times> string) list) result" where
  "sample_dispatch =
     prepare_dispatch (\<lambda>_. Ok sample_index) ''app'' D_Write ''a/7.json'' [(''lang'', ''en'')]
       [(''bloom.now'', ''0'')] (Some \<lparr>ac_evm_fingerprint = None, ac_solana_fingerprint = Some ''f0''\<rparr>)
       (Ok sample_report) {''pay''} None None"

theorem dispatch_within_install_witness:
  "sample_dispatch =
     Ok (hd sample_index, {Store}, {''pay''},
         [(''lang'', ''en''), (''id'', ''7''), (''bloom.route_id'', ''r000001''),
          (''bloom.owner_key_fingerprint'', ''f0''), (''bloom.now'', ''0'')]) \<and>
   im_mode (ix_install_metadata (hd sample_index)) AND 146 \<noteq> 0"
proof -
  have d: "sample_dispatch =
     Ok (hd sample_index, {Store}, {''pay''},
         [(''lang'', ''en''), (''id'', ''7''), (''bloom.route_id'', ''r000001''),
          (''bloom.owner_key_fingerprint'', ''f0''), (''bloom.now'', ''0'')])"
    by code_simp
  show ?thesis using d dispatch_within_install [OF d [unfolded sample_dispatch_def]] by blast
qed

text \<open>
  the special route files of a package (\<open>$lookup\<close>, \<open>$list\<close>, ...) cannot be addressed by a
  request: only a lookup reaches a pattern with a segment that starts with a dollar sign, and then
  the segment is \<open>$lookup\<close>.
\<close>

theorem special_routes_private:
  assumes "petal_route load mount op path = Ok m"
    "seg \<in> set (split_on CHR ''/'' (rr_pattern (fst m)))" "starts_with seg ''$''"
  shows "op = D_Lookup \<and> seg = ''$lookup''"
proof -
  obtain p where p: "match_pattern (rr_pattern (fst m)) p = Some (snd m)" "validate_runtime_route_path path = Ok ()"
    "p = path \<or> op = D_Lookup \<and> p = special_route_path path ''$lookup''"
    using petal_route_Ok [OF assms(1)] by blast
  have "\<not> starts_with seg ''[''" using assms(3) by (cases seg) (auto simp: starts_with_def)
  then have "seg \<in> set (split_on CHR ''/'' p)"
    using match_segments_static [OF p(1) [unfolded match_pattern_def] assms(2)] by simp
  then show ?thesis
    using p(3) runtime_path_segments [OF p(2), of seg] assms(3) special_segments [of path] by blast
qed

definition lookup_index :: "index_record list" where
  "lookup_index = [(hd sample_index)\<lparr>rr_pattern := ''a/$lookup'', rr_params := [], ix_ops := [R_Lookup]\<rparr>]"

theorem special_routes_private_witness:
  "petal_route (\<lambda>_. Ok lookup_index) ''app'' D_Lookup ''a'' = Ok (hd lookup_index, []) \<and>
   (D_Lookup = D_Lookup \<and> ''$lookup'' = ''$lookup'')"
proof -
  have r: "petal_route (\<lambda>_. Ok lookup_index) ''app'' D_Lookup ''a'' = Ok (hd lookup_index, [])" by code_simp
  have s: "''$lookup'' \<in> set (split_on CHR ''/'' (rr_pattern (fst (hd lookup_index, [] :: (string \<times> string) list))))" by code_simp
  have d: "starts_with ''$lookup'' ''$''" by code_simp
  show ?thesis by (rule conjI [OF r special_routes_private [OF r s d]])
qed

end
