(* ===== verification/Petal_Packages.thy ===== *)
theory Petal_Packages
  imports Petal_Routes "HOL-Library.Product_Lexorder"
begin

text \<open>
  The package store of petals, \<open>crates/bloom-petals/src/store.rs\<close>, with the package checks of
  \<open>package.rs\<close> it rests on: staging, installation with its commit point, the owner records,
  recovery when the store is opened, and removal.

  The store lives in the file system of theory \<open>Petal_Store\<close>, below the path \<open>base\<close>. An operation
  is an action on a \<open>world\<close>, the file system and a plan of failures: every call that changes the
  file system takes the next entry of the plan, and a failing call can leave a truncated file, some
  of the directories or a part of a tree. A plan that lets every call fail from some point on is a
  process killed at that point. Reads fail only for the shape of the tree; a directory is read in
  the order of the association list; every name is UTF-8; directory entries are files or directories.

  JSON (\<open>serde_json\<close>), blake3, the hexadecimal codec and the digest prefix of the contract crate are
  fields of \<open>package_lib\<close>. So are the two operations of \<open>package.rs\<close> that compile and inspect
  WebAssembly: \<open>pl_rebuild\<close> (\<open>PreparedPetalPackage::from_files\<close>) and \<open>pl_artifact\<close>
  (\<open>route_artifact_bytes\<close>).
\<close>

section \<open>Actions\<close>

text \<open>
  A failing call: its error, how many bytes (of a write) or directories (of a creation) it got
  through, and the paths it kept (of a removal).
\<close>

datatype call_fault = Call_Fails io_err "nat option" "path list"

record world =
  w_fs :: file_system
  w_plan :: "nat \<Rightarrow> call_fault option"

type_synonym ('e, 'a) act = "world \<Rightarrow> world \<times> ('e, 'a) result"

definition give :: "('e, 'a) result \<Rightarrow> ('e, 'a) act" where
  "give r w = (w, r)"

definition reading :: "(file_system \<Rightarrow> ('e, 'a) result) \<Rightarrow> ('e, 'a) act" where
  "reading f w = (w, f (w_fs w))"

definition seq :: "('e, 'a) act \<Rightarrow> ('a \<Rightarrow> ('e, 'b) act) \<Rightarrow> ('e, 'b) act" where
  "seq a k w = (case a w of (w', Inl e) \<Rightarrow> (w', Err e) | (w', Inr x) \<Rightarrow> k x w')"

definition failing_as :: "('e \<Rightarrow> 'f) \<Rightarrow> ('e, 'a) act \<Rightarrow> ('f, 'a) act" where
  "failing_as f a w = (case a w of (w', r) \<Rightarrow> (w', map_err f r))"

definition ignoring :: "('e, 'a) act \<Rightarrow> ('f, unit) act" where
  "ignoring a w = (fst (a w), Ok ())"

fun for_each :: "('a \<Rightarrow> ('e, unit) act) \<Rightarrow> 'a list \<Rightarrow> ('e, unit) act" where
  "for_each f [] = give (Ok ())"
| "for_each f (x # xs) = seq (f x) (\<lambda>_. for_each f xs)"

definition changing ::
  "(file_system \<Rightarrow> call_fault option \<Rightarrow> file_system \<times> ('e, 'a) result) \<Rightarrow> ('e, 'a) act" where
  "changing f w =
     (case f (w_fs w) (w_plan w 0) of
        (fs, r) \<Rightarrow> (w\<lparr>w_fs := fs, w_plan := (\<lambda>i. w_plan w (Suc i))\<rparr>, r))"

fun fault_err :: "call_fault \<Rightarrow> io_err" where
  "fault_err (Call_Fails e _ _) = e"

section \<open>System calls\<close>

definition exists_at :: "file_system \<Rightarrow> path \<Rightarrow> bool" where
  "exists_at fs p \<longleftrightarrow> map_of fs p \<noteq> None"

definition is_dir :: "file_system \<Rightarrow> path \<Rightarrow> bool" where
  "is_dir fs p \<longleftrightarrow> map_of fs p = Some Dir"

definition dir_names :: "file_system \<Rightarrow> path \<Rightarrow> string list" where
  "dir_names fs dir = map (\<lambda>(p, _). last p) (filter (\<lambda>(p, _). p \<noteq> [] \<and> butlast p = dir) fs)"

definition read_dir :: "file_system \<Rightarrow> path \<Rightarrow> (io_err, string list) result" where
  "read_dir fs dir =
     (case map_of fs dir of
        Some Dir \<Rightarrow> Ok (dir_names fs dir)
      | Some (Reg _ _) \<Rightarrow> Err Io_NotADirectory
      | None \<Rightarrow> Err (missing_err fs dir))"

definition sys_mkdir_all :: "path \<Rightarrow> (io_err, unit) act" where
  "sys_mkdir_all p = changing (\<lambda>fs fault.
     create_dir_all fs (case fault of Some (Call_Fails e n _) \<Rightarrow> Some (case n of Some k \<Rightarrow> k | None \<Rightarrow> 0, e)
       | None \<Rightarrow> None) p)"

definition sys_mkdir :: "path \<Rightarrow> (io_err, unit) act" where
  "sys_mkdir p = changing (\<lambda>fs fault.
     if exists_at fs p then (fs, Err Io_AlreadyExists)
     else if \<not> is_dir fs (butlast p) then (fs, Err (missing_err fs p))
     else case fault of
       Some f \<Rightarrow> (fs, Err (fault_err f))
     | None \<Rightarrow> (AList.update p Dir fs, Ok ()))"

definition old_mode :: "file_system \<Rightarrow> path \<Rightarrow> nat" where
  "old_mode fs p = (case map_of fs p of Some (Reg _ m) \<Rightarrow> m | _ \<Rightarrow> 420)"

definition sys_write :: "path \<Rightarrow> string \<Rightarrow> (io_err, unit) act" where
  "sys_write p data = changing (\<lambda>fs fault.
     case open_for_write fs p False of
       Inl e \<Rightarrow> (fs, Err e)
     | Inr _ \<Rightarrow>
         (case fault of
            Some (Call_Fails e None _) \<Rightarrow> (fs, Err e)
          | Some (Call_Fails e (Some n) _) \<Rightarrow> (AList.update p (Reg (take n data) (old_mode fs p)) fs, Err e)
          | None \<Rightarrow> (AList.update p (Reg data (old_mode fs p)) fs, Ok ())))"

definition sys_rename :: "path \<Rightarrow> path \<Rightarrow> (io_err, unit) act" where
  "sys_rename p q = changing (\<lambda>fs fault. fs_rename fs p q (map_option fault_err fault))"

definition sys_rename_dir :: "path \<Rightarrow> path \<Rightarrow> (io_err, unit) act" where
  "sys_rename_dir p q = changing (\<lambda>fs fault.
     if \<not> exists_at fs p then (fs, Err (missing_err fs p)) else rename_tree fs p q (map_option fault_err fault))"

definition sys_remove :: "path \<Rightarrow> (io_err, unit) act" where
  "sys_remove p = changing (\<lambda>fs fault. fs_remove fs p (map_option fault_err fault))"

text \<open>A removal that fails midway keeps the listed paths and the directories above them.\<close>

definition keep_of :: "file_system \<Rightarrow> path \<Rightarrow> path list \<Rightarrow> file_system" where
  "keep_of fs p kept = filter (\<lambda>(q, _). \<not> under p q \<or> list_ex (\<lambda>k. under q k) kept) fs"

definition sys_remove_dir_all :: "path \<Rightarrow> (io_err, unit) act" where
  "sys_remove_dir_all p = changing (\<lambda>fs fault.
     case map_of fs p of
       None \<Rightarrow> (fs, Err (missing_err fs p))
     | Some (Reg _ _) \<Rightarrow> (fs, Err Io_NotADirectory)
     | Some Dir \<Rightarrow>
         (case fault of
            Some (Call_Fails e _ kept) \<Rightarrow> (keep_of fs p kept, Err e)
          | None \<Rightarrow> (remove_tree fs p, Ok ())))"

definition io_error :: "io_err \<Rightarrow> petal_error" where
  "io_error e = P_Io [S (io_text e)]"

definition io :: "(io_err, 'a) act \<Rightarrow> (petal_error, 'a) act" where
  "io a = failing_as io_error a"

text \<open>A removal whose target may be gone already.\<close>

definition removing :: "(io_err, unit) act \<Rightarrow> (petal_error, unit) act" where
  "removing a w =
     (case a w of
        (w', Inl e) \<Rightarrow> (w', if e = Io_NotFound then Ok () else Err (io_error e))
      | (w', Inr _) \<Rightarrow> (w', Ok ()))"

definition write_atomic :: "path \<Rightarrow> string \<Rightarrow> (io_err, unit) act" where
  "write_atomic p data = seq (sys_write (temporary p) data) (\<lambda>_. sys_rename (temporary p) p)"

section \<open>Records\<close>

record app_owner =
  ao_name :: string
  ao_hash :: string

datatype petal_mode = Local

record package_meta =
  gm_name :: string
  gm_petal_root :: string
  gm_route_index_schema :: string

record source_provenance =
  sp_source_kind :: string
  sp_url :: string
  sp_owner :: string
  sp_repo :: string
  sp_requested_ref :: string
  sp_resolved_commit :: string
  sp_selected_tag :: "string option"
  sp_package_hash :: string

record petal_meta =
  pm_hash :: string
  pm_size :: nat
  pm_installed_at_ms :: nat
  pm_name :: "string option"
  pm_caps :: "capability set"
  pm_mode :: petal_mode
  pm_petal :: "package_meta option"
  pm_source :: "source_provenance option"
  pm_replaced :: "string option"

record route_index =
  ri_schema :: string
  ri_package_hash :: string
  ri_name :: string
  ri_petal_root :: string
  ri_policy_hash :: string
  ri_routes :: "index_record list"

record package_file =
  nf_path :: string
  nf_bytes :: string

record prepared_package =
  pp_hash :: string
  pp_name :: string
  pp_files :: "package_file list"
  pp_index :: route_index

record package_lib =
  pl_enc_owner :: "app_owner \<Rightarrow> string"
  pl_dec_owner :: "string \<Rightarrow> (string, app_owner) result"
  pl_enc_meta :: "petal_meta \<Rightarrow> string"
  pl_dec_meta :: "string \<Rightarrow> (string, petal_meta) result"
  pl_enc_index :: "route_index \<Rightarrow> string"
  pl_dec_index :: "string \<Rightarrow> (string, route_index) result"
  pl_blake3 :: "string \<Rightarrow> string"
  pl_hex :: "string \<Rightarrow> string"
  pl_digest_prefix :: string
  pl_index_schema :: string
  pl_rebuild :: "package_file list \<Rightarrow> (petal_error, prepared_package) result"
  pl_artifact :: "prepared_package \<Rightarrow> index_record \<Rightarrow> (petal_error, string) result"

definition serde :: "(string, 'a) result \<Rightarrow> (petal_error, 'a) result" where
  "serde r = map_err (\<lambda>e. P_Serde [S e]) r"

section \<open>Package files and digests\<close>

definition slash_positions :: "string \<Rightarrow> nat list" where
  "slash_positions s = filter (\<lambda>i. s ! i = CHR ''/'') [0..<length s]"

definition path_fits_ustar :: "string \<Rightarrow> bool" where
  "path_fits_ustar p \<longleftrightarrow> length p \<le> 100 \<or>
     list_ex (\<lambda>i. i \<le> 155 \<and> length p - (i + 1) \<le> 100) (rev (slash_positions p))"

definition validate_package_path :: "string \<Rightarrow> (petal_error, unit) result" where
  "validate_package_path p =
     (if p = [] \<or> starts_with p ''/'' \<or> CHR 0x5C \<in> set p \<or> CHR 0x00 \<in> set p \<or>
        list_ex (\<lambda>seg. seg = [] \<or> seg = ''.'' \<or> seg = ''..'') (split_on CHR ''/'' p)
      then bad_wasm [S ''invalid Petal package path '', V2 p]
      else if \<not> path_fits_ustar p
      then bad_wasm [S ''Petal package path '', V2 p, S '' is too long for strict .petal.tar archives'']
      else Ok ())"

fun duplicate_path :: "package_file list \<Rightarrow> string option" where
  "duplicate_path (a # b # rest) =
     (if nf_path a = nf_path b then Some (nf_path a) else duplicate_path (b # rest))"
| "duplicate_path _ = None"

definition normalize_files :: "package_file list \<Rightarrow> (petal_error, package_file list) result" where
  "normalize_files files =
     and_then (all_ok (\<lambda>f. validate_package_path (nf_path f)) files) (\<lambda>_.
       let sorted = sort_key nf_path files in
       case duplicate_path sorted of
         Some p \<Rightarrow> bad_wasm [S ''duplicate Petal package path '', V2 p]
       | None \<Rightarrow> Ok sorted)"

definition le_bytes :: "nat \<Rightarrow> nat \<Rightarrow> string" where
  "le_bytes k n = rev (be_bytes k n)"

definition file_digest_input :: "package_lib \<Rightarrow> package_file \<Rightarrow> string" where
  "file_digest_input L f =
     le_bytes 4 (length (nf_path f) mod 2 ^ 32) @ nf_path f @
     le_bytes 8 (length (nf_bytes f) mod 2 ^ 64) @ pl_blake3 L (nf_bytes f)"

definition package_hash :: "package_lib \<Rightarrow> package_file list \<Rightarrow> string" where
  "package_hash L files = pl_hex L (pl_blake3 L (pl_digest_prefix L @ concat (map (file_digest_input L) files)))"

definition validate_route_id_arg :: "string \<Rightarrow> (petal_error, unit) result" where
  "validate_route_id_arg route_id =
     (if length route_id = 7 \<and> starts_with route_id ''r'' \<and> list_all is_ascii_digit (tl route_id) \<and> route_id \<noteq> ''r000000''
      then Ok () else bad_wasm [S ''invalid route id '', V2 route_id])"

definition verify_prepared_package :: "package_lib \<Rightarrow> prepared_package \<Rightarrow> (petal_error, unit) result" where
  "verify_prepared_package L package =
     and_then (normalize_files (pp_files package)) (\<lambda>files.
     and_then (pl_rebuild L files) (\<lambda>rebuilt.
       if pp_hash package \<noteq> pp_hash rebuilt then Err (InvalidHash [S (pp_hash package)])
       else if pp_name package \<noteq> pp_name rebuilt \<or> pp_index package \<noteq> pp_index rebuilt
       then bad_wasm [S ''Petal prepared package route index does not match rebuilt package'']
       else all_ok (\<lambda>route. validate_route_id_arg (rr_route_id route)) (ri_routes (pp_index package))))"

section \<open>The store\<close>

definition private_data_root :: "path \<Rightarrow> path" where
  "private_data_root base = butlast base @ [''data'']"

definition private_account_data_root :: "path \<Rightarrow> path" where
  "private_account_data_root base = butlast base @ [''data-accounts'']"

definition object_path :: "path \<Rightarrow> string \<Rightarrow> path" where
  "object_path base hash = base @ [''objects'', hash]"

definition meta_path :: "path \<Rightarrow> string \<Rightarrow> path" where
  "meta_path base hash = base @ [''meta'', hash @ ''.json'']"

definition package_path :: "path \<Rightarrow> string \<Rightarrow> path" where
  "package_path base hash = base @ [''packages'', hash]"

definition owner_path :: "path \<Rightarrow> string \<Rightarrow> path" where
  "owner_path base name = base @ [''owners'', name @ ''.json'']"

definition route_index_path :: "path \<Rightarrow> string \<Rightarrow> path" where
  "route_index_path base hash = package_path base hash @ [''route-index.json'']"

definition artifact_path :: "path \<Rightarrow> string \<Rightarrow> string \<Rightarrow> path" where
  "artifact_path base hash route_id = package_path base hash @ [''artifacts'', ''routes'', route_id @ ''.wasm'']"

definition is_hex_hash_prefix :: "string \<Rightarrow> bool" where
  "is_hex_hash_prefix s \<longleftrightarrow> 12 \<le> length s \<and> length s < 64 \<and>
     list_all (\<lambda>c. is_ascii_digit c \<or> 97 \<le> byte c \<and> byte c \<le> 102) s"

definition validate_hash_arg :: "string \<Rightarrow> (petal_error, unit) result" where
  "validate_hash_arg hash = (if is_valid_hex_hash hash then Ok () else Err (InvalidHash [S hash]))"

definition validate_owner_name :: "string \<Rightarrow> (petal_error, unit) result" where
  "validate_owner_name name =
     (if name \<noteq> [] \<and> list_all (\<lambda>c. is_ascii_alphanumeric c \<or> c = CHR ''-'' \<or> c = CHR ''_'') name
      then Ok () else bad_wasm [S ''invalid app owner name '', V2 name])"

definition validate_owner :: "app_owner \<Rightarrow> (petal_error, unit) result" where
  "validate_owner owner = and_then (validate_owner_name (ao_name owner)) (\<lambda>_. validate_hash_arg (ao_hash owner))"

text \<open>\<open>std::fs::read\<close> where a missing file is \<open>NotFound\<close>.\<close>

definition read_found :: "file_system \<Rightarrow> path \<Rightarrow> string msg \<Rightarrow> (petal_error, string) result" where
  "read_found fs p what =
     map_err (\<lambda>e. if e = Io_NotFound then P_NotFound what else io_error e) (tree_read fs p)"

definition read_wasm :: "file_system \<Rightarrow> path \<Rightarrow> string \<Rightarrow> (petal_error, string) result" where
  "read_wasm fs base hash =
     and_then (validate_hash_arg hash) (\<lambda>_. read_found fs (object_path base hash) [S hash])"

definition load_route_index :: "package_lib \<Rightarrow> file_system \<Rightarrow> path \<Rightarrow> string \<Rightarrow> (petal_error, route_index) result" where
  "load_route_index L fs base hash =
     and_then (validate_hash_arg hash) (\<lambda>_.
     and_then (read_found fs (route_index_path base hash) [S hash]) (\<lambda>b. serde (pl_dec_index L b)))"

definition read_route_artifact :: "file_system \<Rightarrow> path \<Rightarrow> string \<Rightarrow> string \<Rightarrow> (petal_error, string) result" where
  "read_route_artifact fs base hash route_id =
     and_then (validate_hash_arg hash) (\<lambda>_.
     and_then (validate_route_id_arg route_id) (\<lambda>_.
       read_found fs (artifact_path base hash route_id) [S hash, S '':'', S route_id]))"

definition load_meta :: "package_lib \<Rightarrow> file_system \<Rightarrow> path \<Rightarrow> string \<Rightarrow> (petal_error, petal_meta) result" where
  "load_meta L fs base hash =
     and_then (validate_hash_arg hash) (\<lambda>_.
     and_then (read_found fs (meta_path base hash) [S hash]) (\<lambda>b. serde (pl_dec_meta L b)))"

definition write_meta :: "package_lib \<Rightarrow> path \<Rightarrow> petal_meta \<Rightarrow> (petal_error, unit) act" where
  "write_meta L base meta = io (write_atomic (meta_path base (pm_hash meta)) (pl_enc_meta L meta))"

definition contains_wasm :: "file_system \<Rightarrow> path \<Rightarrow> string \<Rightarrow> bool" where
  "contains_wasm fs base hash \<longleftrightarrow> is_valid_hex_hash hash \<and> exists_at fs (object_path base hash)"

definition contains_package :: "file_system \<Rightarrow> path \<Rightarrow> string \<Rightarrow> bool" where
  "contains_package fs base hash \<longleftrightarrow> is_valid_hex_hash hash \<and> exists_at fs (package_path base hash)"

text \<open>The hashes with a metadata file, in the order of a \<open>BTreeSet\<close>.\<close>

definition collect_meta_hashes :: "file_system \<Rightarrow> path \<Rightarrow> (petal_error, string list) result" where
  "collect_meta_hashes fs base =
     (case read_dir fs (base @ [''meta'']) of
        Inl e \<Rightarrow> if e = Io_NotFound then Ok [] else Err (io_error e)
      | Inr names \<Rightarrow> Ok (sort (remdups (filter is_valid_hex_hash
          (List.map_filter (\<lambda>n. strip_suffix n ''.json'') names)))))"

definition list_hashes :: "file_system \<Rightarrow> path \<Rightarrow> (petal_error, string list) result" where
  "list_hashes fs base =
     and_then (collect_meta_hashes fs base) (\<lambda>hs. Ok (filter (\<lambda>h. exists_at fs (object_path base h)) hs))"

definition list_physical_package_hashes :: "file_system \<Rightarrow> path \<Rightarrow> (petal_error, string list) result" where
  "list_physical_package_hashes fs base =
     and_then (collect_meta_hashes fs base) (\<lambda>hs. Ok (filter (\<lambda>h. exists_at fs (package_path base h)) hs))"

definition read_owner :: "package_lib \<Rightarrow> file_system \<Rightarrow> path \<Rightarrow> string \<Rightarrow> (petal_error, app_owner) result" where
  "read_owner L fs base file =
     and_then (map_err io_error (tree_read fs (base @ [''owners'', file]))) (\<lambda>b.
     and_then (serde (pl_dec_owner L b)) (\<lambda>owner.
     and_then (validate_owner owner) (\<lambda>_.
       if strip_suffix file ''.json'' \<noteq> Some (ao_name owner)
       then bad_wasm [S ''app owner record name does not match file '', V2 file]
       else if \<not> is_dir fs (package_path base (ao_hash owner)) then Err (P_NotFound [S (ao_hash owner)])
       else Ok owner)))"

fun read_owners :: "package_lib \<Rightarrow> file_system \<Rightarrow> path \<Rightarrow> string list \<Rightarrow> (petal_error, (string \<times> string) list) result" where
  "read_owners L fs base [] = Ok []"
| "read_owners L fs base (file # files) =
     (if \<not> is_reg (map_of fs (base @ [''owners'', file])) \<or> starts_with file ''.'' \<or> \<not> ends_with file ''.json''
      then read_owners L fs base files
      else and_then (read_owner L fs base file) (\<lambda>owner.
           and_then (read_owners L fs base files) (\<lambda>rest. Ok ((ao_name owner, ao_hash owner) # rest))))"

definition list_petal_owners :: "package_lib \<Rightarrow> file_system \<Rightarrow> path \<Rightarrow> (petal_error, (string \<times> string) list) result" where
  "list_petal_owners L fs base =
     and_then (map_err io_error (read_dir fs (base @ [''owners'']))) (\<lambda>files.
     and_then (read_owners L fs base files) (\<lambda>owners. Ok (sort_key fst owners)))"

definition list_package_hashes :: "package_lib \<Rightarrow> file_system \<Rightarrow> path \<Rightarrow> (petal_error, string list) result" where
  "list_package_hashes L fs base = and_then (list_petal_owners L fs base) (\<lambda>owners. Ok (map snd owners))"

definition owner_record :: "package_lib \<Rightarrow> file_system \<Rightarrow> path \<Rightarrow> string \<Rightarrow> string \<Rightarrow> (petal_error, string option) result" where
  "owner_record L fs base name b =
     and_then (serde (pl_dec_owner L b)) (\<lambda>owner.
     and_then (validate_owner owner) (\<lambda>_.
       if ao_name owner \<noteq> name
       then bad_wasm [S ''app owner record name mismatch: expected '', V2 name, S '', found '', V2 (ao_name owner)]
       else if \<not> is_dir fs (package_path base (ao_hash owner)) then Err (P_NotFound [S (ao_hash owner)])
       else Ok (Some (ao_hash owner))))"

definition resolve_petal_owner ::
  "package_lib \<Rightarrow> file_system \<Rightarrow> path \<Rightarrow> string \<Rightarrow> (petal_error, string option) result" where
  "resolve_petal_owner L fs base name =
     and_then (validate_owner_name name) (\<lambda>_.
       case tree_read fs (owner_path base name) of
         Inl e \<Rightarrow> if e = Io_NotFound then Ok None else Err (io_error e)
       | Inr b \<Rightarrow> owner_record L fs base name b)"

definition write_petal_owner :: "package_lib \<Rightarrow> path \<Rightarrow> string \<Rightarrow> string \<Rightarrow> (petal_error, unit) act" where
  "write_petal_owner L base name hash =
     seq (give (validate_owner_name name)) (\<lambda>_.
     seq (give (validate_hash_arg hash)) (\<lambda>_.
       io (write_atomic (owner_path base name) (pl_enc_owner L \<lparr>ao_name = name, ao_hash = hash\<rparr>))))"

definition remove_petal_owner_for_hash :: "package_lib \<Rightarrow> path \<Rightarrow> string \<Rightarrow> (petal_error, unit) act" where
  "remove_petal_owner_for_hash L base hash =
     seq (reading (\<lambda>fs. list_petal_owners L fs base)) (\<lambda>owners.
       for_each (\<lambda>(name, h). if h \<noteq> hash then give (Ok ()) else removing (sys_remove (owner_path base name))) owners)"

definition remove_package_data :: "path \<Rightarrow> string \<Rightarrow> (petal_error, bool) act" where
  "remove_package_data base hash =
     seq (reading (\<lambda>fs. Ok (exists_at fs (object_path base hash) \<or> exists_at fs (meta_path base hash) \<or>
       exists_at fs (package_path base hash)))) (\<lambda>had.
     seq (removing (sys_remove (object_path base hash))) (\<lambda>_.
     seq (removing (sys_remove (meta_path base hash))) (\<lambda>_.
     seq (removing (sys_remove_dir_all (package_path base hash))) (\<lambda>_. give (Ok had)))))"

text \<open>\<open>busy\<close> says that a guest is running: the write lock of the execution gate is not free.\<close>

definition mutation_guard :: "bool \<Rightarrow> (petal_error, unit) result" where
  "mutation_guard busy =
     (if busy then Err (P_Vm [S ''Petal execution is in progress; retry the package change when idle'']) else Ok ())"

definition uninstall :: "package_lib \<Rightarrow> path \<Rightarrow> bool \<Rightarrow> string \<Rightarrow> (petal_error, bool) act" where
  "uninstall L base busy hash =
     seq (give (mutation_guard busy)) (\<lambda>_.
     seq (give (validate_hash_arg hash)) (\<lambda>_.
     seq (remove_petal_owner_for_hash L base hash) (\<lambda>_. remove_package_data base hash)))"

fun hashes_of_mode ::
  "package_lib \<Rightarrow> file_system \<Rightarrow> path \<Rightarrow> petal_mode \<Rightarrow> string list \<Rightarrow> (petal_error, string list) result" where
  "hashes_of_mode L fs base mode [] = Ok []"
| "hashes_of_mode L fs base mode (h # hs) =
     (if \<not> exists_at fs (object_path base h) then hashes_of_mode L fs base mode hs
      else case load_meta L fs base h of
        Inr m \<Rightarrow> and_then (hashes_of_mode L fs base mode hs) (\<lambda>rest. Ok (if pm_mode m = mode then h # rest else rest))
      | Inl (P_NotFound _) \<Rightarrow> hashes_of_mode L fs base mode hs
      | Inl e \<Rightarrow> Err e)"

definition list_hashes_by_mode ::
  "package_lib \<Rightarrow> file_system \<Rightarrow> path \<Rightarrow> petal_mode \<Rightarrow> (petal_error, string list) result" where
  "list_hashes_by_mode L fs base mode =
     and_then (list_hashes fs base) (hashes_of_mode L fs base mode)"

section \<open>Opening the store\<close>

type_synonym candidate = "string \<times> string \<times> nat"

fun physical_packages ::
  "package_lib \<Rightarrow> file_system \<Rightarrow> path \<Rightarrow> string list \<Rightarrow> (petal_error, candidate list) result" where
  "physical_packages L fs base [] = Ok []"
| "physical_packages L fs base (h # hs) =
     and_then (load_meta L fs base h) (\<lambda>m.
     and_then (physical_packages L fs base hs) (\<lambda>rest.
       Ok (case pm_petal m of Some app \<Rightarrow> (gm_name app, h, pm_installed_at_ms m) # rest | None \<Rightarrow> rest)))"

definition sorted_packages ::
  "package_lib \<Rightarrow> file_system \<Rightarrow> path \<Rightarrow> (petal_error, candidate list) result" where
  "sorted_packages L fs base =
     and_then (list_physical_package_hashes fs base) (\<lambda>hs.
     and_then (physical_packages L fs base hs) (\<lambda>ps. Ok (sort_key (\<lambda>(name, h, ms). (name, ms, h)) ps)))"

definition owner_file_names :: "file_system \<Rightarrow> path \<Rightarrow> (petal_error, string list) result" where
  "owner_file_names fs base =
     and_then (map_err io_error (read_dir fs (base @ [''owners'']))) (\<lambda>files.
       Ok (filter (\<lambda>n. is_ok (validate_owner_name n)) (List.map_filter (\<lambda>f. strip_suffix f ''.json'') files)))"

text \<open>The owner a name gets: its valid record if that names a package of the name, else the newest.\<close>

definition chosen_owner :: "package_lib \<Rightarrow> file_system \<Rightarrow> path \<Rightarrow> candidate list \<Rightarrow> string \<Rightarrow> string option" where
  "chosen_owner L fs base candidates name =
     (let current = (case resolve_petal_owner L fs base name of Inr x \<Rightarrow> x | Inl _ \<Rightarrow> None);
          newest = (if candidates = [] then None else Some (fst (snd (last candidates))))
      in case current of
           Some h \<Rightarrow> if list_ex (\<lambda>(_, c, _). c = h) candidates then Some h else newest
         | None \<Rightarrow> newest)"

definition reconcile_name :: "package_lib \<Rightarrow> path \<Rightarrow> candidate list \<Rightarrow> string \<Rightarrow> (petal_error, unit) act" where
  "reconcile_name L base packages name =
     (let candidates = filter (\<lambda>(n, _, _). n = name) packages in
      seq (reading (\<lambda>fs. Ok (chosen_owner L fs base candidates name))) (\<lambda>owner.
        case owner of
          None \<Rightarrow> ignoring (sys_remove (owner_path base name))
        | Some h \<Rightarrow>
            seq (write_petal_owner L base name h) (\<lambda>_.
              for_each (\<lambda>(_, c, _). if c = h then give (Ok ()) else ignoring (remove_package_data base c)) candidates)))"

definition clear_dotfiles :: "path \<Rightarrow> (petal_error, unit) act" where
  "clear_dotfiles base =
     seq (reading (\<lambda>fs. map_err io_error (read_dir fs (base @ [''owners''])))) (\<lambda>files.
       for_each (\<lambda>f. if starts_with f ''.'' then removing (sys_remove (base @ [''owners'', f])) else give (Ok ())) files)"

definition reconcile_petal_owners :: "package_lib \<Rightarrow> path \<Rightarrow> (petal_error, unit) act" where
  "reconcile_petal_owners L base =
     seq (clear_dotfiles base) (\<lambda>_.
     seq (reading (\<lambda>fs. sorted_packages L fs base)) (\<lambda>packages.
     seq (reading (\<lambda>fs. owner_file_names fs base)) (\<lambda>files.
       for_each (reconcile_name L base packages) (sort (remdups (map fst packages @ files))))))"

definition open_packages :: "package_lib \<Rightarrow> path \<Rightarrow> (petal_error, unit) act" where
  "open_packages L base =
     seq (for_each (\<lambda>dir. io (sys_mkdir_all (base @ [dir]))) [''objects'', ''meta'', ''packages'', ''owners'']) (\<lambda>_.
       reconcile_petal_owners L base)"

section \<open>Installing\<close>

record install_result =
  ir_hash :: string
  ir_size :: nat
  ir_already_present :: bool

definition new_meta :: "string \<Rightarrow> nat \<Rightarrow> nat \<Rightarrow> petal_mode \<Rightarrow> petal_meta" where
  "new_meta hash sz now mode =
     \<lparr>pm_hash = hash, pm_size = sz, pm_installed_at_ms = now, pm_name = None, pm_caps = {}, pm_mode = mode,
      pm_petal = None, pm_source = None, pm_replaced = None\<rparr>"

definition install_wasm ::
  "package_lib \<Rightarrow> path \<Rightarrow> nat \<Rightarrow> string \<Rightarrow> string option \<Rightarrow> capability set \<Rightarrow> petal_mode \<Rightarrow>
   (petal_error, install_result \<times> petal_meta) act" where
  "install_wasm L base now wasm name caps mode =
     (let hash = pl_hex L (pl_blake3 L wasm); obj = object_path base hash in
      seq (reading (\<lambda>fs. Ok (exists_at fs obj))) (\<lambda>already_present.
      seq (reading (\<lambda>fs.
        case load_meta L fs base hash of
          Inr existing \<Rightarrow>
            if pm_mode existing \<noteq> mode then Err ModeConflict
            else if pm_caps existing \<noteq> caps then Err CapMismatch else Ok existing
        | Inl (P_NotFound _) \<Rightarrow> Ok (new_meta hash (length wasm) now mode)
        | Inl e \<Rightarrow> Err e)) (\<lambda>meta.
      seq (if already_present then give (Ok ()) else io (write_atomic obj wasm)) (\<lambda>_.
      let meta' = meta\<lparr>pm_name := (case name of Some n \<Rightarrow> Some n | None \<Rightarrow> pm_name meta),
                       pm_caps := caps, pm_size := length wasm\<rparr> in
      seq (write_meta L base meta') (\<lambda>_.
        give (Ok (\<lparr>ir_hash = hash, ir_size = length wasm, ir_already_present = already_present\<rparr>, meta')))))))"

definition write_package_file :: "path \<Rightarrow> string \<Rightarrow> string \<Rightarrow> (petal_error, unit) act" where
  "write_package_file rt rel data =
     seq (give (validate_package_path rel)) (\<lambda>_.
     let p = rt @ split_on CHR ''/'' rel in
     seq (io (sys_mkdir_all (butlast p))) (\<lambda>_. io (write_atomic p data)))"

definition checked_route_artifact_bytes ::
  "package_lib \<Rightarrow> prepared_package \<Rightarrow> index_record \<Rightarrow> (petal_error, string) result" where
  "checked_route_artifact_bytes L package route =
     and_then (pl_artifact L package route) (\<lambda>artifact.
       if pl_hex L (pl_blake3 L artifact) \<noteq> ix_artifact_hash route
       then bad_wasm [S ''Petal package artifact '', S (rr_route_id route), S '' hash mismatch'']
       else Ok artifact)"

text \<open>A dropped \<open>TempDir\<close> removes its directory and ignores failures.\<close>

definition dropping :: "path \<Rightarrow> ('e, 'a) act \<Rightarrow> ('e, 'a) act" where
  "dropping dir a w = (case a w of (w', r) \<Rightarrow> (fst (sys_remove_dir_all dir w'), r))"

definition dropping_on_error :: "path \<Rightarrow> ('e, 'a) act \<Rightarrow> ('e, 'a) act" where
  "dropping_on_error dir a w =
     (case a w of (w', r) \<Rightarrow> if is_ok r then (w', r) else (fst (sys_remove_dir_all dir w'), r))"

text \<open>\<open>rnd\<close> is the random part of the name of the staging directory.\<close>

definition staging_dir :: "path \<Rightarrow> string \<Rightarrow> path" where
  "staging_dir base rnd = base @ [''packages'', ''.install-'' @ rnd]"

definition fill_staging :: "package_lib \<Rightarrow> path \<Rightarrow> prepared_package \<Rightarrow> (petal_error, unit) act" where
  "fill_staging L tmp package =
     seq (io (sys_mkdir_all (tmp @ [''source'']))) (\<lambda>_.
     seq (io (sys_mkdir_all (tmp @ [''artifacts'', ''routes'']))) (\<lambda>_.
     seq (for_each (\<lambda>f. write_package_file (tmp @ [''source'']) (nf_path f) (nf_bytes f)) (pp_files package)) (\<lambda>_.
     seq (for_each (\<lambda>route. seq (give (checked_route_artifact_bytes L package route)) (\<lambda>artifact.
       write_package_file tmp (ix_artifact_path route) artifact)) (ri_routes (pp_index package))) (\<lambda>_.
       io (write_atomic (tmp @ [''route-index.json'']) (pl_enc_index L (pp_index package)))))))"

definition stage_petal_package :: "package_lib \<Rightarrow> path \<Rightarrow> string \<Rightarrow> prepared_package \<Rightarrow> (petal_error, path) act" where
  "stage_petal_package L base rnd package =
     (let tmp = staging_dir base rnd in
      seq (give (verify_prepared_package L package)) (\<lambda>_.
      seq (give (validate_hash_arg (pp_hash package))) (\<lambda>_.
      seq (io (sys_mkdir tmp)) (\<lambda>_.
        dropping_on_error tmp (seq (fill_staging L tmp package) (\<lambda>_. give (Ok tmp)))))))"

definition verify_existing_petal_package ::
  "package_lib \<Rightarrow> file_system \<Rightarrow> path \<Rightarrow> prepared_package \<Rightarrow> (petal_error, unit) result" where
  "verify_existing_petal_package L fs base package =
     (let hash = pp_hash package in
      and_then (load_route_index L fs base hash) (\<lambda>stored_index.
      if stored_index \<noteq> pp_index package
      then bad_wasm [S ''existing Petal package '', S hash, S '' route index does not match validated package'']
      else and_then (all_ok (\<lambda>f.
          and_then (map_err io_error (tree_read fs (package_path base hash @ ''source'' # split_on CHR ''/'' (nf_path f)))) (\<lambda>b.
            if b \<noteq> nf_bytes f
            then bad_wasm [S ''existing Petal package '', S hash, S '' source file '', V2 (nf_path f), S '' does not match package hash'']
            else Ok ())) (pp_files package)) (\<lambda>_.
        all_ok (\<lambda>route.
          and_then (read_route_artifact fs base hash (rr_route_id route)) (\<lambda>artifact.
            if pl_hex L (pl_blake3 L artifact) \<noteq> ix_artifact_hash route
            then bad_wasm [S ''existing Petal package '', S hash, S '' artifact '', S (rr_route_id route), S '' hash mismatch'']
            else Ok ())) (ri_routes (pp_index package)))))"

definition existing_meta :: "package_lib \<Rightarrow> file_system \<Rightarrow> path \<Rightarrow> string \<Rightarrow> (petal_error, petal_meta option) result" where
  "existing_meta L fs base hash =
     (case load_meta L fs base hash of
        Inr m \<Rightarrow> if pm_mode m \<noteq> Local then Err ModeConflict else Ok (Some m)
      | Inl (P_NotFound _) \<Rightarrow> Ok None
      | Inl e \<Rightarrow> Err e)"

definition installed_meta ::
  "package_lib \<Rightarrow> nat \<Rightarrow> prepared_package \<Rightarrow> source_provenance option \<Rightarrow> petal_meta option \<Rightarrow> string option \<Rightarrow> petal_meta" where
  "installed_meta L now package source existing current_owner =
     (let sz = sum_list (map (length \<circ> nf_bytes) (pp_files package));
          m = (case existing of Some m \<Rightarrow> m | None \<Rightarrow> new_meta (pp_hash package) sz now Local);
          m' = m\<lparr>pm_name := Some (pp_name package), pm_size := sz, pm_caps := {}, pm_mode := Local,
                pm_petal := Some \<lparr>gm_name = pp_name package, gm_petal_root = ri_petal_root (pp_index package),
                  gm_route_index_schema = pl_index_schema L\<rparr>,
                pm_source := source\<rparr>
      in if current_owner \<noteq> Some (pp_hash package) then m'\<lparr>pm_replaced := current_owner\<rparr> else m')"

text \<open>
  \<open>guard i\<close> is what the \<open>i\<close>-th call of the commit guard answers on the files it finds,
  \<open>prepare\<close> the preparation of the private state. Everything before the owner record is written:
\<close>

definition place_package ::
  "package_lib \<Rightarrow> path \<Rightarrow> path \<Rightarrow> prepared_package \<Rightarrow> bool \<Rightarrow> (petal_error, unit) act" where
  "place_package L base tmp package already_present =
     (if already_present then reading (\<lambda>fs. verify_existing_petal_package L fs base package)
      else io (sys_rename_dir tmp (package_path base (pp_hash package))))"

definition record_install ::
  "package_lib \<Rightarrow> path \<Rightarrow> (nat \<Rightarrow> file_system \<Rightarrow> (petal_error, unit) result) \<Rightarrow> (petal_meta \<Rightarrow> (petal_error, unit) act) \<Rightarrow> nat \<Rightarrow>
   prepared_package \<Rightarrow> source_provenance option \<Rightarrow> petal_meta option \<Rightarrow> (petal_error, petal_meta) act" where
  "record_install L base guard prepare now package source existing =
     seq (reading (\<lambda>fs. resolve_petal_owner L fs base (pp_name package))) (\<lambda>current_owner.
     seq (reading (guard 1)) (\<lambda>_.
     let meta = installed_meta L now package source existing current_owner in
     seq (write_meta L base meta) (\<lambda>_.
     seq (prepare meta) (\<lambda>_. give (Ok meta)))))"

definition before_commit ::
  "package_lib \<Rightarrow> path \<Rightarrow> (nat \<Rightarrow> file_system \<Rightarrow> (petal_error, unit) result) \<Rightarrow> (petal_meta \<Rightarrow> (petal_error, unit) act) \<Rightarrow> nat \<Rightarrow>
   path \<Rightarrow> prepared_package \<Rightarrow> source_provenance option \<Rightarrow> (petal_error, bool \<times> petal_meta) act" where
  "before_commit L base guard prepare now tmp package source =
     seq (reading (\<lambda>fs. Ok (exists_at fs (package_path base (pp_hash package))))) (\<lambda>already_present.
     seq (reading (guard 0)) (\<lambda>_.
     seq (reading (\<lambda>fs. existing_meta L fs base (pp_hash package))) (\<lambda>existing.
     seq (place_package L base tmp package already_present) (\<lambda>_.
     seq (record_install L base guard prepare now package source existing) (\<lambda>meta.
       give (Ok (already_present, meta)))))))"

definition install_staged_petal_package_with_activation ::
  "package_lib \<Rightarrow> path \<Rightarrow> bool \<Rightarrow> (nat \<Rightarrow> file_system \<Rightarrow> (petal_error, unit) result) \<Rightarrow> (petal_meta \<Rightarrow> (petal_error, unit) act) \<Rightarrow> nat \<Rightarrow>
   path \<Rightarrow> prepared_package \<Rightarrow> source_provenance option \<Rightarrow> (petal_error, install_result \<times> petal_meta \<times> route_index) act" where
  "install_staged_petal_package_with_activation L base busy guard prepare now tmp package source =
     dropping tmp (
       seq (give (mutation_guard busy)) (\<lambda>_.
       seq (before_commit L base guard prepare now tmp package source) (\<lambda>(already_present, meta).
       seq (reading (guard 2)) (\<lambda>_.
       seq (write_petal_owner L base (pp_name package) (pp_hash package)) (\<lambda>_.
         give (Ok (\<lparr>ir_hash = pp_hash package, ir_size = pm_size meta, ir_already_present = already_present\<rparr>,
           meta, pp_index package)))))))"

definition install_petal_package ::
  "package_lib \<Rightarrow> path \<Rightarrow> bool \<Rightarrow> (nat \<Rightarrow> file_system \<Rightarrow> (petal_error, unit) result) \<Rightarrow> (petal_meta \<Rightarrow> (petal_error, unit) act) \<Rightarrow> nat \<Rightarrow>
   string \<Rightarrow> prepared_package \<Rightarrow> source_provenance option \<Rightarrow> (petal_error, install_result \<times> petal_meta \<times> route_index) act" where
  "install_petal_package L base busy guard prepare now rnd package source =
     seq (stage_petal_package L base rnd package) (\<lambda>tmp.
       install_staged_petal_package_with_activation L base busy guard prepare now tmp package source)"

section \<open>What an action leaves alone\<close>

text \<open>
  \<open>leaves exact P a\<close>: action \<open>a\<close> leaves every entry at a path of \<open>P\<close> as it is, or, when not
  \<open>exact\<close>, creates at most directories there. One rule per combinator and call.
\<close>

named_theorems frame

definition unchanged :: "bool \<Rightarrow> tnode option \<Rightarrow> tnode option \<Rightarrow> bool" where
  "unchanged exact x y \<longleftrightarrow> x = y \<or> \<not> exact \<and> x = None \<and> y = Some Dir"

definition same_at :: "bool \<Rightarrow> (path \<Rightarrow> bool) \<Rightarrow> file_system \<Rightarrow> file_system \<Rightarrow> bool" where
  "same_at exact P fs fs' \<longleftrightarrow> (\<forall>q. P q \<longrightarrow> unchanged exact (map_of fs q) (map_of fs' q))"

definition leaves :: "bool \<Rightarrow> (path \<Rightarrow> bool) \<Rightarrow> ('e, 'a) act \<Rightarrow> bool" where
  "leaves exact P a \<longleftrightarrow> (\<forall>w. same_at exact P (w_fs w) (w_fs (fst (a w))))"

lemma unchanged_refl [simp]: "unchanged exact x x"
  by (simp add: unchanged_def)

lemma unchanged_trans: "unchanged exact x y \<Longrightarrow> unchanged exact y z \<Longrightarrow> unchanged exact x z"
  by (auto simp: unchanged_def)

lemma same_at_refl [simp]: "same_at exact P fs fs"
  by (simp add: same_at_def)

lemma same_at_trans: "same_at exact P fs fs' \<Longrightarrow> same_at exact P fs' fs'' \<Longrightarrow> same_at exact P fs fs''"
  unfolding same_at_def using unchanged_trans by blast

lemma leavesD: "leaves exact P a \<Longrightarrow> a w = (w', r) \<Longrightarrow> same_at exact P (w_fs w) (w_fs w')"
  unfolding leaves_def by (metis fst_conv)

lemma leaves_mono: "leaves exact P a \<Longrightarrow> (\<And>q. Q q \<Longrightarrow> P q) \<Longrightarrow> leaves exact Q a"
  by (auto simp: leaves_def same_at_def)

lemma leaves_give [frame]: "leaves exact P (give r)"
  by (simp add: leaves_def give_def)

lemma leaves_reading [frame]: "leaves exact P (reading f)"
  by (simp add: leaves_def reading_def)

lemma seq_cases:
  assumes "seq a k w = (w', r)"
  shows "(\<exists>e. a w = (w', Err e) \<and> r = Err e) \<or> (\<exists>w1 x. a w = (w1, Ok x) \<and> k x w1 = (w', r))"
  using assms by (cases "a w"; cases "snd (a w)") (auto simp: seq_def)

lemma leaves_seq [frame]:
  assumes "leaves exact P a" "\<And>x. leaves exact P (k x)"
  shows "leaves exact P (seq a k)"
  unfolding leaves_def
proof
  fix w
  obtain w' r where s: "seq a k w = (w', r)" by (cases "seq a k w")
  show "same_at exact P (w_fs w) (w_fs (fst (seq a k w)))"
    using seq_cases [OF s] leavesD [OF assms(1)] leavesD [OF assms(2)] same_at_trans unfolding s by fastforce
qed

lemma leaves_failing_as [frame]: "leaves exact P a \<Longrightarrow> leaves exact P (failing_as f a)"
  by (simp add: leaves_def failing_as_def case_prod_unfold)

lemma leaves_io [frame]: "leaves exact P a \<Longrightarrow> leaves exact P (io a)"
  by (simp add: io_def leaves_failing_as)

lemma leaves_ignoring [frame]: "leaves exact P a \<Longrightarrow> leaves exact P (ignoring a)"
  by (simp add: leaves_def ignoring_def)

lemma leaves_removing [frame]: "leaves exact P a \<Longrightarrow> leaves exact P (removing a)"
  by (auto simp: leaves_def removing_def case_prod_unfold split: sum.splits)

lemma leaves_for_each [frame]: "(\<And>x. x \<in> set xs \<Longrightarrow> leaves exact P (f x)) \<Longrightarrow> leaves exact P (for_each f xs)"
  by (induction xs) (auto intro: frame)

lemma leaves_if [frame]:
  "(c \<Longrightarrow> leaves exact P a) \<Longrightarrow> (\<not> c \<Longrightarrow> leaves exact P b) \<Longrightarrow> leaves exact P (if c then a else b)"
  by simp

lemma leaves_changing:
  "(\<And>fs fault q. P q \<Longrightarrow> unchanged exact (map_of fs q) (map_of (fst (f fs fault)) q)) \<Longrightarrow> leaves exact P (changing f)"
  by (simp add: leaves_def same_at_def changing_def case_prod_unfold)

lemma leaves_mkdir_all [frame]:
  assumes "\<And>q. exact \<Longrightarrow> P q \<Longrightarrow> \<not> prefix q p"
  shows "leaves exact P (sys_mkdir_all p)"
  unfolding sys_mkdir_all_def
proof (rule leaves_changing)
  fix fs fault q
  assume "P q"
  let ?c = "create_dir_all fs (case fault of Some (Call_Fails e n _) \<Rightarrow> Some (case n of Some k \<Rightarrow> k | None \<Rightarrow> 0, e) | None \<Rightarrow> None) p"
  have "grown fs (fst ?c) p" using create_dir_all_grown [of fs _ p "fst ?c" "snd ?c"] by (simp only: prod.collapse)
  then show "unchanged exact (map_of fs q) (map_of (fst ?c) q)"
    using assms \<open>P q\<close> by (force simp: grown_def unchanged_def)
qed

lemma leaves_mkdir [frame]: "\<not> P p \<Longrightarrow> leaves exact P (sys_mkdir p)"
  unfolding sys_mkdir_def
  by (rule leaves_changing) (auto simp: update_conv' split: option.splits)

lemma leaves_write [frame]: "\<not> P p \<Longrightarrow> leaves exact P (sys_write p data)"
  unfolding sys_write_def
  by (rule leaves_changing) (auto simp: update_conv' split: option.splits sum.splits call_fault.splits)

lemma leaves_rename [frame]: "\<not> P p \<Longrightarrow> \<not> P q \<Longrightarrow> leaves exact P (sys_rename p q)"
  unfolding sys_rename_def
  by (rule leaves_changing) (auto simp: fs_rename_def update_conv' delete_conv' split: option.splits)

lemma leaves_write_atomic [frame]:
  "\<not> P p \<Longrightarrow> \<not> P (temporary p) \<Longrightarrow> leaves exact P (write_atomic p data)"
  unfolding write_atomic_def by (intro frame)

lemma leaves_remove [frame]: "\<not> P p \<Longrightarrow> leaves exact P (sys_remove p)"
  unfolding sys_remove_def
  by (rule leaves_changing) (auto simp: fs_remove_def delete_conv' split: option.splits tnode.splits)

lemma map_of_keep: "\<not> under p q \<Longrightarrow> map_of (keep_of fs p kept) q = map_of fs q"
  unfolding keep_of_def map_of_filter_fst by simp

lemma leaves_remove_dir_all [frame]:
  "(\<And>q. P q \<Longrightarrow> \<not> under p q) \<Longrightarrow> leaves exact P (sys_remove_dir_all p)"
  unfolding sys_remove_dir_all_def
  by (rule leaves_changing) (auto simp: map_of_keep split: option.splits tnode.splits call_fault.splits)

lemma leaves_rename_dir [frame]:
  "(\<And>q. P q \<Longrightarrow> \<not> under p q \<and> \<not> under p' q) \<Longrightarrow> leaves exact P (sys_rename_dir p p')"
  unfolding sys_rename_dir_def
  by (rule leaves_changing) (auto simp: rename_tree_def map_add_def map_of_copy_other split: option.splits)

lemma leaves_dropping [frame]:
  assumes "leaves exact P a" "\<And>q. P q \<Longrightarrow> \<not> under p q"
  shows "leaves exact P (dropping p a)"
proof -
  have "leaves exact P (sys_remove_dir_all p)" using assms(2) by (rule leaves_remove_dir_all)
  then show ?thesis
    using assms(1) same_at_trans unfolding leaves_def dropping_def by (simp add: case_prod_unfold) blast
qed

lemma leaves_dropping_on_error [frame]:
  "leaves exact P a \<Longrightarrow> (\<And>q. P q \<Longrightarrow> \<not> under p q) \<Longrightarrow> leaves exact P (dropping_on_error p a)"
  using leaves_dropping [of exact P a p]
  unfolding leaves_def dropping_on_error_def dropping_def by (simp add: case_prod_unfold)

section \<open>Regions of the store\<close>

lemma under_append [simp]: "under p (p @ r)"
  by (auto simp: under_iff)

lemma under_temporary: "under p q \<Longrightarrow> q \<noteq> p \<Longrightarrow> under p (temporary q)"
  by (auto simp: under_iff temporary_append)

text \<open>The store directory, what is below it and what leads to it.\<close>

definition store_side :: "path \<Rightarrow> path \<Rightarrow> bool" where
  "store_side base q \<longleftrightarrow> under base q \<or> prefix q base"

definition valid_name :: "string \<Rightarrow> bool" where
  "valid_name name \<longleftrightarrow> validate_owner_name name = Ok ()"

lemma valid_name_hd: "valid_name name \<Longrightarrow> name \<noteq> [] \<and> hd name \<noteq> CHR ''.''"
  by (cases name) (auto simp: valid_name_def validate_owner_name_def ascii_class_defs byte_def
      split: if_splits)

lemma owner_not_temporary: "valid_name m \<Longrightarrow> owner_path base m \<noteq> temporary (owner_path base n)"
  using valid_name_hd [of m] by (cases m) (auto simp: owner_path_def temporary_def butlast_append)

lemma staging_not_hash: "is_valid_hex_hash h \<Longrightarrow> \<not> under (staging_dir base rnd) (package_path base h @ r)"
  using hash_not_temporary [of h "''install-'' @ rnd"] by (auto simp: under_iff staging_dir_def package_path_def)

lemma package_disjoint: "h \<noteq> h' \<Longrightarrow> \<not> under (package_path base h) (package_path base h' @ r)"
  by (auto simp: under_iff package_path_def)

lemma leaves_write_package_file [frame]:
  assumes "\<And>q r. P q \<Longrightarrow> q = rt @ r \<Longrightarrow> r = []" "\<And>q. exact \<Longrightarrow> P q \<Longrightarrow> \<not> prefix q rt"
  shows "leaves exact P (write_package_file rt rel data)"
proof -
  let ?s = "split_on CHR ''/'' rel"
  have t: "temporary ?s \<noteq> []" by (simp add: temporary_def)
  have p: "\<not> P (rt @ ?s)" "\<not> P (temporary (rt @ ?s))"
    using assms(1) [of "rt @ ?s" ?s] assms(1) [of "rt @ temporary ?s" "temporary ?s"] t by (auto simp: temporary_append)
  have b: "\<not> prefix q (butlast (rt @ ?s))" if "exact" "P q" for q
  proof
    assume "prefix q (butlast (rt @ ?s))"
    then consider "prefix q rt" | us where "q = rt @ us"
      using prefix_butlast [of q "rt @ ?s"] by (auto simp: prefix_append)
    then show False using assms(1) [OF that(2)] assms(2) [OF that] by cases fastforce+
  qed
  show ?thesis
    unfolding write_package_file_def Let_def by (intro frame) (use p b in blast)+
qed

lemma stage_leaves:
  assumes "\<And>q. P q \<Longrightarrow> \<not> under (staging_dir base rnd) q" "\<And>q. exact \<Longrightarrow> P q \<Longrightarrow> \<not> prefix q (staging_dir base rnd)"
  shows "leaves exact P (stage_petal_package L base rnd package)"
proof -
  let ?t = "staging_dir base rnd"
  have u: "\<not> P (?t @ r)" for r using assms(1) [of "?t @ r"] by auto
  have b: "\<not> prefix q (?t @ r)" if "exact" "P q" for q r
    using assms that u by (auto simp: prefix_append)
  have s: "\<not> under (?t @ r) q" if "P q" for q r using u that by (auto simp: under_iff)
  have i: "\<not> P (temporary (?t @ [x]))" for x using u by (simp add: temporary_append)
  show ?thesis
    unfolding stage_petal_package_def fill_staging_def Let_def
    by (intro frame) (use u u [of "[]"] b s s [of _ "[]"] b [of _ "[]"] i in \<open>auto simp: give_def\<close>)
qed

lemma leaves_weaken: "leaves True P a \<Longrightarrow> leaves exact P a"
  unfolding leaves_def same_at_def unchanged_def by blast

lemma leaves_write_meta [frame]:
  "\<not> P (meta_path base (pm_hash m)) \<Longrightarrow> \<not> P (temporary (meta_path base (pm_hash m))) \<Longrightarrow>
   leaves exact P (write_meta L base m)"
  unfolding write_meta_def by (intro frame)

lemma leaves_write_petal_owner [frame]:
  "\<not> P (owner_path base name) \<Longrightarrow> \<not> P (temporary (owner_path base name)) \<Longrightarrow>
   leaves exact P (write_petal_owner L base name hash)"
  unfolding write_petal_owner_def by (intro frame)

lemma leaves_place_package [frame]:
  "(\<And>q. \<not> present \<Longrightarrow> P q \<Longrightarrow> \<not> under tmp q \<and> \<not> under (package_path base (pp_hash package)) q) \<Longrightarrow>
   leaves exact P (place_package L base tmp package present)"
  unfolding place_package_def by (intro frame) simp_all

lemma write_atomic_at:
  assumes "write_atomic p data w = (w', r)" "p \<noteq> []"
  shows "r = Ok () \<and> (\<exists>m. map_of (w_fs w') p = Some (Reg data m)) \<or>
    (\<exists>e. r = Err e) \<and> map_of (w_fs w') p = map_of (w_fs w) p"
proof -
  have w: "map_of (w_fs (fst (sys_write (temporary p) data w))) p = map_of (w_fs w) p"
    using leaves_write [of "\<lambda>q. q = p" "temporary p" True data] temporary_neq [OF assms(2)]
    by (auto simp: leaves_def same_at_def unchanged_def)
  consider (fail) e where "sys_write (temporary p) data w = (w', Err e)" "r = Err e"
    | (go) w1 where "sys_write (temporary p) data w = (w1, Ok ())" "sys_rename (temporary p) p w1 = (w', r)"
    using seq_cases [OF assms(1) [unfolded write_atomic_def]] by auto
  then show ?thesis
  proof cases
    case fail
    then show ?thesis using w by simp
  next
    case go
    have "\<exists>m. map_of (w_fs w1) (temporary p) = Some (Reg data m)"
      using go(1) by (auto simp: sys_write_def changing_def update_conv' split: prod.splits sum.splits option.splits call_fault.splits)
    then show ?thesis
      using go w by (auto simp: sys_rename_def changing_def fs_rename_def update_conv' split: option.splits if_splits)
  qed
qed

definition at_world :: "bool \<Rightarrow> (path \<Rightarrow> bool) \<Rightarrow> world \<Rightarrow> ('e, 'a) act \<Rightarrow> bool" where
  "at_world exact P w a \<longleftrightarrow> same_at exact P (w_fs w) (w_fs (fst (a w)))"

lemma at_world_leaves: "leaves exact P a \<Longrightarrow> at_world exact P w a"
  by (simp add: at_world_def leaves_def)

lemma at_world_seq:
  assumes "at_world exact P w a" "\<And>w1 x. a w = (w1, Ok x) \<Longrightarrow> at_world exact P w1 (k x)"
  shows "at_world exact P w (seq a k)"
proof -
  obtain w' r where s: "seq a k w = (w', r)" by (cases "seq a k w")
  consider e where "a w = (w', Err e)" | w1 x where "a w = (w1, Ok x)" "k x w1 = (w', r)"
    using seq_cases [OF s] by blast
  then show ?thesis
  proof cases
    case 1
    then show ?thesis using assms(1) s by (simp add: at_world_def)
  next
    case 2
    then show ?thesis
      using assms(1) assms(2) [OF 2(1)] s same_at_trans [of exact P "w_fs w" "w_fs w1" "w_fs w'"]
      by (simp add: at_world_def)
  qed
qed

lemma at_world_reading:
  "(\<And>x. f (w_fs w) = Ok x \<Longrightarrow> at_world exact P w (k x)) \<Longrightarrow> at_world exact P w (seq (reading f) k)"
  by (rule at_world_seq) (auto simp: at_world_def reading_def)

lemma at_world_give: "(\<And>x. r = Ok x \<Longrightarrow> at_world exact P w (k x)) \<Longrightarrow> at_world exact P w (seq (give r) k)"
  by (rule at_world_seq) (auto simp: at_world_def give_def)

text \<open>What an installation of \<open>hash\<close>, staged in \<open>tmp\<close>, leaves alone before it commits.\<close>

definition apart :: "path \<Rightarrow> path \<Rightarrow> string \<Rightarrow> path \<Rightarrow> bool" where
  "apart base tmp hash q \<longleftrightarrow> store_side base q \<and> \<not> under tmp q \<and> \<not> under (package_path base hash) q \<and>
     \<not> under (base @ [''meta'']) q"

lemma apart_owner: "apart base (staging_dir base rnd) hash (owner_path base m)"
  by (auto simp: apart_def store_side_def under_iff owner_path_def staging_dir_def package_path_def)

lemma apart_package:
  "is_valid_hex_hash h \<Longrightarrow> h \<noteq> hash \<Longrightarrow> apart base (staging_dir base rnd) hash (package_path base h @ r)"
  using staging_not_hash [of h base rnd r] package_disjoint [of hash h base r]
  by (auto simp: apart_def store_side_def under_iff package_path_def)

lemma strict_prefix_append:
  "strict_prefix q (base @ xs) \<Longrightarrow> prefix q base \<or> (\<exists>ys. q = base @ ys \<and> ys \<noteq> [] \<and> strict_prefix ys xs)"
  by (cases "prefix q base") (auto simp: strict_prefix_def prefix_append)

lemma prefix_apart: "prefix q base \<Longrightarrow> apart base (staging_dir base rnd) hash q"
  by (auto simp: apart_def store_side_def under_iff staging_dir_def package_path_def prefix_def)

lemma above_owner: "strict_prefix q (owner_path base m) \<Longrightarrow> apart base (staging_dir base rnd) hash q"
  using strict_prefix_append [of q base "[''owners'', m @ ''.json'']"] prefix_apart [of q base]
  by (auto simp: owner_path_def apart_def store_side_def under_iff staging_dir_def package_path_def
      strict_prefix_def prefix_Cons)

lemma above_package:
  assumes "strict_prefix q (package_path base h @ r)" "is_valid_hex_hash h" "h \<noteq> hash"
  shows "apart base (staging_dir base rnd) hash q"
proof -
  have "prefix q (base @ [''packages'']) \<or> (\<exists>r'. q = package_path base h @ r')"
    using strict_prefix_append [of q "base @ [''packages'']" "h # r"] assms(1)
    by (auto simp: package_path_def strict_prefix_def prefix_Cons)
  then show ?thesis
  proof
    assume "prefix q (base @ [''packages''])"
    then show ?thesis
      using prefix_apart [of q base]
      by (auto simp: prefix_append prefix_Cons apart_def store_side_def under_iff staging_dir_def package_path_def)
  qed (use apart_package [OF assms(2,3)] in blast)
qed

lemma tree_read_same:
  assumes "same_at True (\<lambda>q. q = p) fs fs'" "same_at False (\<lambda>q. strict_prefix q p) fs fs'"
  shows "tree_read fs' p = tree_read fs p"
proof (rule tree_read_cong)
  show "map_of fs' p = map_of fs p" using assms(1) by (simp add: same_at_def unchanged_def)
  show "is_reg (map_of fs' s) = is_reg (map_of fs s)" if "strict_prefix s p" for s
    using assms(2) that by (auto simp: same_at_def unchanged_def)
qed

lemma resolve_switch:
  assumes "tree_read fs' (owner_path base m) = tree_read fs (owner_path base m)"
    and other: "\<And>h. is_valid_hex_hash h \<Longrightarrow> h \<noteq> hash \<Longrightarrow> is_dir fs' (package_path base h) = is_dir fs (package_path base h)"
    and own: "is_dir fs (package_path base hash) \<Longrightarrow> is_dir fs' (package_path base hash)"
  shows "resolve_petal_owner L fs' base m = resolve_petal_owner L fs base m \<or>
    resolve_petal_owner L fs' base m = Ok (Some hash) \<and> resolve_petal_owner L fs base m = Err (P_NotFound [S hash]) \<and>
    \<not> is_dir fs (package_path base hash)"
proof (cases "tree_read fs (owner_path base m)")
  case (Inr b)
  show ?thesis
  proof (cases "\<exists>x. pl_dec_owner L b = Ok x \<and> validate_owner x = Ok ()")
    case True
    then obtain x where o: "pl_dec_owner L b = Ok x" "validate_owner x = Ok ()" by blast
    then have v: "is_valid_hex_hash (ao_hash x)"
      by (auto simp: validate_owner_def and_then_Ok_iff validate_hash_arg_def split: if_splits)
    show ?thesis
    proof (cases "ao_hash x = hash")
      case True
      then show ?thesis
        using assms(1) Inr o own by (auto simp: resolve_petal_owner_def owner_record_def serde_def and_then_def split: sum.splits)
    next
      case False
      then show ?thesis
        using assms(1) Inr o other [OF v False]
        by (auto simp: resolve_petal_owner_def owner_record_def serde_def and_then_def split: sum.splits)
    qed
  next
    case False
    then have "owner_record L fs' base m b = owner_record L fs base m b"
      by (auto simp: owner_record_def serde_def and_then_def split: sum.splits)
    then show ?thesis using assms(1) Inr by (simp add: resolve_petal_owner_def)
  qed
qed (use assms(1) in \<open>simp add: resolve_petal_owner_def\<close>)

lemma place_package_fails: "place_package L base tmp package present w = (w', Err e) \<Longrightarrow> w_fs w' = w_fs w"
  by (auto simp: place_package_def reading_def io_def failing_as_def sys_rename_dir_def changing_def rename_tree_def
      map_err_def split: if_splits option.splits prod.splits sum.splits)

lemma place_package_moves:
  assumes "place_package L base tmp package False w = (w', Ok x)" "pkg = package_path base (pp_hash package)"
    and "\<And>rel. map_of (w_fs w) pkg = None \<Longrightarrow> map_of (w_fs w) (pkg @ rel) = None" "\<And>rel. \<not> under tmp (pkg @ rel)"
    and "map_of (w_fs w) pkg = None"
  shows "map_of (w_fs w') (pkg @ rel) = map_of (w_fs w) (tmp @ rel)"
proof -
  have "w_fs w' = copy_tree (tree_of (w_fs w) tmp) tmp pkg @ remove_tree (w_fs w) tmp"
    using assms(1,2) by (auto simp: place_package_def io_def failing_as_def sys_rename_dir_def changing_def rename_tree_def
        map_err_def split: if_splits option.splits prod.splits sum.splits)
  then show ?thesis
    using assms(3) [of rel] assms(4) [of rel] assms(5) map_of_copy [of "tree_of (w_fs w) tmp" tmp pkg rel, OF tree_under]
    by (auto simp: map_add_def split: option.splits)
qed

lemma before_commit_Ok:
  assumes "before_commit L base guard prepare now tmp package source w = (w', Ok (present, meta))"
  shows "present = exists_at (w_fs w) (package_path base (pp_hash package)) \<and>
    (\<exists>existing w1. existing_meta L (w_fs w) base (pp_hash package) = Ok existing \<and>
      place_package L base tmp package present w = (w1, Ok ()) \<and>
      record_install L base guard prepare now package source existing w1 = (w', Ok meta))"
  using assms unfolding before_commit_def
  by (auto simp: seq_def reading_def give_def split: sum.splits prod.splits)

lemma record_install_Ok:
  assumes "record_install L base guard prepare now package source existing w = (w', Ok meta)"
  shows "\<exists>w1 c. meta = installed_meta L now package source existing c \<and>
    write_meta L base meta w = (w1, Ok ()) \<and> prepare meta w1 = (w', Ok ())"
  using assms unfolding record_install_def
  by (auto simp: seq_def reading_def give_def Let_def split: sum.splits prod.splits)

lemma fill_staging_dir: "leaves False (\<lambda>q. q = tmp) (fill_staging L tmp package)"
  unfolding fill_staging_def by (intro frame) (auto simp: temporary_append temporary_def)

lemma stage_Ok:
  assumes "stage_petal_package L base rnd package w = (w', Ok tmp)"
  shows "tmp = staging_dir base rnd" "is_valid_hex_hash (pp_hash package)" "map_of (w_fs w') tmp = Some Dir"
    "\<exists>md. map_of (w_fs w') (tmp @ [''route-index.json'']) = Some (Reg (pl_enc_index L (pp_index package)) md)"
proof -
  obtain w1 where s: "tmp = staging_dir base rnd" "is_valid_hex_hash (pp_hash package)"
    "io (sys_mkdir tmp) w = (w1, Ok ())" "fill_staging L tmp package w1 = (w', Ok ())"
    using assms unfolding stage_petal_package_def Let_def
    by (auto simp: seq_def give_def dropping_on_error_def dropping_def validate_hash_arg_def is_ok_iff
        split: sum.splits prod.splits if_splits)
  then show "tmp = staging_dir base rnd" "is_valid_hex_hash (pp_hash package)" by simp_all
  have "map_of (w_fs w1) tmp = Some Dir"
    using s(3) by (auto simp: io_def failing_as_def sys_mkdir_def changing_def update_conv' map_err_Ok_iff
        split: prod.splits if_splits option.splits)
  then show "map_of (w_fs w') tmp = Some Dir"
    using leavesD [OF fill_staging_dir s(4)] by (auto simp: same_at_def unchanged_def)
  obtain w2 where "write_atomic (tmp @ [''route-index.json'']) (pl_enc_index L (pp_index package)) w2 = (w', Ok ())"
    using s(4) unfolding fill_staging_def
    by (auto simp: seq_def io_def failing_as_def map_err_Ok_iff split: sum.splits prod.splits)
  from write_atomic_at [OF this]
  show "\<exists>md. map_of (w_fs w') (tmp @ [''route-index.json'']) = Some (Reg (pl_enc_index L (pp_index package)) md)" by auto
qed

text \<open>Every entry of a well-formed tree is in a directory.\<close>

definition tree_ok :: "file_system \<Rightarrow> bool" where
  "tree_ok fs \<longleftrightarrow> list_all (\<lambda>(q, _). length q \<le> 1 \<or> map_of fs (butlast q) = Some Dir) fs"

lemma tree_ok_parent: "tree_ok fs \<Longrightarrow> p \<noteq> [] \<Longrightarrow> map_of fs (p @ [x]) \<noteq> None \<Longrightarrow> map_of fs p = Some Dir"
  by (force simp: tree_ok_def list_all_iff dest: map_of_SomeD)

lemma tree_ok_absent: "tree_ok fs \<Longrightarrow> p \<noteq> [] \<Longrightarrow> map_of fs p = None \<Longrightarrow> map_of fs (p @ rel) = None"
proof (induction rel rule: rev_induct)
  case (snoc x rel)
  then show ?case using tree_ok_parent [of fs "p @ rel" x] by force
qed simp

lemma same_at_eq: "same_at True P fs fs' \<Longrightarrow> P q \<Longrightarrow> map_of fs' q = map_of fs q"
  by (simp add: same_at_def unchanged_def)

lemma remove_dir_leaves: "\<not> under p q \<Longrightarrow> map_of (w_fs (fst (sys_remove_dir_all p w))) q = map_of (w_fs w) q"
  using leaves_remove_dir_all [of "\<lambda>x. x = q" p True] same_at_eq unfolding leaves_def by blast

lemma write_petal_owner_at:
  assumes "write_petal_owner L base name hash w = (w', r)"
  shows "is_ok r \<and> valid_name name \<and> is_valid_hex_hash hash \<and>
      (\<exists>md. map_of (w_fs w') (owner_path base name) = Some (Reg (pl_enc_owner L \<lparr>ao_name = name, ao_hash = hash\<rparr>) md)) \<or>
    \<not> is_ok r \<and> map_of (w_fs w') (owner_path base name) = map_of (w_fs w) (owner_path base name)"
proof (cases "valid_name name \<and> is_valid_hex_hash hash")
  case True
  obtain w1 ra where a: "write_atomic (owner_path base name) (pl_enc_owner L \<lparr>ao_name = name, ao_hash = hash\<rparr>) w = (w1, ra)"
    by (cases "write_atomic (owner_path base name) (pl_enc_owner L \<lparr>ao_name = name, ao_hash = hash\<rparr>) w")
  have "w' = w1 \<and> is_ok r = is_ok ra"
    using assms True a by (cases ra) (auto simp: write_petal_owner_def seq_def give_def valid_name_def validate_hash_arg_def
        io_def failing_as_def)
  then show ?thesis using write_atomic_at [OF a] True by (auto simp: owner_path_def)
next
  case False
  then have "w' = w \<and> \<not> is_ok r"
    using assms
    by (cases "validate_owner_name name") (auto simp: write_petal_owner_def seq_def give_def valid_name_def validate_hash_arg_def
        is_ok_iff)
  then show ?thesis by simp
qed

text \<open>Successful reads, by the entries they depend on.\<close>

lemma tree_read_Ok_iff: "tree_read fs p = Ok b \<longleftrightarrow> (\<exists>md. map_of fs p = Some (Reg b md))"
  by (auto simp: tree_read_def split: option.splits tnode.splits)

lemma load_meta_Ok_iff:
  "load_meta L fs base h = Ok m \<longleftrightarrow>
     is_valid_hex_hash h \<and> (\<exists>b md. map_of fs (meta_path base h) = Some (Reg b md) \<and> pl_dec_meta L b = Ok m)"
  by (auto simp: load_meta_def validate_hash_arg_def read_found_def serde_def and_then_Ok_iff map_err_Ok_iff tree_read_Ok_iff)

lemma load_route_index_Ok_iff:
  "load_route_index L fs base h = Ok i \<longleftrightarrow>
     is_valid_hex_hash h \<and> (\<exists>b md. map_of fs (route_index_path base h) = Some (Reg b md) \<and> pl_dec_index L b = Ok i)"
  by (auto simp: load_route_index_def validate_hash_arg_def read_found_def serde_def and_then_Ok_iff map_err_Ok_iff tree_read_Ok_iff)

lemma resolve_Ok_iff:
  "resolve_petal_owner L fs base m = Ok (Some h) \<longleftrightarrow>
     valid_name m \<and> is_valid_hex_hash h \<and> is_dir fs (package_path base h) \<and>
     (\<exists>b md. map_of fs (owner_path base m) = Some (Reg b md) \<and> pl_dec_owner L b = Ok \<lparr>ao_name = m, ao_hash = h\<rparr>)"
proof -
  have "owner_record L fs base m b = Ok (Some h) \<longleftrightarrow>
      pl_dec_owner L b = Ok \<lparr>ao_name = m, ao_hash = h\<rparr> \<and> is_valid_hex_hash h \<and> is_dir fs (package_path base h)"
    if "valid_name m" for b
  proof (cases "pl_dec_owner L b")
    case (Inr x)
    then show ?thesis
      using that by (cases x) (auto simp: owner_record_def serde_def and_then_Ok_iff validate_owner_def validate_hash_arg_def
          valid_name_def split: if_splits)
  qed (simp add: owner_record_def serde_def)
  then show ?thesis
    by (auto simp: resolve_petal_owner_def and_then_Ok_iff valid_name_def tree_read_Ok_iff [symmetric] split: sum.splits if_splits)
qed

lemma installed_meta_fields:
  assumes "existing_meta L fs base (pp_hash package) = Ok existing"
    "\<forall>m. load_meta L fs base (pp_hash package) = Ok m \<longrightarrow> pm_hash m = pp_hash package"
  shows "pm_hash (installed_meta L now package source existing c) = pp_hash package"
    "\<exists>app. pm_petal (installed_meta L now package source existing c) = Some app \<and> gm_name app = pp_name package"
  using assms by (auto simp: existing_meta_def installed_meta_def new_meta_def Let_def
      split: sum.splits petal_error.splits if_splits)

text \<open>The preparation of the private state works outside the store.\<close>

locale activation =
  fixes prepare :: "petal_meta \<Rightarrow> (petal_error, unit) act" and base :: path
  assumes prepare_outside: "leaves True (store_side base) (prepare m)"
begin

lemma prepare_leaves: "(\<And>q. P q \<Longrightarrow> store_side base q) \<Longrightarrow> leaves exact P (prepare m)"
  using leaves_mono [OF leaves_weaken [OF prepare_outside]] by blast

lemma record_install_leaves:
  assumes "\<And>q. P q \<Longrightarrow> store_side base q \<and> \<not> under (base @ [''meta'']) q"
  shows "leaves exact P (record_install L base guard prepare now package source existing)"
proof -
  have "under (base @ [''meta'']) (meta_path base h)" "under (base @ [''meta'']) (temporary (meta_path base h))" for h
    by (auto simp: under_iff meta_path_def temporary_def butlast_append)
  then have "\<not> P (meta_path base h)" "\<not> P (temporary (meta_path base h))" for h
    using assms by blast+
  then show ?thesis
    unfolding record_install_def Let_def by (intro frame prepare_leaves) (use assms in auto)
qed

lemma before_commit_leaves:
  "(\<And>q. P q \<Longrightarrow> apart base tmp (pp_hash package) q) \<Longrightarrow>
   leaves exact P (before_commit L base guard prepare now tmp package source)"
  unfolding before_commit_def by (intro frame record_install_leaves) (auto simp: apart_def)

lemma before_commit_tree:
  assumes run: "before_commit L base guard prepare now tmp package source w = (w', r)"
    and pkg: "pkg = package_path base (pp_hash package)"
    and absent: "\<And>rel. map_of (w_fs w) pkg = None \<Longrightarrow> map_of (w_fs w) (pkg @ rel) = None"
    and apart: "\<And>rel. \<not> under tmp (pkg @ rel)"
  shows "(\<forall>rel. map_of (w_fs w') (pkg @ rel) = map_of (w_fs w) (pkg @ rel)) \<or>
    \<not> exists_at (w_fs w) pkg \<and> (\<forall>rel. map_of (w_fs w') (pkg @ rel) = map_of (w_fs w) (tmp @ rel))"
proof -
  let ?P = "\<lambda>q. \<exists>rel. q = pkg @ rel"
  let ?rec = "\<lambda>present existing. seq (record_install L base guard prepare now package source existing) (\<lambda>meta. give (Ok (present, meta)))"
  have rec: "leaves True ?P (?rec present existing)" for present existing
    by (intro frame record_install_leaves) (auto simp: store_side_def under_iff pkg package_path_def)
  have same: "\<forall>rel. map_of (w_fs v') (pkg @ rel) = map_of (w_fs v) (pkg @ rel)" if "same_at True ?P (w_fs v) (w_fs v')" for v v'
    using that by (auto simp: same_at_def unchanged_def)
  show ?thesis
  proof (cases "exists_at (w_fs w) pkg")
    case True
    have "at_world True ?P w (before_commit L base guard prepare now tmp package source)"
      unfolding before_commit_def pkg [symmetric] using True
      by (intro at_world_reading at_world_give at_world_leaves leaves_seq [OF _ rec] frame) auto
    then show ?thesis using same [of w w'] run by (simp add: at_world_def)
  next
    case False
    consider e where "w' = w" | existing where
        "seq (place_package L base tmp package False) (\<lambda>_. ?rec False existing) w = (w', r)"
      using run False unfolding before_commit_def pkg [symmetric]
      by (auto simp: seq_def reading_def give_def split: sum.splits)
    then show ?thesis
    proof cases
      case 2
      show ?thesis
        using seq_cases [OF 2]
      proof (elim disjE exE conjE)
        fix e
        assume "place_package L base tmp package False w = (w', Err e)"
        then show ?thesis by (simp add: place_package_fails)
      next
        fix w1 x
        assume a: "place_package L base tmp package False w = (w1, Ok x)" "?rec False existing w1 = (w', r)"
        then show ?thesis
          using place_package_moves [OF a(1) pkg absent apart] same [OF leavesD [OF rec a(2)]] False
          by (simp add: exists_at_def)
      qed
    qed simp
  qed
qed

lemma before_commit_metas:
  assumes "\<forall>m. load_meta L (w_fs w) base (pp_hash package) = Ok m \<longrightarrow> pm_hash m = pp_hash package"
    and "is_valid_hex_hash h" "h \<noteq> pp_hash package"
  shows "at_world True (\<lambda>q. q = meta_path base h) w
    (before_commit L base guard prepare now (staging_dir base rnd) package source)"
proof -
  have d: "meta_path base h \<noteq> meta_path base (pp_hash package)" "meta_path base h \<noteq> temporary (meta_path base (pp_hash package))"
    using assms(2,3) hash_not_temporary [OF assms(2)] by (auto simp: meta_path_def temporary_def butlast_append)
  have "leaves True (\<lambda>q. q = meta_path base h) (record_install L base guard prepare now package source existing)"
    if "existing_meta L (w_fs w) base (pp_hash package) = Ok existing" for existing
  proof -
    have "pm_hash (installed_meta L now package source existing c) = pp_hash package" for c
      using installed_meta_fields(1) [OF that assms(1)] .
    then show ?thesis
      unfolding record_install_def Let_def using d
      by (intro frame prepare_leaves) (auto simp: store_side_def under_iff meta_path_def)
  qed
  then show ?thesis
    unfolding before_commit_def
    by (intro at_world_reading at_world_give at_world_leaves frame)
      (auto simp: under_iff staging_dir_def meta_path_def package_path_def)
qed

lemma before_commit_index:
  assumes run: "before_commit L base guard prepare now tmp package source w = (w', Ok (present, meta))"
    and pkg: "pkg = package_path base (pp_hash package)"
    and absent: "\<And>rel. map_of (w_fs w) pkg = None \<Longrightarrow> map_of (w_fs w) (pkg @ rel) = None"
    and apart: "\<And>rel. \<not> under tmp (pkg @ rel)"
    and staged: "map_of (w_fs w) tmp = Some Dir" "map_of (w_fs w) (tmp @ [''route-index.json'']) = Some (Reg (pl_enc_index L (pp_index package)) md)"
    and lib: "pl_dec_index L (pl_enc_index L (pp_index package)) = Ok (pp_index package)" "is_valid_hex_hash (pp_hash package)"
  shows "load_route_index L (w_fs w') base (pp_hash package) = Ok (pp_index package)"
proof (cases "map_of (w_fs w) pkg")
  case None
  then obtain w1 existing where a: "place_package L base tmp package False w = (w1, Ok ())"
    "record_install L base guard prepare now package source existing w1 = (w', Ok meta)"
    using before_commit_Ok [OF run] by (auto simp: exists_at_def pkg)
  have "leaves True (\<lambda>q. \<exists>rel. q = pkg @ rel) (record_install L base guard prepare now package source existing)"
    by (intro record_install_leaves) (auto simp: store_side_def under_iff pkg package_path_def)
  from leavesD [OF this a(2)] have "map_of (w_fs w') (pkg @ rel) = map_of (w_fs w1) (pkg @ rel)" for rel
    by (auto simp: same_at_def unchanged_def)
  then have "tree_read (w_fs w') (route_index_path base (pp_hash package)) = Ok (pl_enc_index L (pp_index package))"
    using place_package_moves [OF a(1) pkg absent apart None] staged(2)
    by (simp add: tree_read_def route_index_path_def pkg)
  then show ?thesis using lib by (simp add: load_route_index_def validate_hash_arg_def read_found_def serde_def)
next
  case (Some nd)
  have v: "verify_existing_petal_package L (w_fs w) base package = Ok ()"
    using before_commit_Ok [OF run] Some by (auto simp: place_package_def reading_def exists_at_def pkg)
  have i: "load_route_index L (w_fs w) base (pp_hash package) = Ok (pp_index package)"
    using v by (auto simp: verify_existing_petal_package_def Let_def and_then_Ok_iff split: if_splits)
  have "\<forall>rel. map_of (w_fs w') (pkg @ rel) = map_of (w_fs w) (pkg @ rel)"
    using before_commit_tree [OF run pkg absent apart] Some by (simp add: exists_at_def)
  then have "map_of (w_fs w') (route_index_path base (pp_hash package)) = map_of (w_fs w) (route_index_path base (pp_hash package))"
    by (simp add: route_index_path_def pkg)
  then show ?thesis
    using i by (auto simp: load_route_index_def read_found_def tree_read_def and_then_Ok_iff map_err_Ok_iff
        split: option.splits tnode.splits)
qed

lemma install_staged_leaves:
  assumes "\<And>q. P q \<Longrightarrow> apart base tmp (pp_hash package) q \<and> q \<noteq> owner_path base (pp_name package) \<and>
      q \<noteq> temporary (owner_path base (pp_name package))"
  shows "leaves exact P (install_staged_petal_package_with_activation L base busy guard prepare now tmp package source)"
  unfolding install_staged_petal_package_with_activation_def case_prod_unfold
  by (intro frame before_commit_leaves) (use assms in \<open>auto simp: apart_def\<close>)

lemma install_leaves:
  assumes "\<And>q. P q \<Longrightarrow> apart base (staging_dir base rnd) (pp_hash package) q \<and> q \<noteq> owner_path base (pp_name package) \<and>
      q \<noteq> temporary (owner_path base (pp_name package)) \<and> (exact \<longrightarrow> \<not> prefix q (staging_dir base rnd))"
  shows "at_world exact P w (install_petal_package L base busy guard prepare now rnd package source)"
  unfolding install_petal_package_def
proof (rule at_world_seq)
  show "at_world exact P w (stage_petal_package L base rnd package)"
    using assms by (intro at_world_leaves stage_leaves) (auto simp: apart_def)
  show "at_world exact P w1 (install_staged_petal_package_with_activation L base busy guard prepare now tmp package source)"
    if "stage_petal_package L base rnd package w = (w1, Ok tmp)" for w1 tmp
    using assms unfolding stage_Ok(1) [OF that] by (intro at_world_leaves install_staged_leaves) auto
qed

lemma stage_keeps:
  assumes "stage_petal_package L base rnd package w = (w', r)" "\<not> under (staging_dir base rnd) q" "\<not> prefix q (staging_dir base rnd)"
  shows "map_of (w_fs w') q = map_of (w_fs w) q"
proof -
  have l: "leaves True (\<lambda>x. x = q) (stage_petal_package L base rnd package)"
    by (rule stage_leaves) (use assms(2,3) in simp_all)
  show ?thesis by (rule same_at_eq [OF leavesD [OF l assms(1)]]) simp
qed

lemma before_commit_keeps:
  assumes "before_commit L base guard prepare now tmp package source w = (w', r)" "apart base tmp (pp_hash package) q"
  shows "map_of (w_fs w') q = map_of (w_fs w) q"
proof -
  have l: "leaves True (\<lambda>x. x = q) (before_commit L base guard prepare now tmp package source)"
    by (rule before_commit_leaves) (use assms(2) in simp)
  show ?thesis by (rule same_at_eq [OF leavesD [OF l assms(1)]]) simp
qed

text \<open>The stages of an installation and where it can stop.\<close>

lemma install_stages:
  assumes "install_petal_package L base busy guard prepare now rnd package source w = (w', r)"
  shows "(\<exists>e. r = Err e \<and> stage_petal_package L base rnd package w = (w', Err e)) \<or>
    (\<exists>w0 w1. stage_petal_package L base rnd package w = (w0, Ok (staging_dir base rnd)) \<and>
      w' = fst (sys_remove_dir_all (staging_dir base rnd) w1) \<and>
      (w1 = w0 \<and> \<not> is_ok r \<or>
       (\<exists>e. before_commit L base guard prepare now (staging_dir base rnd) package source w0 = (w1, Err e) \<and> r = Err e) \<or>
       (\<exists>w2 present meta. before_commit L base guard prepare now (staging_dir base rnd) package source w0 = (w2, Ok (present, meta)) \<and>
          (w1 = w2 \<and> \<not> is_ok r \<or>
           (\<exists>ro. write_petal_owner L base (pp_name package) (pp_hash package) w2 = (w1, ro) \<and> is_ok r = is_ok ro)))))"
proof (cases "stage_petal_package L base rnd package w")
  case (Pair w0 rs)
  show ?thesis
  proof (cases rs)
    case (Inl e)
    then show ?thesis using assms Pair by (simp add: install_petal_package_def seq_def)
  next
    case (Inr tmp)
    then have s: "stage_petal_package L base rnd package w = (w0, Ok (staging_dir base rnd))"
      using Pair stage_Ok(1) by auto
    show ?thesis
      using assms
      unfolding install_petal_package_def seq_def [of "stage_petal_package L base rnd package"] s
        install_staged_petal_package_with_activation_def dropping_def
      by (fastforce simp: seq_def give_def reading_def is_ok_iff split: sum.splits prod.splits)
  qed
qed

lemma install_owner:
  assumes run: "install_petal_package L base busy guard prepare now rnd package source w = (w', r)"
  shows "map_of (w_fs w') (owner_path base (pp_name package)) = map_of (w_fs w) (owner_path base (pp_name package)) \<or>
    is_ok r"
proof -
  let ?t = "staging_dir base rnd" and ?o = "owner_path base (pp_name package)"
  have a: "apart base ?t (pp_hash package) ?o" by (rule apart_owner)
  have t: "\<not> under ?t ?o" "\<not> prefix ?o ?t" using a by (auto simp: apart_def owner_path_def staging_dir_def)
  note steps = stage_keeps [OF _ t] before_commit_keeps [OF _ a] remove_dir_leaves [OF t(1)]
  show ?thesis
    using install_stages [OF run]
  proof (elim disjE exE conjE)
    fix w0 w1 w2 present meta ro
    assume o: "write_petal_owner L base (pp_name package) (pp_hash package) w2 = (w1, ro)" "is_ok r = is_ok ro"
      and *: "stage_petal_package L base rnd package w = (w0, Ok ?t)" "w' = fst (sys_remove_dir_all ?t w1)"
        "before_commit L base guard prepare now ?t package source w0 = (w2, Ok (present, meta))"
    have "is_ok ro \<or> map_of (w_fs w1) ?o = map_of (w_fs w2) ?o"
      using write_petal_owner_at [OF o(1)] by blast
    then show ?thesis
      using o(2) steps(1) [OF *(1)] steps(2) [OF *(3)] steps(3) [of w1] *(2) by fastforce
  next
    fix w0 w1 e
    assume *: "stage_petal_package L base rnd package w = (w0, Ok ?t)" "w' = fst (sys_remove_dir_all ?t w1)"
      "before_commit L base guard prepare now ?t package source w0 = (w1, Err e)"
    show ?thesis using steps(1) [OF *(1)] steps(2) [OF *(3)] steps(3) [of w1] *(2) by simp
  next
    fix w0 w1 w2 present meta
    assume *: "stage_petal_package L base rnd package w = (w0, Ok ?t)" "w' = fst (sys_remove_dir_all ?t w1)"
      "before_commit L base guard prepare now ?t package source w0 = (w2, Ok (present, meta))" "w1 = w2"
    show ?thesis using steps(1) [OF *(1)] steps(2) [OF *(3)] steps(3) [of w1] *(2,4) by simp
  next
    fix w0 w1
    assume *: "stage_petal_package L base rnd package w = (w0, Ok ?t)" "w' = fst (sys_remove_dir_all ?t w1)" "w1 = w0"
    show ?thesis using steps(1) [OF *(1)] steps(3) [of w1] *(2,3) by simp
  next
    fix e
    assume *: "stage_petal_package L base rnd package w = (w', Err e)"
    show ?thesis using steps(1) [OF *] by simp
  qed
qed

lemma install_tree:
  assumes run: "install_petal_package L base busy guard prepare now rnd package source w = (w', r)"
    and tree: "tree_ok (w_fs w)" and pkg: "pkg = package_path base (pp_hash package)"
    and valid: "is_valid_hex_hash (pp_hash package)"
  shows "(\<forall>rel. map_of (w_fs w') (pkg @ rel) = map_of (w_fs w) (pkg @ rel)) \<or>
    \<not> exists_at (w_fs w) pkg \<and> map_of (w_fs w') pkg = Some Dir \<and>
    (\<exists>md. map_of (w_fs w') (pkg @ [''route-index.json'']) = Some (Reg (pl_enc_index L (pp_index package)) md))"
proof -
  let ?t = "staging_dir base rnd"
  have t: "\<not> under ?t (pkg @ rel)" "\<not> prefix (pkg @ rel) ?t" for rel
    using staging_not_hash [OF valid, of base rnd rel] hash_not_temporary [OF valid, of "''install-'' @ rnd"]
    by (auto simp: pkg package_path_def staging_dir_def)
  have owner: "map_of (w_fs v') (pkg @ rel) = map_of (w_fs v) (pkg @ rel)"
    if o: "write_petal_owner L base n h v = (v', x)" for n h v v' x rel
  proof -
    have l: "leaves True (\<lambda>q. q = pkg @ rel) (write_petal_owner L base n h)"
      by (rule leaves_write_petal_owner) (auto simp: pkg package_path_def owner_path_def temporary_def butlast_append)
    show ?thesis by (rule same_at_eq [OF leavesD [OF l o]]) simp
  qed
  have staged: ?thesis if s: "stage_petal_package L base rnd package w = (w0, Ok ?t)"
      "before_commit L base guard prepare now ?t package source w0 = (w2, x)"
      "\<And>rel. map_of (w_fs w') (pkg @ rel) = map_of (w_fs w2) (pkg @ rel)" for w0 w2 x
  proof -
    have eq: "map_of (w_fs w0) (pkg @ rel) = map_of (w_fs w) (pkg @ rel)" for rel by (rule stage_keeps [OF s(1) t])
    have "map_of (w_fs w0) (pkg @ rel) = None" if "map_of (w_fs w0) pkg = None" for rel
      using that eq eq [of "[]"] tree_ok_absent [OF tree, of pkg rel] by (simp add: pkg package_path_def)
    from before_commit_tree [OF s(2) pkg this t(1)] show ?thesis
      using eq eq [of "[]"] s(3) s(3) [of "[]"] stage_Ok(3,4) [OF s(1)] by (auto simp: exists_at_def) (metis append_Nil2)+
  qed
  note steps = stage_keeps [OF _ t] remove_dir_leaves [OF t(1)] owner
  show ?thesis
    using install_stages [OF run] staged steps by (elim disjE exE conjE) (auto simp: steps)
qed

lemma before_commit_meta:
  assumes run: "before_commit L base guard prepare now tmp package source w = (w', Ok (present, meta))"
    and named: "\<forall>m. load_meta L (w_fs w) base (pp_hash package) = Ok m \<longrightarrow> pm_hash m = pp_hash package"
  shows "(\<exists>md. map_of (w_fs w') (meta_path base (pp_hash package)) = Some (Reg (pl_enc_meta L meta) md)) \<and>
    pm_hash meta = pp_hash package \<and> (\<exists>app. pm_petal meta = Some app \<and> gm_name app = pp_name package)"
proof -
  obtain existing w1 where b: "existing_meta L (w_fs w) base (pp_hash package) = Ok existing"
    "record_install L base guard prepare now package source existing w1 = (w', Ok meta)"
    using before_commit_Ok [OF run] by blast
  obtain w2 c where r: "meta = installed_meta L now package source existing c" "write_meta L base meta w1 = (w2, Ok ())"
    "prepare meta w2 = (w', Ok ())" using record_install_Ok [OF b(2)] by blast
  note f = installed_meta_fields [OF b(1) named, of now source c, folded r(1)]
  have "write_atomic (meta_path base (pp_hash package)) (pl_enc_meta L meta) w1 = (w2, Ok ())"
    using r(2) f(1) by (auto simp: write_meta_def io_def failing_as_def map_err_Ok_iff split: prod.splits)
  from write_atomic_at [OF this] have "\<exists>md. map_of (w_fs w2) (meta_path base (pp_hash package)) = Some (Reg (pl_enc_meta L meta) md)"
    by (auto simp: meta_path_def)
  moreover have "map_of (w_fs w') (meta_path base (pp_hash package)) = map_of (w_fs w2) (meta_path base (pp_hash package))"
    by (rule same_at_eq [OF leavesD [OF prepare_outside r(3)]]) (auto simp: store_side_def under_iff meta_path_def)
  ultimately show ?thesis using f by simp
qed

lemma install_Ok:
  assumes run: "install_petal_package L base busy guard prepare now rnd package source w = (w', r)" "is_ok r"
    and tree: "tree_ok (w_fs w)"
    and named: "\<forall>m. load_meta L (w_fs w) base (pp_hash package) = Ok m \<longrightarrow> pm_hash m = pp_hash package"
    and lib: "pl_dec_index L (pl_enc_index L (pp_index package)) = Ok (pp_index package)"
  shows "load_route_index L (w_fs w') base (pp_hash package) = Ok (pp_index package)"
    "\<exists>md. map_of (w_fs w') (owner_path base (pp_name package)) =
       Some (Reg (pl_enc_owner L \<lparr>ao_name = pp_name package, ao_hash = pp_hash package\<rparr>) md)"
    "valid_name (pp_name package)" "is_valid_hex_hash (pp_hash package)"
    "\<exists>m md app. map_of (w_fs w') (meta_path base (pp_hash package)) = Some (Reg (pl_enc_meta L m) md) \<and>
       pm_hash m = pp_hash package \<and> pm_petal m = Some app \<and> gm_name app = pp_name package"
proof -
  let ?t = "staging_dir base rnd" and ?o = "owner_path base (pp_name package)" and ?m = "meta_path base (pp_hash package)"
    and ?p = "package_path base (pp_hash package)" and ?i = "route_index_path base (pp_hash package)"
  obtain w0 w1 w2 present meta ro where s: "stage_petal_package L base rnd package w = (w0, Ok ?t)"
    "w' = fst (sys_remove_dir_all ?t w1)"
    "before_commit L base guard prepare now ?t package source w0 = (w2, Ok (present, meta))"
    "write_petal_owner L base (pp_name package) (pp_hash package) w2 = (w1, ro)" "is_ok ro"
    using install_stages [OF run(1)] run(2) by auto
  note o = write_petal_owner_at [OF s(4)]
  then show valid: "valid_name (pp_name package)" "is_valid_hex_hash (pp_hash package)" using s(5) by auto
  have t: "\<not> under ?t (?p @ rel)" "\<not> prefix (?p @ rel) ?t" for rel
    using staging_not_hash [OF valid(2), of base rnd rel] hash_not_temporary [OF valid(2), of "''install-'' @ rnd"]
    by (auto simp: package_path_def staging_dir_def)
  have tm: "\<not> under ?t ?m" "\<not> prefix ?m ?t" "\<not> under ?t ?o" "\<not> under ?t ?i"
    using t(1) [of "[''route-index.json'']"] by (auto simp: under_iff meta_path_def owner_path_def staging_dir_def route_index_path_def)
  have keep: "map_of (w_fs w') q = map_of (w_fs w2) q" if "q = ?m \<or> q = ?i" for q
  proof -
    have l: "leaves True (\<lambda>x. x = q) (write_petal_owner L base (pp_name package) (pp_hash package))"
      using that by (intro leaves_write_petal_owner)
        (auto simp: meta_path_def route_index_path_def package_path_def owner_path_def temporary_def butlast_append)
    have "map_of (w_fs w1) q = map_of (w_fs w2) q" by (rule same_at_eq [OF leavesD [OF l s(4)]]) simp
    then show ?thesis using remove_dir_leaves [of ?t q w1] tm that s(2) by auto
  qed
  show "\<exists>md. map_of (w_fs w') ?o = Some (Reg (pl_enc_owner L \<lparr>ao_name = pp_name package, ao_hash = pp_hash package\<rparr>) md)"
    using o s(5) remove_dir_leaves [OF tm(3), of w1] s(2) by auto
  have named0: "\<forall>m. load_meta L (w_fs w0) base (pp_hash package) = Ok m \<longrightarrow> pm_hash m = pp_hash package"
    using named stage_keeps [OF s(1) tm(1,2)] by (simp add: load_meta_Ok_iff)
  show "\<exists>m md app. map_of (w_fs w') ?m = Some (Reg (pl_enc_meta L m) md) \<and>
       pm_hash m = pp_hash package \<and> pm_petal m = Some app \<and> gm_name app = pp_name package"
    using before_commit_meta [OF s(3) named0] keep by auto
  have eq: "map_of (w_fs w0) (?p @ rel) = map_of (w_fs w) (?p @ rel)" for rel by (rule stage_keeps [OF s(1) t])
  have "map_of (w_fs w0) (?p @ rel) = None" if "map_of (w_fs w0) ?p = None" for rel
    using that eq eq [of "[]"] tree_ok_absent [OF tree, of ?p rel] by (simp add: package_path_def)
  then have "load_route_index L (w_fs w2) base (pp_hash package) = Ok (pp_index package)"
    using before_commit_index [OF s(3) refl _ t(1) stage_Ok(3) [OF s(1)] _ lib valid(2)] stage_Ok(4) [OF s(1)] by blast
  then show "load_route_index L (w_fs w') base (pp_hash package) = Ok (pp_index package)"
    using keep by (simp add: load_route_index_Ok_iff)
qed

lemma resolve_invalid: "\<not> valid_name m \<Longrightarrow> \<exists>e. \<forall>fs. resolve_petal_owner L fs base m = Err e"
  by (cases "validate_owner_name m") (auto simp: valid_name_def resolve_petal_owner_def)

lemma install_other_paths:
  assumes run: "install_petal_package L base busy guard prepare now rnd package source w = (w', r)"
    and "apart base (staging_dir base rnd) (pp_hash package) q" "q \<noteq> owner_path base (pp_name package)"
      "q \<noteq> temporary (owner_path base (pp_name package))" "\<not> prefix q (staging_dir base rnd)"
  shows "map_of (w_fs w') q = map_of (w_fs w) q"
proof -
  have "at_world True (\<lambda>x. x = q) w (install_petal_package L base busy guard prepare now rnd package source)"
    by (rule install_leaves) (use assms(2-) in simp)
  then show ?thesis using run same_at_eq [of "\<lambda>x. x = q" "w_fs w" "w_fs w'" q] by (simp add: at_world_def)
qed

lemma install_above:
  assumes run: "install_petal_package L base busy guard prepare now rnd package source w = (w', r)"
    and "\<And>q. strict_prefix q p \<Longrightarrow> apart base (staging_dir base rnd) (pp_hash package) q \<and> length q < length base + 2"
  shows "same_at False (\<lambda>q. strict_prefix q p) (w_fs w) (w_fs w')"
proof -
  have "q \<noteq> owner_path base n \<and> q \<noteq> temporary (owner_path base n)" if "length q < length base + 2" for q n
    using that by (auto simp: owner_path_def temporary_def butlast_append)
  then have "at_world False (\<lambda>q. strict_prefix q p) w (install_petal_package L base busy guard prepare now rnd package source)"
    by (intro install_leaves) (use assms(2) in blast)
  then show ?thesis using run by (simp add: at_world_def)
qed

lemma install_resolve:
  assumes run: "install_petal_package L base busy guard prepare now rnd package source w = (w', r)"
    and tree: "tree_ok (w_fs w)" and valid: "is_valid_hex_hash (pp_hash package)"
    and m: "m \<noteq> pp_name package \<or> \<not> is_ok r"
  shows "resolve_petal_owner L (w_fs w') base m = resolve_petal_owner L (w_fs w) base m \<or>
    resolve_petal_owner L (w_fs w') base m = Ok (Some (pp_hash package)) \<and>
    resolve_petal_owner L (w_fs w) base m = Err (P_NotFound [S (pp_hash package)]) \<and>
    \<not> is_dir (w_fs w) (package_path base (pp_hash package))"
proof (cases "valid_name m")
  case True
  let ?o = "owner_path base m"
  have o: "map_of (w_fs w') ?o = map_of (w_fs w) ?o"
  proof (cases "m = pp_name package")
    case True
    then show ?thesis using install_owner [OF run] m by auto
  next
    case False
    show ?thesis
      by (rule install_other_paths [OF run apart_owner])
        (use False owner_not_temporary [OF True] in \<open>auto simp: owner_path_def staging_dir_def\<close>)
  qed
  have "tree_read (w_fs w') ?o = tree_read (w_fs w) ?o"
  proof (rule tree_read_same)
    show "same_at True (\<lambda>q. q = ?o) (w_fs w) (w_fs w')" using o by (simp add: same_at_def unchanged_def)
    show "same_at False (\<lambda>q. strict_prefix q ?o) (w_fs w) (w_fs w')"
      by (rule install_above [OF run])
        (use above_owner prefix_length_less in \<open>fastforce simp: owner_path_def\<close>)
  qed
  then show ?thesis
  proof (rule resolve_switch)
    show "is_dir (w_fs w') (package_path base h) = is_dir (w_fs w) (package_path base h)"
      if "is_valid_hex_hash h" "h \<noteq> pp_hash package" for h
      using install_other_paths [OF run, of "package_path base h"] apart_package [OF that, of base rnd "[]"]
        hash_not_temporary [OF that(1), of "''install-'' @ rnd"]
      by (auto simp: is_dir_def package_path_def owner_path_def temporary_def butlast_append staging_dir_def)
    show "is_dir (w_fs w') (package_path base (pp_hash package))" if "is_dir (w_fs w) (package_path base (pp_hash package))"
      using install_tree [OF run tree refl valid] that by (auto simp: is_dir_def exists_at_def dest: spec [of _ "[]"])
  qed
next
  case False
  then show ?thesis using resolve_invalid [of m L] by auto
qed

end

section \<open>Recovery\<close>

text \<open>JSON decodes what it encodes.\<close>

definition package_lib_ok :: "package_lib \<Rightarrow> bool" where
  "package_lib_ok L \<longleftrightarrow>
     (\<forall>x. pl_dec_owner L (pl_enc_owner L x) = Ok x) \<and> (\<forall>m. pl_dec_meta L (pl_enc_meta L m) = Ok m)"

text \<open>The entries an installed package \<open>h\<close> with owner record \<open>m\<close> rests on.\<close>

definition owned :: "path \<Rightarrow> string \<Rightarrow> string \<Rightarrow> path \<Rightarrow> bool" where
  "owned base m h q \<longleftrightarrow> q = owner_path base m \<or> q = meta_path base h \<or> under (package_path base h) q"

definition settled :: "package_lib \<Rightarrow> path \<Rightarrow> string \<Rightarrow> string \<Rightarrow> file_system \<Rightarrow> file_system \<Rightarrow> bool" where
  "settled L base m h fs0 fs \<longleftrightarrow>
     (\<exists>b md. map_of fs (owner_path base m) = Some (Reg b md) \<and> pl_dec_owner L b = Ok \<lparr>ao_name = m, ao_hash = h\<rparr>) \<and>
     map_of fs (meta_path base h) = map_of fs0 (meta_path base h) \<and>
     (\<forall>rel. map_of fs (package_path base h @ rel) = map_of fs0 (package_path base h @ rel))"

definition meta_names :: "package_lib \<Rightarrow> path \<Rightarrow> string \<Rightarrow> string \<Rightarrow> file_system \<Rightarrow> bool" where
  "meta_names L base m h fs \<longleftrightarrow>
     (\<exists>meta app. load_meta L fs base h = Ok meta \<and> pm_petal meta = Some app \<and> gm_name app = m)"

lemma settled_same: "same_at True (owned base m h) fs fs' \<Longrightarrow> settled L base m h fs0 fs \<Longrightarrow> settled L base m h fs0 fs'"
  by (auto simp: settled_def owned_def same_at_def unchanged_def)

lemma settled_leaves: "leaves True (owned base m h) a \<Longrightarrow> settled L base m h fs0 (w_fs w) \<Longrightarrow> settled L base m h fs0 (w_fs (fst (a w)))"
  using settled_same unfolding leaves_def by blast

lemma owned_not_temporary:
  assumes "valid_name m" "is_valid_hex_hash h"
  shows "\<not> owned base m h (temporary (owner_path base n))" "n \<noteq> m \<Longrightarrow> \<not> owned base m h (owner_path base n)"
  using owner_not_temporary [OF assms(1), of base n]
  by (auto simp: owned_def under_iff owner_path_def meta_path_def package_path_def temporary_def butlast_append)

lemma remove_package_data_leaves:
  "c \<noteq> h \<Longrightarrow> leaves True (owned base m h) (remove_package_data base c)"
  unfolding remove_package_data_def
  by (intro frame) (auto simp: owned_def under_iff object_path_def owner_path_def meta_path_def package_path_def)

lemma clear_dotfiles_leaves:
  assumes "valid_name m"
  shows "leaves True (owned base m h) (clear_dotfiles base)"
proof -
  have "\<not> owned base m h (base @ [''owners'', f])" if "starts_with f ''.''" for f
    using that valid_name_hd [OF assms] by (cases m)
      (auto simp: owned_def under_iff owner_path_def meta_path_def package_path_def starts_with_def)
  then show ?thesis unfolding clear_dotfiles_def by (intro frame) auto
qed

lemma reconcile_name_settled:
  assumes m: "valid_name m" "is_valid_hex_hash h" and lib: "package_lib_ok L"
    and mine: "\<forall>(n, c, _)\<in>set packages. c = h \<longrightarrow> n = m" "\<exists>t. (m, h, t) \<in> set packages"
    and dir: "map_of fs0 (package_path base h) = Some Dir"
    and s: "settled L base m h fs0 (w_fs w)"
  shows "settled L base m h fs0 (w_fs (fst (reconcile_name L base packages n w)))"
proof (cases "n = m")
  case False
  have c: "(n, h, t) \<notin> set packages" for t using mine(1) False by auto
  have "leaves True (owned base m h) (reconcile_name L base packages n)"
    unfolding reconcile_name_def Let_def
  proof (intro frame)
    fix x
    show "leaves True (owned base m h) (case x of None \<Rightarrow> ignoring (sys_remove (owner_path base n))
        | Some h' \<Rightarrow> seq (write_petal_owner L base n h') (\<lambda>_. for_each (\<lambda>(_, c, _). if c = h' then give (Ok ())
            else ignoring (remove_package_data base c)) (filter (\<lambda>(x, _, _). x = n) packages)))"
      using owned_not_temporary [OF m, where base = base and n = n] False c
      by (cases x) (auto intro!: frame remove_package_data_leaves)
  qed
  then show ?thesis by (rule settled_leaves [OF _ s])
next
  case True
  let ?c = "filter (\<lambda>(x, _, _). x = m) packages"
  have "resolve_petal_owner L (w_fs w) base m = Ok (Some h)"
    using s m dir by (auto simp: resolve_Ok_iff settled_def is_dir_def dest: spec [of _ "[]"])
  moreover have "list_ex (\<lambda>(_, c, _). c = h) ?c" using mine(2) by (auto simp: list_ex_iff)
  ultimately have "chosen_owner L (w_fs w) base ?c m = Some h" by (simp add: chosen_owner_def)
  then have run: "reconcile_name L base packages n w = seq (write_petal_owner L base m h)
      (\<lambda>_. for_each (\<lambda>(_, c, _). if c = h then give (Ok ()) else ignoring (remove_package_data base c)) ?c) w"
    by (simp add: reconcile_name_def True Let_def seq_def [of "reading _"] reading_def)
  obtain w1 r where o: "write_petal_owner L base m h w = (w1, r)" by (cases "write_petal_owner L base m h w")
  have l: "leaves True (\<lambda>q. owned base m h q \<and> q \<noteq> owner_path base m) (write_petal_owner L base m h)"
    by (rule leaves_write_petal_owner) (use owned_not_temporary(1) [OF m] in auto)
  have "map_of (w_fs w1) q = map_of (w_fs w) q" if "q = meta_path base h \<or> under (package_path base h) q" for q
    by (rule same_at_eq [OF leavesD [OF l o]])
      (use that in \<open>auto simp: owned_def under_iff owner_path_def meta_path_def package_path_def\<close>)
  then have s1: "settled L base m h fs0 (w_fs w1)"
    using s write_petal_owner_at [OF o] lib by (auto simp: settled_def package_lib_ok_def)
  have "leaves True (owned base m h) (for_each (\<lambda>(_, c, _). if c = h then give (Ok ()) else ignoring (remove_package_data base c)) ?c)"
    by (intro frame) (auto intro!: frame remove_package_data_leaves)
  then show ?thesis
    using settled_leaves [OF _ s1] s1 unfolding run seq_def [of "write_petal_owner L base m h"] o by (cases r) auto
qed

lemma physical_packages_mem:
  "physical_packages L fs base hs = Ok ps \<Longrightarrow>
   (n, c, t) \<in> set ps \<longleftrightarrow> c \<in> set hs \<and>
     (\<exists>meta app. load_meta L fs base c = Ok meta \<and> pm_petal meta = Some app \<and> gm_name app = n \<and> pm_installed_at_ms meta = t)"
proof (induction hs arbitrary: ps)
  case (Cons h hs)
  then obtain meta rest where "load_meta L fs base h = Ok meta" "physical_packages L fs base hs = Ok rest"
    "ps = (case pm_petal meta of Some app \<Rightarrow> (gm_name app, h, pm_installed_at_ms meta) # rest | None \<Rightarrow> rest)"
    by (auto simp: and_then_Ok_iff)
  then show ?case using Cons.IH [of rest] by (auto split: option.splits)
qed simp

lemma listed_hash:
  assumes "collect_meta_hashes fs base = Ok hs" "is_valid_hex_hash h" "map_of fs (meta_path base h) = Some (Reg b md)"
    "map_of fs (base @ [''meta'']) = Some Dir"
  shows "h \<in> set hs"
proof -
  have "(meta_path base h, Reg b md) \<in> set fs" using assms(3) by (rule map_of_SomeD)
  then have "h @ ''.json'' \<in> set (dir_names fs (base @ [''meta'']))"
    unfolding dir_names_def by (force simp: meta_path_def butlast_append)
  then have "h \<in> set (List.map_filter (\<lambda>n. strip_suffix n ''.json'') (dir_names fs (base @ [''meta''])))"
    by (force simp: map_filter_def)
  then show ?thesis using assms(1,2,4) by (auto simp: collect_meta_hashes_def read_dir_def)
qed

lemma sorted_packages_mine:
  assumes "sorted_packages L fs base = Ok ps" "meta_names L base m h fs" "exists_at fs (package_path base h)"
    "map_of fs (base @ [''meta'']) = Some Dir"
  shows "\<forall>(n, c, _)\<in>set ps. c = h \<longrightarrow> n = m" "\<exists>t. (m, h, t) \<in> set ps"
proof -
  obtain hs qs where p: "list_physical_package_hashes fs base = Ok hs" "physical_packages L fs base hs = Ok qs" "set ps = set qs"
    using assms(1) by (auto simp: sorted_packages_def and_then_Ok_iff)
  obtain meta app b md where mt: "load_meta L fs base h = Ok meta" "pm_petal meta = Some app" "gm_name app = m"
    "is_valid_hex_hash h" "map_of fs (meta_path base h) = Some (Reg b md)"
    using assms(2) unfolding meta_names_def load_meta_Ok_iff by blast
  have "h \<in> set hs"
    using p(1) listed_hash [OF _ mt(4,5) assms(4)] assms(3)
    by (auto simp: list_physical_package_hashes_def and_then_Ok_iff)
  then show "\<exists>t. (m, h, t) \<in> set ps" using physical_packages_mem [OF p(2)] p(3) mt by blast
  show "\<forall>(n, c, _)\<in>set ps. c = h \<longrightarrow> n = m" using physical_packages_mem [OF p(2)] p(3) mt(1-3) by fastforce
qed

lemma for_each_settled:
  assumes "\<And>x w. settled L base m h fs0 (w_fs w) \<Longrightarrow> settled L base m h fs0 (w_fs (fst (f x w)))"
  shows "settled L base m h fs0 (w_fs w) \<Longrightarrow> settled L base m h fs0 (w_fs (fst (for_each f xs w)))"
proof (induction xs arbitrary: w)
  case (Cons x xs)
  obtain w1 r where f: "f x w = (w1, r)" by (cases "f x w")
  have "settled L base m h fs0 (w_fs w1)" using assms [OF Cons.prems, of x] by (simp add: f)
  then show ?case using Cons.IH [of w1] by (cases r) (simp_all add: seq_def f)
qed (simp add: give_def)

lemma mkdirs_Ok_dir:
  assumes "for_each (\<lambda>dir. io (sys_mkdir_all (base @ [dir]))) dirs w = (w', Ok ())" "d \<in> set dirs"
  shows "map_of (w_fs w') (base @ [d]) = Some Dir"
  using assms
proof (induction dirs arbitrary: w)
  case (Cons x dirs)
  obtain w1 where w1: "io (sys_mkdir_all (base @ [x])) w = (w1, Ok ())"
    "for_each (\<lambda>dir. io (sys_mkdir_all (base @ [dir]))) dirs w1 = (w', Ok ())"
    using Cons.prems(1) by (auto simp: seq_def split: prod.splits sum.splits)
  show ?case
  proof (cases "d \<in> set dirs")
    case True
    then show ?thesis using Cons.IH [OF w1(2)] by blast
  next
    case False
    then have "map_of (w_fs w1) (base @ [d]) = Some Dir"
      using w1(1) Cons.prems(2) create_dir_all_dirs [of _ _ "base @ [d]" _ "base @ [d]"]
      by (auto simp: io_def failing_as_def map_err_Ok_iff sys_mkdir_all_def changing_def split: prod.splits)
    moreover have l: "leaves False (\<lambda>q. q = base @ [d]) (for_each (\<lambda>dir. io (sys_mkdir_all (base @ [dir]))) dirs)"
      by (intro frame) auto
    ultimately show ?thesis using leavesD [OF l w1(2)] by (auto simp: same_at_def unchanged_def)
  qed
qed simp

lemma open_packages_settled:
  assumes m: "valid_name m" "is_valid_hex_hash h" and lib: "package_lib_ok L"
    and names: "meta_names L base m h (w_fs w)" and dir: "map_of (w_fs w) (package_path base h) = Some Dir"
    and s: "settled L base m h (w_fs w) (w_fs w)"
  shows "settled L base m h (w_fs w) (w_fs (fst (open_packages L base w)))"
proof -
  let ?mk = "for_each (\<lambda>dir. io (sys_mkdir_all (base @ [dir]))) [''objects'', ''meta'', ''packages'', ''owners'']"
  let ?S = "\<lambda>v. settled L base m h (w_fs w) (w_fs v)"
  have l: "leaves True (owned base m h) ?mk"
    by (intro frame) (auto simp: owned_def under_iff owner_path_def meta_path_def package_path_def)
  obtain w1 r1 where w1: "?mk w = (w1, r1)" by (cases "?mk w")
  have s1: "?S w1" using settled_leaves [OF l s] w1 by simp
  obtain w2 r2 where w2: "clear_dotfiles base w1 = (w2, r2)" by (cases "clear_dotfiles base w1")
  have s2: "?S w2" using settled_leaves [OF clear_dotfiles_leaves [OF m(1)] s1] w2 by simp
  have step: "?S (fst (for_each (reconcile_name L base ps) ns w2))"
    if "r1 = Ok ()" "sorted_packages L (w_fs w2) base = Ok ps" for ps ns
  proof (rule for_each_settled [OF reconcile_name_settled [OF m lib _ _ dir] s2])
    have "leaves False (\<lambda>q. q = base @ [''meta'']) (clear_dotfiles base)"
      unfolding clear_dotfiles_def by (intro frame) auto
    then have d: "map_of (w_fs w2) (base @ [''meta'']) = Some Dir"
      using leavesD [of False "\<lambda>q. q = base @ [''meta'']" "clear_dotfiles base", OF _ w2] mkdirs_Ok_dir [OF w1 [unfolded that(1)], of "''meta''"]
      by (auto simp: same_at_def unchanged_def)
    have "meta_names L base m h (w_fs w2)" "exists_at (w_fs w2) (package_path base h)"
      using names s2 dir by (auto simp: meta_names_def load_meta_Ok_iff settled_def exists_at_def dest: spec [of _ "[]"])
    note mine = sorted_packages_mine [OF that(2) this d]
    show "\<forall>(n, c, _)\<in>set ps. c = h \<longrightarrow> n = m" "\<exists>t. (m, h, t) \<in> set ps" using mine by auto
  qed
  show ?thesis
    unfolding open_packages_def reconcile_petal_owners_def seq_def [of ?mk] w1
      seq_def [of "clear_dotfiles base"]
    using s1 s2 step w2 by (auto simp: seq_def reading_def split: sum.splits)
qed

context activation
begin

text \<open>The metadata of a package is rewritten by its own installation only, and then names its petal.\<close>

lemma before_commit_meta_of:
  assumes run: "before_commit L base guard prepare now (staging_dir base rnd) package source w = (w', r)"
    and named: "\<forall>m. load_meta L (w_fs w) base (pp_hash package) = Ok m \<longrightarrow> pm_hash m = pp_hash package"
    and h: "is_valid_hex_hash h"
  shows "map_of (w_fs w') (meta_path base h) = map_of (w_fs w) (meta_path base h) \<or>
    h = pp_hash package \<and> (\<exists>m md app. map_of (w_fs w') (meta_path base h) = Some (Reg (pl_enc_meta L m) md) \<and>
      pm_petal m = Some app \<and> gm_name app = pp_name package)"
proof (cases "h = pp_hash package")
  case False
  have "same_at True (\<lambda>q. q = meta_path base h) (w_fs w) (w_fs w')"
    using before_commit_metas [OF named h False, of guard now rnd source] run by (simp add: at_world_def)
  then show ?thesis using same_at_eq by blast
next
  case True
  let ?q = "meta_path base h"
  have q: "store_side base ?q" by (auto simp: store_side_def under_iff meta_path_def)
  have place: "map_of (w_fs v') ?q = map_of (w_fs v) ?q"
    if p: "place_package L base (staging_dir base rnd) package present v = (v', x)" for v v' x present
  proof -
    have l: "leaves True (\<lambda>x. x = ?q) (place_package L base (staging_dir base rnd) package present)"
      by (rule leaves_place_package) (auto simp: under_iff meta_path_def staging_dir_def package_path_def)
    show ?thesis by (rule same_at_eq [OF leavesD [OF l p]]) simp
  qed
  have rec: "map_of (w_fs v') ?q = map_of (w_fs v) ?q \<or>
      (\<exists>m md app. map_of (w_fs v') ?q = Some (Reg (pl_enc_meta L m) md) \<and> pm_petal m = Some app \<and> gm_name app = pp_name package)"
    if e: "existing_meta L (w_fs w) base (pp_hash package) = Ok existing"
      "record_install L base guard prepare now package source existing v = (v', x)" for existing v v' x
  proof -
    have "v' = v \<or> (\<exists>c. seq (write_meta L base (installed_meta L now package source existing c))
        (\<lambda>_. seq (prepare (installed_meta L now package source existing c))
          (\<lambda>_. give (Ok (installed_meta L now package source existing c)))) v = (v', x))"
      using e(2) unfolding record_install_def
      by (cases "resolve_petal_owner L (w_fs v) base (pp_name package)"; cases "guard 1 (w_fs v)")
        (auto simp: seq_def [of "reading _"] seq_def [of "give _"] reading_def give_def Let_def)
    then obtain c where c: "v' = v \<or> seq (write_meta L base (installed_meta L now package source existing c))
        (\<lambda>_. seq (prepare (installed_meta L now package source existing c))
          (\<lambda>_. give (Ok (installed_meta L now package source existing c)))) v = (v', x)" by blast
    define m where "m = installed_meta L now package source existing c"
    note f = installed_meta_fields [OF e(1) named, of now source c, folded m_def]
    obtain w1 ra where a: "write_atomic ?q (pl_enc_meta L m) v = (w1, ra)" by (cases "write_atomic ?q (pl_enc_meta L m) v")
    have p: "map_of (w_fs (fst (prepare m u))) ?q = map_of (w_fs u) ?q" for u
      using same_at_eq [OF leavesD [OF prepare_outside prod.collapse [symmetric]] q] by blast
    have "v' = v \<or> w_fs v' = w_fs w1 \<or> w_fs v' = w_fs (fst (prepare m w1))"
      using c f(1) a True unfolding m_def [symmetric]
      by (auto simp: Let_def seq_def give_def write_meta_def io_def failing_as_def split: sum.splits prod.splits)
    then show ?thesis using write_atomic_at [OF a] p [of w1] f(2) by (auto simp: meta_path_def)
  qed
  have "w' = w \<or> (\<exists>present existing w1 x y. place_package L base (staging_dir base rnd) package present w = (w1, x) \<and>
      (w' = w1 \<or> existing_meta L (w_fs w) base (pp_hash package) = Ok existing \<and>
         record_install L base guard prepare now package source existing w1 = (w', y)))"
    using run unfolding before_commit_def by (auto simp: seq_def reading_def give_def split: sum.splits prod.splits)
  then show ?thesis using place rec True by metis
qed

lemma install_meta_of:
  assumes run: "install_petal_package L base busy guard prepare now rnd package source w = (w', r)"
    and named: "\<forall>m. load_meta L (w_fs w) base (pp_hash package) = Ok m \<longrightarrow> pm_hash m = pp_hash package"
    and h: "is_valid_hex_hash h"
  shows "map_of (w_fs w') (meta_path base h) = map_of (w_fs w) (meta_path base h) \<or>
    h = pp_hash package \<and> (\<exists>m md app. map_of (w_fs w') (meta_path base h) = Some (Reg (pl_enc_meta L m) md) \<and>
      pm_petal m = Some app \<and> gm_name app = pp_name package)"
proof -
  let ?t = "staging_dir base rnd" and ?q = "meta_path base h"
  have t: "\<not> under ?t (meta_path base x)" "\<not> prefix (meta_path base x) ?t" for x
    by (auto simp: under_iff meta_path_def staging_dir_def)
  have owner: "map_of (w_fs v') ?q = map_of (w_fs v) ?q" if o: "write_petal_owner L base n x v = (v', y)" for n x v v' y
  proof -
    have l: "leaves True (\<lambda>z. z = ?q) (write_petal_owner L base n x)"
      by (rule leaves_write_petal_owner) (auto simp: meta_path_def owner_path_def temporary_def butlast_append)
    show ?thesis by (rule same_at_eq [OF leavesD [OF l o]]) simp
  qed
  have before: ?thesis if s: "stage_petal_package L base rnd package w = (w0, Ok ?t)"
      "before_commit L base guard prepare now ?t package source w0 = (w2, x)" "map_of (w_fs w') ?q = map_of (w_fs w2) ?q" for w0 w2 x
  proof -
    have "\<forall>m. load_meta L (w_fs w0) base (pp_hash package) = Ok m \<longrightarrow> pm_hash m = pp_hash package"
      using named stage_keeps [OF s(1) t] by (simp add: load_meta_Ok_iff)
    from before_commit_meta_of [OF s(2) this h] show ?thesis
      unfolding s(3) stage_keeps [OF s(1) t] .
  qed
  show ?thesis
    using install_stages [OF run]
  proof (elim disjE exE conjE)
    fix w0 w1 w2 present meta ro
    assume *: "stage_petal_package L base rnd package w = (w0, Ok ?t)" "w' = fst (sys_remove_dir_all ?t w1)"
        "before_commit L base guard prepare now ?t package source w0 = (w2, Ok (present, meta))"
        "write_petal_owner L base (pp_name package) (pp_hash package) w2 = (w1, ro)"
    show ?thesis by (rule before [OF *(1,3)]) (use remove_dir_leaves [OF t(1), of w1 h] owner [OF *(4)] *(2) in simp)
  next
    fix w0 w1 e
    assume *: "stage_petal_package L base rnd package w = (w0, Ok ?t)" "w' = fst (sys_remove_dir_all ?t w1)"
      "before_commit L base guard prepare now ?t package source w0 = (w1, Err e)"
    show ?thesis by (rule before [OF *(1,3)]) (use remove_dir_leaves [OF t(1), of w1 h] *(2) in simp)
  next
    fix w0 w1 w2 present meta
    assume *: "stage_petal_package L base rnd package w = (w0, Ok ?t)" "w' = fst (sys_remove_dir_all ?t w1)"
      "before_commit L base guard prepare now ?t package source w0 = (w2, Ok (present, meta))" "w1 = w2"
    show ?thesis by (rule before [OF *(1,3)]) (use remove_dir_leaves [OF t(1), of w1 h] *(2,4) in simp)
  next
    fix w0 w1
    assume *: "stage_petal_package L base rnd package w = (w0, Ok ?t)" "w' = fst (sys_remove_dir_all ?t w1)" "w1 = w0"
    show ?thesis using remove_dir_leaves [OF t(1), of w1 h] stage_keeps [OF *(1) t, of h] *(2,3) by simp
  next
    fix e
    assume *: "stage_petal_package L base rnd package w = (w', Err e)"
    show ?thesis using stage_keeps [OF * t, of h] by simp
  qed
qed

text \<open>What the name resolves to after an installation, together with all that its owner needs.\<close>

lemma install_settles:
  assumes run: "install_petal_package L base busy guard prepare now rnd package source w = (w', r)"
    and tree: "tree_ok (w_fs w)" and lib: "package_lib_ok L"
    and ix: "pl_dec_index L (pl_enc_index L (pp_index package)) = Ok (pp_index package)"
    and named: "\<forall>m. load_meta L (w_fs w) base (pp_hash package) = Ok m \<longrightarrow> pm_hash m = pp_hash package"
    and valid: "is_valid_hex_hash (pp_hash package)"
    and old: "resolve_petal_owner L (w_fs w) base (pp_name package) = Ok (Some h0)" "meta_names L base (pp_name package) h0 (w_fs w)"
    and h: "h = (if is_ok r then pp_hash package else h0)"
  shows "resolve_petal_owner L (w_fs w') base (pp_name package) = Ok (Some h) \<and> meta_names L base (pp_name package) h (w_fs w')"
proof (cases "is_ok r")
  case True
  note * = install_Ok [OF run True tree named ix]
  let ?pkg = "package_path base (pp_hash package)"
  have "map_of (w_fs w') ?pkg = Some Dir"
    using install_tree [OF run tree refl valid]
  proof (elim disjE)
    assume same: "\<forall>rel. map_of (w_fs w') (?pkg @ rel) = map_of (w_fs w) (?pkg @ rel)"
    then have "exists_at (w_fs w) (?pkg @ [''route-index.json''])"
      using *(1) by (auto simp: load_route_index_Ok_iff route_index_path_def exists_at_def)
    then have "map_of (w_fs w) ?pkg = Some Dir"
      using tree_ok_parent [OF tree, of ?pkg] by (auto simp: exists_at_def package_path_def)
    then show ?thesis using same [rule_format, of "[]"] by simp
  qed simp
  then have "is_dir (w_fs w') ?pkg" by (simp add: is_dir_def)
  then show ?thesis using * lib h True
    by (auto simp: resolve_Ok_iff meta_names_def load_meta_Ok_iff package_lib_ok_def)
next
  case False
  have r: "resolve_petal_owner L (w_fs w') base (pp_name package) = Ok (Some h0)"
    using install_resolve [OF run tree valid, of "pp_name package"] False old(1) by auto
  have v: "is_valid_hex_hash h0" using old(1) by (simp add: resolve_Ok_iff)
  have "meta_names L base (pp_name package) h0 (w_fs w')"
    using install_meta_of [OF run named v] old(2) lib v
    by (auto simp: meta_names_def load_meta_Ok_iff package_lib_ok_def)
  then show ?thesis using r h False by simp
qed

lemma install_index_kept:
  assumes run: "install_petal_package L base busy guard prepare now rnd package source w = (w', r)"
    and tree: "tree_ok (w_fs w)" and valid: "is_valid_hex_hash (pp_hash package)"
    and old: "resolve_petal_owner L (w_fs w) base m = Ok (Some h)"
  shows "\<forall>rel. map_of (w_fs w') (package_path base h @ rel) = map_of (w_fs w) (package_path base h @ rel)"
proof (cases "h = pp_hash package")
  case True
  then have "exists_at (w_fs w) (package_path base (pp_hash package))"
    using old by (auto simp: resolve_Ok_iff is_dir_def exists_at_def split: option.splits)
  then show ?thesis using install_tree [OF run tree refl valid] True by blast
next
  case False
  have h: "is_valid_hex_hash h" using old by (simp add: resolve_Ok_iff)
  show ?thesis
  proof
    fix rel
    show "map_of (w_fs w') (package_path base h @ rel) = map_of (w_fs w) (package_path base h @ rel)"
      by (rule install_other_paths [OF run apart_package [OF h False]])
        (use hash_not_temporary [OF h, of "''install-'' @ rnd"] in
          \<open>auto simp: package_path_def owner_path_def staging_dir_def temporary_def butlast_append prefix_def Cons_eq_append_conv\<close>)
  qed
qed

lemma install_index:
  assumes run: "install_petal_package L base busy guard prepare now rnd package source w = (w', r)"
    and tree: "tree_ok (w_fs w)"
    and ix: "pl_dec_index L (pl_enc_index L (pp_index package)) = Ok (pp_index package)"
    and named: "\<forall>m. load_meta L (w_fs w) base (pp_hash package) = Ok m \<longrightarrow> pm_hash m = pp_hash package"
    and valid: "is_valid_hex_hash (pp_hash package)"
    and old: "resolve_petal_owner L (w_fs w) base (pp_name package) = Ok (Some h0)" "load_route_index L (w_fs w) base h0 = Ok index0"
  shows "load_route_index L (w_fs w') base (if is_ok r then pp_hash package else h0) = Ok (if is_ok r then pp_index package else index0)"
  using install_Ok(1) [OF run _ tree named ix] install_index_kept [OF run tree valid old(1)] old(2)
  by (auto simp: load_route_index_Ok_iff route_index_path_def)

end

lemma reopen_keeps:
  assumes reopen: "open_packages L base \<lparr>w_fs = fs, w_plan = plan\<rparr> = (w', r')" and lib: "package_lib_ok L"
    and now: "resolve_petal_owner L fs base m = Ok (Some h) \<and> meta_names L base m h fs"
    and i: "load_route_index L fs base h = Ok i"
  shows "resolve_petal_owner L (w_fs w') base m = Ok (Some h) \<and> load_route_index L (w_fs w') base h = Ok i"
proof -
  let ?p = "package_path base h"
  from now have v: "valid_name m" "is_valid_hex_hash h" and d: "map_of fs ?p = Some Dir"
    by (auto simp: resolve_Ok_iff is_dir_def split: option.splits tnode.splits)
  have "settled L base m h fs fs"
    using now by (auto simp: settled_def resolve_Ok_iff)
  with open_packages_settled [OF v lib, of base "\<lparr>w_fs = fs, w_plan = plan\<rparr>"] now d reopen
  have s: "settled L base m h fs (w_fs w')" by simp
  then have "is_dir (w_fs w') ?p" using d by (auto simp: settled_def is_dir_def dest: spec [of _ "[]"])
  then show ?thesis using s v i by (auto simp: settled_def resolve_Ok_iff load_route_index_Ok_iff route_index_path_def)
qed

section \<open>What a package hash commits to\<close>

lemma le_bytes_inj: "le_bytes k m = le_bytes k n \<Longrightarrow> m < 256 ^ k \<Longrightarrow> n < 256 ^ k \<Longrightarrow> m = n"
  using be_bytes_inj [of k m n] by (simp add: le_bytes_def)

lemma length_le_bytes [simp]: "length (le_bytes k n) = k"
  by (simp add: le_bytes_def)

lemma file_digest_input_prefix_free:
  assumes eq: "file_digest_input L f @ x = file_digest_input L g @ y"
    and len: "length (nf_path f) < 2 ^ 32" "length (nf_path g) < 2 ^ 32"
    and digest: "\<And>s. length (pl_blake3 L s) = 32" and free: "no_collision (pl_blake3 L) (nf_bytes f) (nf_bytes g)"
  shows "f = g \<and> x = y"
proof -
  have "le_bytes 4 (length (nf_path f)) = le_bytes 4 (length (nf_path g))"
    using eq len by (simp add: file_digest_input_def)
  then have "length (nf_path f) = length (nf_path g)" using le_bytes_inj [of 4] len by auto
  then have "nf_path f = nf_path g \<and> pl_blake3 L (nf_bytes f) @ x = pl_blake3 L (nf_bytes g) @ y"
    using eq len by (simp add: file_digest_input_def)
  then have "nf_path f = nf_path g" "pl_blake3 L (nf_bytes f) = pl_blake3 L (nf_bytes g)" "x = y"
    using digest by auto
  then show ?thesis using free by (simp add: no_collision_def)
qed

lemma file_digest_nonempty: "file_digest_input L f \<noteq> []"
  using arg_cong [of "file_digest_input L f" "[]" length] by (auto simp: file_digest_input_def)

lemma digest_inputs_inj:
  assumes "concat (map (file_digest_input L) xs) = concat (map (file_digest_input L) ys)"
    and "\<forall>f\<in>set (xs @ ys). length (nf_path f) < 2 ^ 32" and "\<And>s. length (pl_blake3 L s) = 32"
    and "\<forall>f\<in>set xs. \<forall>g\<in>set ys. no_collision (pl_blake3 L) (nf_bytes f) (nf_bytes g)"
  shows "xs = ys"
  using assms(1,2,4)
proof (induction xs arbitrary: ys)
  case Nil
  then show ?case using file_digest_nonempty [of L] by (cases ys) auto
next
  case (Cons f xs)
  then obtain g ys' where ys: "ys = g # ys'" using file_digest_nonempty [of L f] by (cases ys) auto
  have "f = g \<and> concat (map (file_digest_input L) xs) = concat (map (file_digest_input L) ys')"
    by (rule file_digest_input_prefix_free [of L]) (use Cons.prems ys assms(3) in auto)
  then show ?case using Cons.IH [of ys'] Cons.prems ys by auto
qed

text \<open>
  C19: a package hash commits to every file of the package. Two different lists of files have
  different hashes, unless blake3 collides on two of their contents or on the two digest inputs:
  the framing of paths, lengths and content digests leaves no ambiguity.
\<close>

theorem package_hash_binds_files:
  assumes "xs \<noteq> ys"
    and paths: "\<forall>f\<in>set (xs @ ys). length (nf_path f) < 2 ^ 32"
    and digest: "\<forall>s. length (pl_blake3 L s) = 32"
    and hex: "\<forall>s s'. pl_hex L s = pl_hex L s' \<longrightarrow> s = s'"
    and free: "\<forall>f\<in>set xs. \<forall>g\<in>set ys. no_collision (pl_blake3 L) (nf_bytes f) (nf_bytes g)"
      "no_collision (pl_blake3 L) (pl_digest_prefix L @ concat (map (file_digest_input L) xs))
         (pl_digest_prefix L @ concat (map (file_digest_input L) ys))"
  shows "package_hash L xs \<noteq> package_hash L ys"
proof
  assume "package_hash L xs = package_hash L ys"
  then have "concat (map (file_digest_input L) xs) = concat (map (file_digest_input L) ys)"
    using hex free(2) by (auto simp: package_hash_def no_collision_def)
  then show False using digest_inputs_inj [OF _ paths _ free(1)] digest assms(1) by blast
qed

text \<open>A digest of length 32 for the witness: the last 32 bytes, padded.\<close>

definition sample_digest :: "string \<Rightarrow> string" where
  "sample_digest s = take 32 (rev s @ replicate 32 CHR ''0'')"

definition digest_lib :: package_lib where
  "digest_lib = \<lparr>pl_enc_owner = (\<lambda>_. []), pl_dec_owner = (\<lambda>_. Err []), pl_enc_meta = (\<lambda>_. []), pl_dec_meta = (\<lambda>_. Err []),
     pl_enc_index = (\<lambda>_. []), pl_dec_index = (\<lambda>_. Err []), pl_blake3 = sample_digest, pl_hex = (\<lambda>s. s),
     pl_digest_prefix = ''d'', pl_index_schema = ''s'', pl_rebuild = (\<lambda>_. bad_wasm []), pl_artifact = (\<lambda>_ _. bad_wasm [])\<rparr>"

lemma sample_digest_ends: "length t = 32 \<Longrightarrow> sample_digest (s @ t) = rev t"
  by (simp add: sample_digest_def)

lemma length_sample_digest [simp]: "length (sample_digest s) = 32"
  by (simp add: sample_digest_def)

theorem package_hash_binds_files_witness:
  "package_hash digest_lib [\<lparr>nf_path = ''a'', nf_bytes = ''xy''\<rparr>] \<noteq>
   package_hash digest_lib [\<lparr>nf_path = ''a'', nf_bytes = ''x''\<rparr>, \<lparr>nf_path = ''b'', nf_bytes = ''y''\<rparr>]"
proof (rule package_hash_binds_files)
  let ?L = digest_lib
  have l: "pl_blake3 ?L = sample_digest" "pl_hex ?L = (\<lambda>s. s)" by (simp_all add: digest_lib_def)
  have d: "sample_digest (p @ concat (map (file_digest_input ?L) (fs @ [f]))) = rev (sample_digest (nf_bytes f))" for p fs f
    using sample_digest_ends [of "sample_digest (nf_bytes f)"] by (simp add: file_digest_input_def l flip: append_assoc)
  have "sample_digest ''xy'' \<noteq> sample_digest ''y''" by code_simp
  then show "no_collision (pl_blake3 ?L)
      (pl_digest_prefix ?L @ concat (map (file_digest_input ?L) [\<lparr>nf_path = ''a'', nf_bytes = ''xy''\<rparr>]))
      (pl_digest_prefix ?L @ concat (map (file_digest_input ?L)
         [\<lparr>nf_path = ''a'', nf_bytes = ''x''\<rparr>, \<lparr>nf_path = ''b'', nf_bytes = ''y''\<rparr>]))"
    using d [of _ "[]" "\<lparr>nf_path = ''a'', nf_bytes = ''xy''\<rparr>"]
      d [of _ "[\<lparr>nf_path = ''a'', nf_bytes = ''x''\<rparr>]" "\<lparr>nf_path = ''b'', nf_bytes = ''y''\<rparr>"]
    by (simp add: no_collision_def l)
  have "sample_digest ''xy'' \<noteq> sample_digest ''x''" by code_simp
  with \<open>sample_digest ''xy'' \<noteq> sample_digest ''y''\<close>
  show "\<forall>f\<in>set [\<lparr>nf_path = ''a'', nf_bytes = ''xy''\<rparr>]. \<forall>g\<in>set [\<lparr>nf_path = ''a'', nf_bytes = ''x''\<rparr>, \<lparr>nf_path = ''b'', nf_bytes = ''y''\<rparr>].
      no_collision (pl_blake3 ?L) (nf_bytes f) (nf_bytes g)"
    by (simp add: no_collision_def l)
qed (simp_all add: digest_lib_def)

end
