(* ===== verification/Petal_Runner.thy ===== *)
theory Petal_Runner
  imports Petal_Packages BTree_Map
begin

text \<open>
  The runner over the package store, \<open>crates/bloom-petals/src/runner.rs\<close>: the checks of the
  provenance catalog before a package is activated, carrying the private state of a replaced
  package forward, the resolution of names, hashes and hash prefixes, removal, and the petname
  registry of \<open>registry.rs\<close>.

  The catalog types belong to the crate \<open>bloom_broker_api\<close>; the records below hold the fields the
  runner reads, with hashes rendered as text. The shape check of that crate and the TOML codec of
  the registry are parameters. The daemon opens the store at \<open><root>/store\<close>, so that the private
  state lies at \<open><root>/data\<close> and \<open><root>/data-accounts\<close>.
\<close>

section \<open>The provenance catalog\<close>

record lineage =
  ln_id :: string
  ln_active :: bool
  ln_predecessors :: "string list"

record provenance_record =
  pr_petal :: "string option"
  pr_publisher :: string
  pr_lineage :: "lineage option"

type_synonym catalog = "provenance_record list"

record loaded_catalog =
  lc_catalog :: "catalog option"
  lc_shape_error :: "string option"

definition with_provenance_catalog ::
  "(catalog \<Rightarrow> (string, unit) result) \<Rightarrow> catalog option \<Rightarrow> loaded_catalog" where
  "with_provenance_catalog validate_shape catalog =
     \<lparr>lc_catalog = catalog,
      lc_shape_error = (case catalog of
         None \<Rightarrow> None
       | Some c \<Rightarrow> (case validate_shape c of Inl e \<Rightarrow> Some e | Inr _ \<Rightarrow> None))\<rparr>"

definition ensure_catalog_shape :: "loaded_catalog \<Rightarrow> (petal_error, unit) result" where
  "ensure_catalog_shape cat =
     (case lc_shape_error cat of
        Some e \<Rightarrow> Err (P_Vm [S ''loaded installer provenance catalog is invalid: '', S e])
      | None \<Rightarrow> Ok ())"

definition lineage_record :: "loaded_catalog \<Rightarrow> string \<Rightarrow> provenance_record option" where
  "lineage_record cat hash =
     (case lc_catalog cat of
        None \<Rightarrow> None
      | Some records \<Rightarrow> find (\<lambda>r. pr_petal r = Some hash \<and> pr_lineage r \<noteq> None) records)"

definition lineage_of :: "loaded_catalog \<Rightarrow> string \<Rightarrow> lineage option" where
  "lineage_of cat hash = (case lineage_record cat hash of Some r \<Rightarrow> pr_lineage r | None \<Rightarrow> None)"

definition check_activation ::
  "package_lib \<Rightarrow> loaded_catalog \<Rightarrow> file_system \<Rightarrow> path \<Rightarrow> string \<Rightarrow> string \<Rightarrow> (petal_error, unit) result" where
  "check_activation L cat fs base hash name =
     and_then (resolve_petal_owner L fs base name) (\<lambda>owner.
       case owner of
         None \<Rightarrow> Ok ()
       | Some outgoing \<Rightarrow>
           if outgoing = hash then Ok ()
           else and_then (ensure_catalog_shape cat) (\<lambda>_.
             if lineage_record cat outgoing \<noteq> None \<and> lineage_record cat hash = None
             then Err (P_Vm [S ''Petal '', S name,
               S '' successor release information is missing from the loaded installer catalog''])
             else if (case lineage_of cat hash of
                 Some l \<Rightarrow> ln_active l \<and> outgoing \<in> set (ln_predecessors l) | None \<Rightarrow> False) \<and>
               lineage_record cat outgoing = None
             then Err (P_Vm [S ''Petal '', S name,
               S '' predecessor release information is missing from the loaded installer catalog''])
             else Ok ()))"

definition check_default_activation ::
  "package_lib \<Rightarrow> loaded_catalog \<Rightarrow> file_system \<Rightarrow> path \<Rightarrow> string \<Rightarrow> string \<Rightarrow> (petal_error, unit) result" where
  "check_default_activation L cat fs base hash name =
     and_then (resolve_petal_owner L fs base name) (\<lambda>owner.
       case owner of
         None \<Rightarrow> Ok ()
       | Some outgoing \<Rightarrow>
           if outgoing = hash then Ok ()
           else and_then (ensure_catalog_shape cat) (\<lambda>_.
             if \<not> (case lineage_of cat hash of Some l \<Rightarrow> ln_active l | None \<Rightarrow> False)
             then Err (P_Vm [S ''Bundled Petal '', S name,
               S '' successor release information is missing or inactive in the loaded installer catalog''])
             else check_activation L cat fs base hash name))"

section \<open>Carrying private state\<close>

text \<open>
  What the copy meets: whether the lock of the private stores is poisoned, and the failures of the
  two copies.
\<close>

record carry_env =
  ce_poisoned :: bool
  ce_public :: carry_faults
  ce_accounts :: carry_faults

definition carrying :: "carry_env \<Rightarrow> path \<Rightarrow> string \<Rightarrow> string \<Rightarrow> (petal_error, bool) act" where
  "carrying env base predecessor successor w =
     (case carry_forward \<lparr>dk_fs = w_fs w, dk_poisoned = ce_poisoned env\<rparr> (ce_public env) (ce_accounts env)
        (private_data_root base) (private_account_data_root base) predecessor successor of
        (d, r) \<Rightarrow> (w\<lparr>w_fs := dk_fs d\<rparr>,
          map_err (\<lambda>e. P_Vm ([S ''Petal private-state carry-forward failed: ''] @ host_error_text e)) r))"

definition partition_path :: "(string \<Rightarrow> string) \<Rightarrow> path \<Rightarrow> string \<Rightarrow> (string \<times> 32 word) option \<Rightarrow> path" where
  "partition_path blake3 base hash account =
     (case account of
        Some (wallet, number) \<Rightarrow> private_account_data_root base @ [hash, account_digest blake3 wallet number]
      | None \<Rightarrow> private_data_root base @ [hash])"

definition predecessor_matches :: "loaded_catalog \<Rightarrow> provenance_record \<Rightarrow> lineage \<Rightarrow> string \<Rightarrow> bool" where
  "predecessor_matches cat r l predecessor \<longleftrightarrow>
     (case lineage_record cat predecessor of
        None \<Rightarrow> False
      | Some previous \<Rightarrow> pr_publisher previous = pr_publisher r \<and>
          (case pr_lineage previous of Some m \<Rightarrow> ln_id m = ln_id l | None \<Rightarrow> False))"

text \<open>
  An existing partition stays usable where the relation to the predecessor cannot be checked
  (\<open>Ok False\<close>); a new one is not created. The panic of \<open>expect\<close> on the lineage of a record chosen
  for having one is an error of the model.
\<close>

definition carry_private_store ::
  "(string \<Rightarrow> string) \<Rightarrow> carry_env \<Rightarrow> loaded_catalog \<Rightarrow> path \<Rightarrow> petal_meta \<Rightarrow> (string \<times> 32 word) option \<Rightarrow>
   (petal_error, bool) act" where
  "carry_private_store blake3 env cat base meta account =
     (let hash = pm_hash meta;
          unless_present = (\<lambda>msg. reading (\<lambda>fs.
            if is_dir fs (partition_path blake3 base hash account) then Ok False else Err (P_Vm msg)))
      in case pm_replaced meta of
        None \<Rightarrow> give (Ok True)
      | Some predecessor \<Rightarrow>
          (case lc_shape_error cat of
             Some e \<Rightarrow> unless_present [S ''loaded installer provenance catalog is invalid: '', S e]
           | None \<Rightarrow>
               if lineage_record cat predecessor \<noteq> None \<and> lineage_record cat hash = None
               then unless_present [S ''Petal successor '', S hash,
                 S '' release information is missing from the loaded installer catalog'']
               else case lineage_record cat hash of
                 None \<Rightarrow> give (Ok True)
               | Some r \<Rightarrow>
                   (case pr_lineage r of
                      None \<Rightarrow> give (Err (P_Vm [S ''selected lineage record'']))
                    | Some l \<Rightarrow>
                        let listed = predecessor \<in> set (ln_predecessors l) in
                        if ln_active l \<and> listed \<and> lineage_record cat predecessor = None
                        then unless_present [S ''Petal predecessor '', S predecessor,
                          S '' release information is missing from the loaded installer catalog'']
                        else if \<not> (ln_active l \<and> predecessor_matches cat r l predecessor \<and> listed)
                        then give (Ok True)
                        else seq (carrying env base predecessor hash) (\<lambda>_. give (Ok True)))))"

text \<open>The set of packages whose private store is ready.\<close>

definition prepare_private_store ::
  "package_lib \<Rightarrow> (string \<Rightarrow> string) \<Rightarrow> carry_env \<Rightarrow> loaded_catalog \<Rightarrow> path \<Rightarrow> string set \<Rightarrow> string \<Rightarrow>
   (string \<times> 32 word) option \<Rightarrow> (petal_error, string set) act" where
  "prepare_private_store L blake3 env cat base prepared hash account =
     (if hash \<in> prepared then give (Ok prepared)
      else seq (reading (\<lambda>fs. load_meta L fs base hash)) (\<lambda>meta.
        seq (carry_private_store blake3 env cat base meta account) (\<lambda>ready.
          give (Ok (if ready then insert hash prepared else prepared)))))"

text \<open>
  The activation the runner hands to the store. A staged package always has a name; the model
  gives the panic of \<open>expect\<close> as an error.
\<close>

definition activate ::
  "package_lib \<Rightarrow> (string \<Rightarrow> string) \<Rightarrow> carry_env \<Rightarrow> loaded_catalog \<Rightarrow> path \<Rightarrow> petal_meta \<Rightarrow> (petal_error, unit) act" where
  "activate L blake3 env cat base meta =
     (case pm_name meta of
        None \<Rightarrow> give (Err (P_Vm [S ''staged package name'']))
      | Some name \<Rightarrow>
          seq (reading (\<lambda>fs. check_activation L cat fs base (pm_hash meta) name)) (\<lambda>_.
          seq (carry_private_store blake3 env cat base meta None) (\<lambda>_. give (Ok ()))))"

definition install_staged_petal_package ::
  "package_lib \<Rightarrow> (string \<Rightarrow> string) \<Rightarrow> carry_env \<Rightarrow> loaded_catalog \<Rightarrow> path \<Rightarrow> bool \<Rightarrow> (nat \<Rightarrow> file_system \<Rightarrow> (petal_error, unit) result) \<Rightarrow>
   nat \<Rightarrow> path \<Rightarrow> prepared_package \<Rightarrow> source_provenance option \<Rightarrow>
   (petal_error, install_result \<times> petal_meta \<times> route_index) act" where
  "install_staged_petal_package L blake3 env cat base busy guard now tmp package source =
     install_staged_petal_package_with_activation L base busy guard (activate L blake3 env cat base) now tmp package source"

section \<open>The petname registry\<close>

text \<open>
  The TOML codec of the registry file; a file that is not UTF-8 is one of the failures of \<open>nl_dec\<close>.
\<close>

type_synonym names = "(string, string) btree"

record name_lib =
  nl_enc :: "names \<Rightarrow> (string, string) result"
  nl_dec :: "string \<Rightarrow> (string, names) result"

definition names_path :: "path \<Rightarrow> path" where
  "names_path dir = dir @ [''names.toml'']"

text \<open>\<open>char::is_control\<close> on UTF-8: U+0000 to U+001F, and U+007F to U+009F.\<close>

fun petname_control :: "string \<Rightarrow> bool" where
  "petname_control [] = False"
| "petname_control (c # s) =
     (byte c < 32 \<or> byte c = 127 \<or>
      byte c = 194 \<and> (case s of d # _ \<Rightarrow> 128 \<le> byte d \<and> byte d \<le> 159 | [] \<Rightarrow> False) \<or> petname_control s)"

definition validate_petname :: "string \<Rightarrow> (petal_error, unit) result" where
  "validate_petname name =
     (if name = [] then Err (InvalidName [S ''empty''])
      else if length name > 64 then Err (InvalidName [S ''too long: '', S name])
      else if starts_with name ''.'' then Err (InvalidName [S ''leading dot: '', S name])
      else if name = ''names'' then Err (InvalidName [S ''reserved: '', S name])
      else if CHR ''/'' \<in> set name \<or> CHR 0x5C \<in> set name \<or> petname_control name
      then Err (InvalidName [S ''disallowed character in '', V2 name])
      else if is_valid_hex_hash name then Err (InvalidName [S ''looks like a hash: '', S name])
      else Ok ())"

definition load_names :: "name_lib \<Rightarrow> path \<Rightarrow> file_system \<Rightarrow> (petal_error, names) result" where
  "load_names T dir fs =
     (case tree_read fs (names_path dir) of
        Inr b \<Rightarrow> serde (nl_dec T b)
      | Inl e \<Rightarrow> if e = Io_NotFound then Ok [] else Err (io_error e))"

definition open_registry :: "name_lib \<Rightarrow> path \<Rightarrow> (petal_error, names) act" where
  "open_registry T dir = seq (io (sys_mkdir_all dir)) (\<lambda>_. reading (load_names T dir))"

definition persist :: "name_lib \<Rightarrow> path \<Rightarrow> names \<Rightarrow> (petal_error, unit) act" where
  "persist T dir names =
     seq (give (serde (nl_enc T names))) (\<lambda>body. io (write_atomic (names_path dir) body))"

definition lookup_petname :: "names \<Rightarrow> string \<Rightarrow> string option" where
  "lookup_petname names name = bt_lookup names name"

text \<open>The registry in memory changes before it is persisted: it comes back beside the result.\<close>

definition set_petname :: "name_lib \<Rightarrow> path \<Rightarrow> string \<Rightarrow> string \<Rightarrow> names \<Rightarrow> world \<Rightarrow> names \<times> world \<times> (petal_error, unit) result" where
  "set_petname T dir name hash names w =
     (case validate_petname name of
        Inl e \<Rightarrow> (names, w, Err e)
      | Inr _ \<Rightarrow>
          if \<not> is_valid_hex_hash hash then (names, w, Err (InvalidHash [S hash]))
          else let names' = bt_insert name hash names in (names', persist T dir names' w))"

definition bt_remove :: "string \<Rightarrow> names \<Rightarrow> names" where
  "bt_remove name names = filter (\<lambda>(n, _). n \<noteq> name) names"

definition unset_petname :: "name_lib \<Rightarrow> path \<Rightarrow> string \<Rightarrow> names \<Rightarrow> world \<Rightarrow> names \<times> world \<times> (petal_error, bool) result" where
  "unset_petname T dir name names w =
     (case validate_petname name of
        Inl e \<Rightarrow> (names, w, Err e)
      | Inr _ \<Rightarrow>
          if bt_lookup names name = None then (names, w, Ok False)
          else let names' = bt_remove name names in
            (names', seq (persist T dir names') (\<lambda>_. give (Ok True)) w))"

fun unset_all :: "name_lib \<Rightarrow> path \<Rightarrow> string list \<Rightarrow> names \<Rightarrow> world \<Rightarrow> names \<times> world \<times> (petal_error, unit) result" where
  "unset_all T dir [] names w = (names, w, Ok ())"
| "unset_all T dir (n # ns) names w =
     (case unset_petname T dir n names w of
        (names', w', Inl e) \<Rightarrow> (names', w', Err e)
      | (names', w', Inr _) \<Rightarrow> unset_all T dir ns names' w')"

section \<open>Resolution and removal\<close>

fun resolve_hash_prefix_from :: "string \<Rightarrow> string option \<Rightarrow> string list \<Rightarrow> (petal_error, string option) result" where
  "resolve_hash_prefix_from pre found [] = Ok found"
| "resolve_hash_prefix_from pre found (h # hs) =
     (if \<not> starts_with h pre then resolve_hash_prefix_from pre found hs
      else if found \<noteq> None
      then Err (InvalidHash [S pre, S '' is ambiguous: matches multiple installed petals''])
      else resolve_hash_prefix_from pre (Some h) hs)"

definition resolve_hash_prefix :: "string \<Rightarrow> string list \<Rightarrow> (petal_error, string option) result" where
  "resolve_hash_prefix pre hashes = resolve_hash_prefix_from pre None hashes"

definition resolve_mount :: "package_lib \<Rightarrow> file_system \<Rightarrow> path \<Rightarrow> string \<Rightarrow> (petal_error, string option) result" where
  "resolve_mount L fs base target =
     and_then (list_petal_owners L fs base) (\<lambda>mounts.
       Ok (map_option snd (find (\<lambda>(name, _). name = target) mounts)))"

definition resolve_uninstall_hash ::
  "package_lib \<Rightarrow> file_system \<Rightarrow> path \<Rightarrow> names \<Rightarrow> string \<Rightarrow> (petal_error, string option) result" where
  "resolve_uninstall_hash L fs base names target =
     (if is_valid_hex_hash target then Ok (Some target)
      else and_then
        (if is_hex_hash_prefix target then
           and_then (list_hashes fs base) (\<lambda>hashes.
           and_then (list_package_hashes L fs base) (\<lambda>packages.
             resolve_hash_prefix target (sorted_list_of_set (set hashes \<union> set packages))))
         else Ok None) (\<lambda>found.
        case found of
          Some hash \<Rightarrow> Ok (Some hash)
        | None \<Rightarrow>
            and_then (resolve_mount L fs base target) (\<lambda>mounted.
              case mounted of
                Some hash \<Rightarrow> Ok (Some hash)
              | None \<Rightarrow> Ok (lookup_petname names target))))"

definition resolve_petal ::
  "package_lib \<Rightarrow> file_system \<Rightarrow> path \<Rightarrow> names \<Rightarrow> string \<Rightarrow> (petal_error, string) result" where
  "resolve_petal L fs base names name_or_hash =
     (if is_valid_hex_hash name_or_hash \<and>
         (contains_wasm fs base name_or_hash \<or> contains_package fs base name_or_hash)
      then Ok name_or_hash
      else and_then (resolve_petal_owner L fs base name_or_hash) (\<lambda>owner.
        case owner of
          Some hash \<Rightarrow> Ok hash
        | None \<Rightarrow> ok_or (lookup_petname names name_or_hash) (P_NotFound [S name_or_hash])))"

definition resolve_petal_mount :: "package_lib \<Rightarrow> file_system \<Rightarrow> path \<Rightarrow> string \<Rightarrow> (petal_error, string) result" where
  "resolve_petal_mount L fs base mount =
     and_then (resolve_petal_owner L fs base mount) (\<lambda>owner.
       ok_or owner (P_NotFound [S ''petals/'', S mount]))"

definition load_petal_route_index ::
  "package_lib \<Rightarrow> file_system \<Rightarrow> path \<Rightarrow> string \<Rightarrow> (petal_error, route_index) result" where
  "load_petal_route_index L fs base mount =
     and_then (resolve_petal_mount L fs base mount) (\<lambda>hash. load_route_index L fs base hash)"

definition petal_document ::
  "package_lib \<Rightarrow> file_system \<Rightarrow> path \<Rightarrow> string \<Rightarrow> string \<Rightarrow> (petal_error, string) result" where
  "petal_document L fs base mount name =
     (if name \<notin> {''README.md'', ''AGENTS.md''} then Err (P_NotFound [S (app_path mount name)])
      else and_then (resolve_petal_mount L fs base mount) (\<lambda>hash.
        read_found fs (package_path base hash @ [''source'', name]) [S (app_path mount name)]))"

definition uninstall_petal ::
  "package_lib \<Rightarrow> name_lib \<Rightarrow> path \<Rightarrow> path \<Rightarrow> bool \<Rightarrow> string \<Rightarrow> names \<Rightarrow> world \<Rightarrow>
   names \<times> world \<times> (petal_error, bool) result" where
  "uninstall_petal L T base dir busy target names w =
     (case resolve_uninstall_hash L (w_fs w) base names target of
        Inl e \<Rightarrow> (names, w, Err e)
      | Inr None \<Rightarrow> (names, w, Ok False)
      | Inr (Some hash) \<Rightarrow>
          let to_unset = map fst (filter (\<lambda>(_, h). h = hash) names) in
          (case uninstall L base busy hash w of
             (w1, Inl e) \<Rightarrow> (names, w1, Err e)
           | (w1, Inr removed) \<Rightarrow>
               (case unset_all T dir to_unset names w1 of
                  (names', w2, r) \<Rightarrow> (names', w2, and_then r (\<lambda>_. Ok removed)))))"

section \<open>Activation works outside the store\<close>

lemma copy_partition_frame:
  assumes "\<not> under (X @ [b]) q" "\<not> under (carry_temporary X b) q"
  shows "map_of (fst (copy_partition fs faults X a b)) q = map_of fs q"
  using assms
  by (auto simp: copy_partition_def copy_directory_def rename_tree_def Let_def map_add_def map_of_copy_other
      split: option.splits prod.splits sum.splits bool.splits if_splits)

lemma carry_forward_frame:
  assumes "\<And>z. \<not> under (D @ [z]) q" "\<And>z. \<not> under (R @ [z]) q"
  shows "map_of (dk_fs (fst (carry_forward d pf af D R a b))) q = map_of (dk_fs d) q"
proof -
  have f: "map_of (fst (copy_partition fs faults X a b)) q = map_of fs q" if "X \<in> {D, R}" for X fs faults
    by (rule copy_partition_frame) (use that assms in \<open>auto simp: carry_temporary_def\<close>)
  show ?thesis
    using f [of D "dk_fs d" pf] f [of R "fst (copy_partition (dk_fs d) pf D a b)" af]
    by (auto simp: carry_forward_def split: sum.splits prod.splits)
qed

lemma leaves_carrying [frame]:
  assumes "\<And>q z. P q \<Longrightarrow> \<not> under (private_data_root base @ [z]) q \<and> \<not> under (private_account_data_root base @ [z]) q"
  shows "leaves exact P (carrying env base a b)"
  unfolding leaves_def same_at_def carrying_def
  using assms by (auto simp: carry_forward_frame split: prod.splits dest!: arg_cong [of _ _ fst])

lemma leaves_carry_private_store [frame]:
  assumes "\<And>q z. P q \<Longrightarrow> \<not> under (private_data_root base @ [z]) q \<and> \<not> under (private_account_data_root base @ [z]) q"
  shows "leaves exact P (carry_private_store blake3 env cat base meta account)"
  unfolding carry_private_store_def Let_def
  by (cases "pm_replaced meta"; cases "lc_shape_error cat"; cases "lineage_record cat (pm_hash meta)")
    (auto intro!: frame assms [THEN conjunct1] assms [THEN conjunct2] split: option.split)

lemma leaves_activate [frame]:
  assumes "\<And>q z. P q \<Longrightarrow> \<not> under (private_data_root base @ [z]) q \<and> \<not> under (private_account_data_root base @ [z]) q"
  shows "leaves exact P (activate L blake3 env cat base meta)"
  unfolding activate_def by (cases "pm_name meta") (auto intro!: frame assms [THEN conjunct1] assms [THEN conjunct2])

lemma private_roots_apart:
  "store_side (d @ [''store'']) q \<Longrightarrow>
     \<not> under (private_data_root (d @ [''store'']) @ [z]) q \<and> \<not> under (private_account_data_root (d @ [''store'']) @ [z]) q"
  by (auto simp: store_side_def under_iff private_data_root_def private_account_data_root_def prefix_def append_eq_append_conv2
      Cons_eq_append_conv)

interpretation runner: activation "activate L blake3 env cat (d @ [''store''])" "d @ [''store'']"
  by unfold_locales (rule leaves_activate [OF private_roots_apart])

section \<open>Names\<close>

lemma is_ok_map_err [simp]: "is_ok (map_err f x) = is_ok x"
  by (cases x) simp_all



definition line_names :: name_lib where
  "line_names =
     \<lparr>nl_enc = (\<lambda>names. Ok (concat (map (\<lambda>(n, h). n @ ''='' @ h @ [CHR 0x0A]) names))),
      nl_dec = (\<lambda>s. Ok (map (\<lambda>l. (hd (split_on CHR ''='' l), last (split_on CHR ''='' l))) (butlast (split_on CHR 0x0A s))))\<rparr>"

definition empty_dir :: world where
  "empty_dir = \<lparr>w_fs = [([''r''], Dir)], w_plan = (\<lambda>_. None)\<rparr>"


text \<open>
  C40: the registry accepts petnames that never resolve. A petname may hold characters that no package
  name has, a dot for instance. Such a name is stored and found by the registry, but \<open>resolve\<close> asks
  the package store first, which refuses the name, so that resolving fails in every state.
\<close>

theorem petname_never_resolves:
  assumes "set_petname T dir name hash names w = (names', w', Ok ())" "\<not> is_ok (validate_owner_name name)"
  shows "lookup_petname names' name = Some hash \<and> \<not> is_ok (resolve_petal L fs base names' name)"
proof -
  have v: "validate_petname name = Ok ()" "is_valid_hex_hash hash" "names' = bt_insert name hash names"
    using assms(1) by (auto simp: set_petname_def Let_def split: sum.splits if_splits)
  then have "\<not> is_valid_hex_hash name" by (auto simp: validate_petname_def split: if_splits)
  moreover have "\<not> is_ok (resolve_petal_owner L fs base name)"
    using assms(2) by (cases "validate_owner_name name") (simp_all add: resolve_petal_owner_def)
  ultimately show ?thesis using v
    by (cases "resolve_petal_owner L fs base name") (simp_all add: resolve_petal_def lookup_petname_def bt_lookup_insert)
qed

theorem petname_never_resolves_witness:
  "\<not> is_ok (resolve_petal digest_lib [] [''b''] [(''my.app'', sample_hash CHR ''1'')] ''my.app'')"
proof -
  obtain names' w' r where run: "set_petname line_names [''r''] ''my.app'' (sample_hash CHR ''1'') [] empty_dir = (names', w', r)"
    by (cases "set_petname line_names [''r''] ''my.app'' (sample_hash CHR ''1'') [] empty_dir")
  have "snd (snd (set_petname line_names [''r''] ''my.app'' (sample_hash CHR ''1'') [] empty_dir)) = Ok ()"
    "fst (set_petname line_names [''r''] ''my.app'' (sample_hash CHR ''1'') [] empty_dir) = [(''my.app'', sample_hash CHR ''1'')]"
    "\<not> is_ok (validate_owner_name ''my.app'')"
    by code_simp+
  with petname_never_resolves [of line_names "[''r'']" "''my.app''" "sample_hash CHR ''1''" "[]" empty_dir names' w'] run
  show ?thesis by simp
qed

section \<open>Hash prefixes\<close>






end
