(* ===== verification/Petal_Invariant.thy ===== *)
theory Petal_Invariant
  imports Petal_Runner
begin

text \<open>
  The invariant of the package store, and that every operation of \<open>store.rs\<close> and \<open>runner.rs\<close> keeps
  it whatever fails: the file tree is well formed (every entry lies in a directory), and the
  metadata stored for a hash is the metadata of that hash.
\<close>

section \<open>Actions that keep a predicate\<close>

named_theorems keeping

definition keeps :: "(file_system \<Rightarrow> bool) \<Rightarrow> ('e, 'a) act \<Rightarrow> bool" where
  "keeps I a \<longleftrightarrow> (\<forall>w. I (w_fs w) \<longrightarrow> I (w_fs (fst (a w))))"

lemma keepsD: "keeps I a \<Longrightarrow> I (w_fs w) \<Longrightarrow> a w = (w', r) \<Longrightarrow> I (w_fs w')"
  unfolding keeps_def by (metis fst_conv)

lemma keeps_give [keeping]: "keeps I (give r)"
  by (simp add: keeps_def give_def)

lemma keeps_reading [keeping]: "keeps I (reading f)"
  by (simp add: keeps_def reading_def)

lemma keeps_seq [keeping]: "keeps I a \<Longrightarrow> (\<And>x. keeps I (k x)) \<Longrightarrow> keeps I (seq a k)"
  by (fastforce simp: keeps_def seq_def split: prod.split sum.split)

lemma keeps_failing_as [keeping]: "keeps I a \<Longrightarrow> keeps I (failing_as f a)"
  by (simp add: keeps_def failing_as_def case_prod_unfold)

lemma keeps_io [keeping]: "keeps I a \<Longrightarrow> keeps I (io a)"
  by (simp add: io_def keeps_failing_as)

lemma keeps_ignoring [keeping]: "keeps I a \<Longrightarrow> keeps I (ignoring a)"
  by (simp add: keeps_def ignoring_def)

lemma keeps_removing [keeping]: "keeps I a \<Longrightarrow> keeps I (removing a)"
  by (auto simp: keeps_def removing_def case_prod_unfold split: sum.splits)

lemma keeps_for_each [keeping]: "(\<And>x. keeps I (f x)) \<Longrightarrow> keeps I (for_each f xs)"
  by (induction xs) (auto intro: keeping)

lemma keeps_if [keeping]: "(c \<Longrightarrow> keeps I a) \<Longrightarrow> (\<not> c \<Longrightarrow> keeps I b) \<Longrightarrow> keeps I (if c then a else b)"
  by simp

lemma keeps_prod [keeping]: "(\<And>x y. keeps I (f x y)) \<Longrightarrow> keeps I (case p of (x, y) \<Rightarrow> f x y)"
  by (simp add: case_prod_unfold)

lemma keeps_option [keeping]: "keeps I a \<Longrightarrow> (\<And>x. keeps I (f x)) \<Longrightarrow> keeps I (case m of None \<Rightarrow> a | Some x \<Rightarrow> f x)"
  by (simp split: option.split)

lemma keeps_dropping [keeping]: "keeps I a \<Longrightarrow> keeps I (sys_remove_dir_all dir) \<Longrightarrow> keeps I (dropping dir a)"
  by (auto simp: keeps_def dropping_def case_prod_unfold)

lemma keeps_dropping_on_error [keeping]: "keeps I a \<Longrightarrow> keeps I (sys_remove_dir_all dir) \<Longrightarrow> keeps I (dropping_on_error dir a)"
  by (auto simp: keeps_def dropping_on_error_def case_prod_unfold)

lemma keeps_changing: "(\<And>fs fault. I fs \<Longrightarrow> I (fst (f fs fault))) \<Longrightarrow> keeps I (changing f)"
  by (simp add: keeps_def changing_def case_prod_unfold)

text \<open>The same from one state, for actions that depend on what was read before.\<close>

definition keeps_at :: "(file_system \<Rightarrow> bool) \<Rightarrow> world \<Rightarrow> ('e, 'a) act \<Rightarrow> bool" where
  "keeps_at I w a \<longleftrightarrow> (I (w_fs w) \<longrightarrow> I (w_fs (fst (a w))))"

lemma keepsI: "(\<And>w. keeps_at I w a) \<Longrightarrow> keeps I a"
  by (simp add: keeps_def keeps_at_def)

lemma keeps_at_read: "(\<And>x. f (w_fs w) = Ok x \<Longrightarrow> keeps_at I w (k x)) \<Longrightarrow> keeps_at I w (seq (reading f) k)"
  by (cases "f (w_fs w)") (simp_all add: keeps_at_def seq_def reading_def)

lemma keeps_at_seq: "keeps_at I w a \<Longrightarrow> (\<And>x. keeps I (k x)) \<Longrightarrow> keeps_at I w (seq a k)"
  by (auto simp: keeps_at_def keeps_def seq_def case_prod_unfold split: sum.splits)

section \<open>The file tree\<close>

lemma tree_ok_iff: "tree_ok fs \<longleftrightarrow> (\<forall>q. map_of fs q \<noteq> None \<longrightarrow> length q \<le> 1 \<or> map_of fs (butlast q) = Some Dir)"
proof -
  have "(\<forall>q. map_of fs q \<noteq> None \<longrightarrow> P q) \<longleftrightarrow> (\<forall>x\<in>set fs. P (fst x))" for P
    unfolding map_of_eq_None_iff by blast
  then show ?thesis by (simp add: tree_ok_def list_all_iff case_prod_unfold)
qed

lemma tree_update:
  assumes t: "tree_ok fs" and p: "length p \<le> 1 \<or> map_of fs (butlast p) = Some Dir" and d: "map_of fs p = Some Dir \<longrightarrow> nd = Dir"
  shows "tree_ok (AList.update p nd fs)"
  unfolding tree_ok_iff
proof (intro allI impI)
  fix q
  assume q: "map_of (AList.update p nd fs) q \<noteq> None"
  show "length q \<le> 1 \<or> map_of (AList.update p nd fs) (butlast q) = Some Dir"
  proof (cases "q = p")
    case True
    then show ?thesis using p length_butlast [of p] by (cases "butlast p = p") (auto simp: update_conv' dest: arg_cong [of _ _ length])
  next
    case False
    then have "length q \<le> 1 \<or> map_of fs (butlast q) = Some Dir" using t q unfolding tree_ok_iff by (simp add: update_conv')
    then show ?thesis using d by (cases "butlast q = p") (auto simp: update_conv')
  qed
qed

lemma tree_delete:
  assumes t: "tree_ok fs" and d: "map_of fs p \<noteq> Some Dir"
  shows "tree_ok (AList.delete p fs)"
  unfolding tree_ok_iff
proof (intro allI impI)
  fix q
  assume "map_of (AList.delete p fs) q \<noteq> None"
  then have "map_of fs q \<noteq> None" by (simp add: delete_conv' split: if_splits)
  then have "length q \<le> 1 \<or> map_of fs (butlast q) = Some Dir" using t unfolding tree_ok_iff by blast
  then show "length q \<le> 1 \<or> map_of (AList.delete p fs) (butlast q) = Some Dir"
    using d by (cases "butlast q = p") (simp_all add: delete_conv')
qed

lemma tree_filter:
  assumes t: "tree_ok fs" and k: "\<And>q. K q \<Longrightarrow> K (butlast q)"
  shows "tree_ok (filter (\<lambda>(q, _). K q) fs)"
  unfolding tree_ok_iff map_of_filter_fst
proof (intro allI impI)
  fix q
  assume "(if K q then map_of fs q else None) \<noteq> None"
  then have "K q" "map_of fs q \<noteq> None" by (simp_all split: if_splits)
  then show "length q \<le> 1 \<or> (if K (butlast q) then map_of fs (butlast q) else None) = Some Dir"
    using t k unfolding tree_ok_iff by simp
qed

lemma under_butlast: "under p (butlast q) \<Longrightarrow> under p q"
  by (cases q rule: rev_cases) (auto simp: under_iff)

lemma butlast_under: "under q k \<Longrightarrow> under (butlast q) k"
  by (cases q rule: rev_cases) (auto simp: under_iff)

text \<open>Putting a copy of a subtree at an unused place of a directory.\<close>

lemma tree_graft:
  assumes f: "tree_ok F" and parent: "length dst \<le> 1 \<or> map_of F (butlast dst) = Some Dir" and free: "\<And>rel. map_of F (dst @ rel) = None"
    and below: "\<And>q nd. (q, nd) \<in> set T \<Longrightarrow> under src q"
    and closed: "\<And>rel. map_of T (src @ rel) \<noteq> None \<Longrightarrow> rel \<noteq> [] \<Longrightarrow> map_of T (src @ butlast rel) = Some Dir"
  shows "tree_ok (copy_tree T src dst @ F)"
  unfolding tree_ok_iff
proof (intro allI impI)
  let ?m = "map_of (copy_tree T src dst @ F)"
  have inside: "?m (dst @ rel) = map_of T (src @ rel)" for rel
    using map_of_copy [where tree = T and src = src and dst = dst and rel = rel, OF below] free [of rel] by (auto simp: map_add_def split: option.splits)
  have outside: "?m q = map_of F q" if "\<not> under dst q" for q
    using map_of_copy_other [OF that] by (simp add: map_add_def)
  fix q
  assume q: "?m q \<noteq> None"
  show "length q \<le> 1 \<or> ?m (butlast q) = Some Dir"
  proof (cases "under dst q")
    case True
    then obtain rel where rel: "q = dst @ rel" by (auto simp: under_iff)
    show ?thesis
    proof (cases "rel = []")
      case True
      then show ?thesis using parent outside [of "butlast q"] rel by (cases q rule: rev_cases) (auto simp: under_iff)
    next
      case False
      then have "?m (dst @ butlast rel) = Some Dir" using closed [of rel] q unfolding rel inside by blast
      then show ?thesis using False by (simp add: rel butlast_append)
    qed
  next
    case False
    have "map_of F q \<noteq> None" using q unfolding outside [OF False] .
    then have "length q \<le> 1 \<or> map_of F (butlast q) = Some Dir" using f unfolding tree_ok_iff by blast
    then show ?thesis using outside [of "butlast q"] False under_butlast by metis
  qed
qed

lemma tree_subtree_closed:
  assumes "tree_ok fs" "src \<noteq> []" "map_of (tree_of fs src) (src @ rel) \<noteq> None" "rel \<noteq> []"
  shows "map_of (tree_of fs src) (src @ butlast rel) = Some Dir"
proof -
  have m: "map_of (tree_of fs src) q = (if under src q then map_of fs q else None)" for q
    unfolding tree_of_def by (rule map_of_filter_fst)
  have "map_of fs (butlast (src @ rel)) = Some Dir"
    using assms unfolding tree_ok_iff m by (cases rel rule: rev_cases; cases src) (auto split: if_splits)
  then show ?thesis using assms(4) by (simp add: m butlast_append)
qed

lemma create_dirs_tree:
  "tree_ok fs \<Longrightarrow> pre = [] \<or> map_of fs pre = Some Dir \<Longrightarrow> tree_ok (fst (create_dirs fs fault pre cs))"
proof (induction fs fault pre cs rule: create_dirs.induct)
  case (2 fs fault pre c cs)
  have u: "tree_ok (AList.update (pre @ [c]) Dir fs)" using "2.prems" by (intro tree_update) auto
  have d: "map_of (AList.update (pre @ [c]) Dir fs) (pre @ [c]) = Some Dir" by (simp add: update_conv')
  show ?case
    using 2 u d by (auto split: option.splits tnode.splits nat.splits)
qed simp

lemma keeps_mkdir_all [keeping]: "keeps tree_ok (sys_mkdir_all p)"
  unfolding sys_mkdir_all_def create_dir_all_def by (rule keeps_changing) (rule create_dirs_tree, simp_all)

lemma keeps_mkdir [keeping]: "keeps tree_ok (sys_mkdir p)"
  unfolding sys_mkdir_def
  by (rule keeps_changing) (auto simp: exists_at_def is_dir_def intro!: tree_update split: option.split)

lemma open_for_write_parent:
  assumes "tree_ok fs" "open_for_write fs p False = Ok u"
  shows "(length p \<le> 1 \<or> map_of fs (butlast p) = Some Dir) \<and> map_of fs p \<noteq> Some Dir"
  using assms unfolding open_for_write_def tree_ok_iff
  by (cases p rule: rev_cases) (auto split: option.splits tnode.splits if_splits)

lemma keeps_write [keeping]: "keeps tree_ok (sys_write p data)"
  unfolding sys_write_def
  by (rule keeps_changing)
    (auto intro!: tree_update dest: open_for_write_parent split: sum.split option.split call_fault.split)

lemma keeps_remove [keeping]: "keeps tree_ok (sys_remove p)"
  unfolding sys_remove_def fs_remove_def
  by (rule keeps_changing) (auto intro!: tree_delete split: option.split tnode.split)

lemma keeps_remove_dir_all [keeping]: "keeps tree_ok (sys_remove_dir_all p)"
  unfolding sys_remove_dir_all_def keep_of_def remove_tree_def
  by (rule keeps_changing)
    (auto intro!: tree_filter dest: under_butlast butlast_under simp: list_ex_iff split: option.split tnode.split call_fault.split)

lemma butlast_temporary [simp]: "butlast (temporary p) = butlast p"
  by (simp add: temporary_def)

lemma keeps_write_atomic [keeping]: "keeps tree_ok (write_atomic p data)"
  unfolding keeps_def
proof (intro allI impI)
  fix w :: world
  assume t: "tree_ok (w_fs w)"
  obtain w1 r where s: "sys_write (temporary p) data w = (w1, r)" by (cases "sys_write (temporary p) data w")
  have t1: "tree_ok (w_fs w1)" using keepsD [OF keeps_write t s] .
  show "tree_ok (w_fs (fst (write_atomic p data w)))"
  proof (cases r)
    case (Inl e)
    then show ?thesis using s t1 by (simp add: write_atomic_def seq_def)
  next
    case (Inr u)
    then obtain md where reg: "map_of (w_fs w1) (temporary p) = Some (Reg data md)"
      using s by (auto simp: sys_write_def changing_def update_conv' split: sum.splits option.splits call_fault.splits)
    have parent: "length p \<le> 1 \<or> map_of (w_fs w1) (butlast p) = Some Dir"
    proof -
      have "length (temporary p) \<le> 1 \<or> map_of (w_fs w1) (butlast p) = Some Dir"
        using t1 reg unfolding tree_ok_iff butlast_temporary [of p, symmetric] by blast
      then show ?thesis by (cases p rule: rev_cases) (auto simp: temporary_def)
    qed
    have "tree_ok (fst (fs_rename (w_fs w1) (temporary p) p f))" for f
      using reg parent t1
      by (auto simp: fs_rename_def delete_conv' intro!: tree_update tree_delete split: option.split if_splits)
    then show ?thesis using s Inr by (simp add: write_atomic_def seq_def sys_rename_def changing_def case_prod_unfold)
  qed
qed

lemma remove_tree_ok: "tree_ok fs \<Longrightarrow> tree_ok (remove_tree fs p)"
  unfolding remove_tree_def by (rule tree_filter) (auto dest: under_butlast)

text \<open>Moving a directory to a free name of the same parent.\<close>

lemma rename_tree_ok:
  assumes t: "tree_ok fs" and d: "map_of fs (p @ [dst]) = None" and s: "map_of fs p = Some Dir"
  shows "tree_ok (fst (rename_tree fs (p @ [src]) (p @ [dst]) fault))"
proof -
  have "tree_ok (copy_tree (tree_of fs (p @ [src])) (p @ [src]) (p @ [dst]) @ remove_tree fs (p @ [src]))"
  proof (rule tree_graft [OF remove_tree_ok [OF t]])
    show "length (p @ [dst]) \<le> 1 \<or> map_of (remove_tree fs (p @ [src])) (butlast (p @ [dst])) = Some Dir"
      using s by (auto simp: under_iff)
    show "map_of (remove_tree fs (p @ [src])) ((p @ [dst]) @ rel) = None" for rel
      using tree_ok_absent [OF t _ d, of rel] by simp
    show "under (p @ [src]) q" if "(q, nd) \<in> set (tree_of fs (p @ [src]))" for q nd using tree_under [OF that] .
    show "map_of (tree_of fs (p @ [src])) ((p @ [src]) @ butlast rel) = Some Dir"
      if "map_of (tree_of fs (p @ [src])) ((p @ [src]) @ rel) \<noteq> None" "rel \<noteq> []" for rel
      using tree_subtree_closed [OF t _ that] by simp
  qed
  then show ?thesis using t by (simp add: rename_tree_def split: option.split)
qed

lemma copy_directory_ok:
  assumes t: "tree_ok fs" and d: "\<And>rel. map_of fs (p @ dst # rel) = None" and p: "p \<noteq> []" and s: "map_of fs (p @ [src]) \<noteq> None"
  shows "tree_ok (fst (copy_directory fs (p @ [src]) (p @ [dst]) fault))"
proof -
  let ?T = "tree_of fs (p @ [src])"
  have parent: "map_of fs p = Some Dir" using tree_ok_parent [OF t p s] .
  have g: "tree_ok (copy_tree (filter (\<lambda>(q, _). K q) ?T) (p @ [src]) (p @ [dst]) @ fs)"
    if k: "\<And>q. K q \<Longrightarrow> K (butlast q)" for K
  proof (rule tree_graft [OF t])
    show "length (p @ [dst]) \<le> 1 \<or> map_of fs (butlast (p @ [dst])) = Some Dir" using parent by simp
    show "map_of fs ((p @ [dst]) @ rel) = None" for rel using d by simp
    show "under (p @ [src]) q" if "(q, nd) \<in> set (filter (\<lambda>(q, _). K q) ?T)" for q nd using that tree_under by auto
    show "map_of (filter (\<lambda>(q, _). K q) ?T) ((p @ [src]) @ butlast rel) = Some Dir"
      if r: "map_of (filter (\<lambda>(q, _). K q) ?T) ((p @ [src]) @ rel) \<noteq> None" "rel \<noteq> []" for rel
    proof -
      have r': "K ((p @ [src]) @ rel)" "map_of ?T ((p @ [src]) @ rel) \<noteq> None"
        using r(1) unfolding map_of_filter_fst by (auto split: if_splits)
      have "map_of ?T ((p @ [src]) @ butlast rel) = Some Dir" using tree_subtree_closed [OF t _ r'(2) r(2)] by simp
      moreover have "K ((p @ [src]) @ butlast rel)" using k [OF r'(1)] r(2) by (simp add: butlast_append)
      ultimately show ?thesis unfolding map_of_filter_fst by (simp only: if_True)
    qed
  qed
  have "tree_ok (copy_tree ?T (p @ [src]) (p @ [dst]) @ fs)" using g [of "\<lambda>_. True"] by simp
  moreover have "tree_ok (copy_tree (filter (\<lambda>(q, _). list_ex (\<lambda>k. under q k) got) ?T) (p @ [src]) (p @ [dst]) @ fs)" for got
    by (rule g) (auto simp: list_ex_iff dest: butlast_under)
  ultimately show ?thesis using t by (auto simp: copy_directory_def split: option.split)
qed

lemma copy_partition_ok:
  assumes t: "tree_ok fs" and x: "X \<noteq> []"
  shows "tree_ok (fst (copy_partition fs faults X a b))"
proof (cases "map_of fs (X @ [b]) \<noteq> None \<or> map_of fs (X @ [a]) = None")
  case True
  then show ?thesis using t by (auto simp: copy_partition_def)
next
  case False
  let ?n = "''.'' @ b @ ''.carry.tmp''"
  let ?fs = "remove_tree fs (X @ [?n])"
  have t1: "tree_ok ?fs" using remove_tree_ok [OF t] .
  have b: "b \<noteq> ?n" using arg_cong [of b ?n length] by auto
  obtain fs1 r1 where c: "copy_directory ?fs (X @ [a]) (X @ [?n]) (cy_copy faults) = (fs1, r1)"
    by (cases "copy_directory ?fs (X @ [a]) (X @ [?n]) (cy_copy faults)")
  have t2: "tree_ok fs1"
  proof (cases "map_of ?fs (X @ [a])")
    case None
    then show ?thesis using c t1 by (auto simp: copy_directory_def)
  next
    case (Some nd)
    have "tree_ok (fst (copy_directory ?fs (X @ [a]) (X @ [?n]) (cy_copy faults)))"
      by (rule copy_directory_ok [OF t1 _ x]) (use Some in \<open>auto simp: under_iff\<close>)
    then show ?thesis using c by simp
  qed
  have d: "map_of fs1 (X @ [b]) = None"
  proof -
    have "\<not> under (X @ [?n]) (X @ [b])" using b by (auto simp: under_iff)
    then show ?thesis using c False map_of_copy_other [of "X @ [?n]" "X @ [b]"]
      by (auto simp: copy_directory_def map_add_def split: if_splits option.splits)
  qed
  have "map_of fs X = Some Dir" using tree_ok_parent [OF t x] False by blast
  moreover have "\<not> under (X @ [?n]) X" by (auto simp: under_iff)
  ultimately have "map_of fs1 X = Some Dir"
    using c map_of_copy_other [of "X @ [?n]" X] by (auto simp: copy_directory_def map_add_def split: if_splits option.splits)
  then have t3: "tree_ok (fst (rename_tree fs1 (X @ [?n]) (X @ [b]) (cy_rename faults)))"
    by (rule rename_tree_ok [OF t2 d])
  obtain fs2 r2 where m: "rename_tree fs1 (X @ [?n]) (X @ [b]) (cy_rename faults) = (fs2, r2)"
    by (cases "rename_tree fs1 (X @ [?n]) (X @ [b]) (cy_rename faults)")
  have "tree_ok fs2" using t3 m by simp
  then show ?thesis
    using False t t2 remove_tree_ok [OF t2] c m
    by (auto simp: copy_partition_def Let_def carry_temporary_def split: option.split prod.split sum.split bool.split)
qed

lemma keeps_carrying [keeping]: "keeps tree_ok (carrying env base a b)"
proof -
  have x: "private_data_root base \<noteq> []" "private_account_data_root base \<noteq> []"
    by (simp_all add: private_data_root_def private_account_data_root_def)
  have "tree_ok (dk_fs (fst (carry_forward d pf af (private_data_root base) (private_account_data_root base) a b)))"
    if t: "tree_ok (dk_fs d)" for d pf af
  proof -
    obtain fs1 r1 where c1: "copy_partition (dk_fs d) pf (private_data_root base) a b = (fs1, r1)"
      by (cases "copy_partition (dk_fs d) pf (private_data_root base) a b")
    obtain fs2 r2 where c2: "copy_partition fs1 af (private_account_data_root base) a b = (fs2, r2)"
      by (cases "copy_partition fs1 af (private_account_data_root base) a b")
    have t1: "tree_ok fs1" using copy_partition_ok [OF t x(1), of pf a b] c1 by simp
    have "tree_ok fs2" using copy_partition_ok [OF t1 x(2), of af a b] c2 by simp
    then show ?thesis using t t1 by (auto simp: carry_forward_def c1 c2 split: sum.split)
  qed
  then have "tree_ok (w_fs (fst (carrying env base a b w)))" if "tree_ok (w_fs w)" for w
    using that by (simp add: carrying_def case_prod_unfold)
  then show ?thesis by (simp add: keeps_def)
qed

lemmas operation_defs = write_meta_def write_petal_owner_def remove_petal_owner_for_hash_def remove_package_data_def
  uninstall_def clear_dotfiles_def reconcile_name_def reconcile_petal_owners_def open_packages_def install_wasm_def
  write_package_file_def fill_staging_def stage_petal_package_def carry_private_store_def activate_def
  prepare_private_store_def Let_def

lemma keeps_tree_operations [keeping]:
  "keeps tree_ok (open_packages L base)"
  "keeps tree_ok (uninstall L base busy hash)"
  "keeps tree_ok (install_wasm L base now wasm name caps mode)"
  "keeps tree_ok (stage_petal_package L base rnd package)"
  "keeps tree_ok (write_meta L base m)"
  "keeps tree_ok (write_petal_owner L base n h)"
  "keeps tree_ok (activate L blake3 env cat base meta)"
  "keeps tree_ok (prepare_private_store L blake3 env cat base prepared hash account)"
  unfolding operation_defs by (intro keeping)+

lemma place_package_tree:
  assumes t: "tree_ok (w_fs w)"
    and run: "place_package L base (staging_dir base rnd) package (exists_at (w_fs w) (package_path base (pp_hash package))) w = (w', r)"
  shows "tree_ok (w_fs w')"
proof (cases "exists_at (w_fs w) (package_path base (pp_hash package)) \<or> map_of (w_fs w) (staging_dir base rnd) = None")
  case True
  then show ?thesis using t run
    by (auto simp: place_package_def reading_def io_def failing_as_def sys_rename_dir_def changing_def exists_at_def split: if_splits)
next
  case False
  let ?p = "base @ [''packages'']"
  have "map_of (w_fs w) ?p = Some Dir"
    using False tree_ok_parent [OF t, of ?p "''.install-'' @ rnd"] by (auto simp: staging_dir_def)
  then have "tree_ok (fst (rename_tree (w_fs w) (?p @ [''.install-'' @ rnd]) (?p @ [pp_hash package]) f))" for f
    by (intro rename_tree_ok [OF t]) (use False in \<open>simp_all add: exists_at_def package_path_def\<close>)
  then have "tree_ok (w_fs (fst (sys_rename_dir (staging_dir base rnd) (package_path base (pp_hash package)) w)))"
    using False t by (simp add: sys_rename_dir_def changing_def exists_at_def staging_dir_def package_path_def case_prod_unfold)
  then show ?thesis using False run
    by (auto simp: place_package_def io_def failing_as_def case_prod_unfold)
qed

text \<open>An installation keeps the tree when the preparation of private state does.\<close>

lemma before_commit_keeps_tree:
  assumes p: "\<And>m. keeps tree_ok (prepare m)"
  shows "keeps tree_ok (before_commit L base guard prepare now (staging_dir base rnd) package source)"
proof (rule keepsI)
  fix w
  have r: "keeps tree_ok (record_install L base guard prepare now package source existing)" for existing
    unfolding record_install_def Let_def by (intro keeping p)
  have pl: "keeps_at tree_ok w (place_package L base (staging_dir base rnd) package (exists_at (w_fs w) (package_path base (pp_hash package))))"
    using place_package_tree prod.collapse unfolding keeps_at_def by metis
  show "keeps_at tree_ok w (before_commit L base guard prepare now (staging_dir base rnd) package source)"
    unfolding before_commit_def
    by (intro keeps_at_read, simp only: sum.inject, intro keeps_at_read keeps_at_seq keeping r) (use pl in simp)
qed

lemma install_staged_keeps_tree [keeping]:
  assumes "\<And>m. keeps tree_ok (prepare m)"
  shows "keeps tree_ok (install_staged_petal_package_with_activation L base busy guard prepare now (staging_dir base rnd) package source)"
  unfolding install_staged_petal_package_with_activation_def case_prod_unfold
  by (intro keeping before_commit_keeps_tree assms)

section \<open>Metadata\<close>

definition metas_ok :: "package_lib \<Rightarrow> path \<Rightarrow> file_system \<Rightarrow> bool" where
  "metas_ok L base fs \<longleftrightarrow> (\<forall>h m. load_meta L fs base h = Ok m \<longrightarrow> pm_hash m = h)"

definition is_meta :: "path \<Rightarrow> path \<Rightarrow> bool" where
  "is_meta base q \<longleftrightarrow> (\<exists>h. is_valid_hex_hash h \<and> q = meta_path base h)"

lemma metas_mono:
  assumes "metas_ok L base fs"
    and "\<And>q b md. is_meta base q \<Longrightarrow> map_of fs' q = Some (Reg b md) \<Longrightarrow> map_of fs q = Some (Reg b md)"
  shows "metas_ok L base fs'"
  using assms unfolding metas_ok_def load_meta_Ok_iff is_meta_def by blast

lemma metas_leaves:
  assumes "leaves False (is_meta base) a"
  shows "keeps (metas_ok L base) a"
  unfolding keeps_def
proof (intro allI impI)
  fix w :: world
  assume "metas_ok L base (w_fs w)"
  then show "metas_ok L base (w_fs (fst (a w)))"
  proof (rule metas_mono)
    fix q b md
    assume "is_meta base q" "map_of (w_fs (fst (a w))) q = Some (Reg b md)"
    then show "map_of (w_fs w) q = Some (Reg b md)"
      using assms unfolding leaves_def same_at_def unchanged_def by (metis option.inject tnode.distinct(1))
  qed
qed

lemma metas_changing:
  assumes "\<And>fs fault q b md. is_meta base q \<Longrightarrow> map_of (fst (f fs fault)) q = Some (Reg b md) \<Longrightarrow> map_of fs q = Some (Reg b md)"
  shows "keeps (metas_ok L base) (changing f)"
proof (rule keeps_changing)
  show "metas_ok L base (fst (f fs fault))" if "metas_ok L base fs" for fs fault
    by (rule metas_mono [OF that]) (use assms in blast)
qed

lemma keeps_metas_remove [keeping]: "keeps (metas_ok L base) (sys_remove p)"
  unfolding sys_remove_def fs_remove_def
  by (rule metas_changing) (auto simp: delete_conv' split: option.splits tnode.splits if_splits)

lemma keeps_metas_remove_dir [keeping]: "keeps (metas_ok L base) (sys_remove_dir_all p)"
  unfolding sys_remove_dir_all_def keep_of_def remove_tree_def
  by (rule metas_changing) (auto simp: map_of_filter_fst split: option.splits tnode.splits if_splits call_fault.splits)

lemma meta_not_temporary: "is_valid_hex_hash h \<Longrightarrow> meta_path base h \<noteq> temporary p"
  by (cases h) (auto simp: meta_path_def temporary_def is_valid_hex_hash_def is_ascii_digit_def byte_def)

lemma temporary_not_meta [simp]: "\<not> is_meta base (temporary p)"
  using meta_not_temporary unfolding is_meta_def by metis

lemma owner_not_meta [simp]: "\<not> is_meta base (owner_path base n)"
  by (auto simp: is_meta_def meta_path_def owner_path_def)

lemma keeps_metas_mkdir_all [keeping]: "keeps (metas_ok L base) (sys_mkdir_all p)"
  by (intro metas_leaves frame) simp

lemma keeps_metas_write [keeping]: "\<not> is_meta base p \<Longrightarrow> keeps (metas_ok L base) (write_atomic p data)"
  by (intro metas_leaves frame) simp_all

lemma keeps_metas_owner [keeping]: "keeps (metas_ok L base) (write_petal_owner L base n h)"
  by (intro metas_leaves frame) simp_all

lemma keeps_metas_meta [keeping]:
  assumes lib: "package_lib_ok L"
  shows "keeps (metas_ok L base) (write_meta L base m)"
  unfolding keeps_def
proof (intro allI impI)
  fix w :: world
  assume ok: "metas_ok L base (w_fs w)"
  let ?p = "meta_path base (pm_hash m)"
  obtain w' r where a: "write_atomic ?p (pl_enc_meta L m) w = (w', r)" by (cases "write_atomic ?p (pl_enc_meta L m) w")
  have other: "map_of (w_fs w') (meta_path base h) = map_of (w_fs w) (meta_path base h)" if "is_valid_hex_hash h" "h \<noteq> pm_hash m" for h
  proof -
    have l: "leaves True (\<lambda>q. q = meta_path base h) (write_atomic ?p (pl_enc_meta L m))"
      by (intro frame) (use that not_sym [OF meta_not_temporary [OF that(1)]] in \<open>auto simp: meta_path_def\<close>)
    show ?thesis by (rule same_at_eq [OF leavesD [OF l a]]) simp
  qed
  have "metas_ok L base (w_fs w')"
    unfolding metas_ok_def
  proof (intro allI impI)
    fix h m'
    assume l: "load_meta L (w_fs w') base h = Ok m'"
    show "pm_hash m' = h"
    proof (cases "h = pm_hash m")
      case True
      then show ?thesis
        using write_atomic_at [OF a] l ok lib by (auto simp: load_meta_Ok_iff metas_ok_def package_lib_ok_def meta_path_def)
    next
      case False
      then show ?thesis using l ok other by (auto simp: load_meta_Ok_iff metas_ok_def)
    qed
  qed
  then show "metas_ok L base (w_fs (fst (write_meta L base m w)))"
    by (simp add: write_meta_def io_def failing_as_def a)
qed

lemma keeps_metas_remove_data [keeping]: "keeps (metas_ok L base) (remove_package_data base hash)"
  unfolding remove_package_data_def by (intro keeping)

lemma keeps_metas_open [keeping]: "keeps (metas_ok L base) (open_packages L base)"
  unfolding open_packages_def reconcile_petal_owners_def clear_dotfiles_def reconcile_name_def Let_def by (intro keeping)

lemma keeps_metas_uninstall [keeping]: "keeps (metas_ok L base) (uninstall L base busy hash)"
  unfolding uninstall_def remove_petal_owner_for_hash_def by (intro keeping)

lemma keeps_metas_wasm [keeping]: "package_lib_ok L \<Longrightarrow> keeps (metas_ok L base) (install_wasm L base now wasm name caps mode)"
  unfolding install_wasm_def Let_def by (intro keeping) (auto simp: is_meta_def meta_path_def object_path_def)

lemma keeps_metas_stage [keeping]: "keeps (metas_ok L base) (stage_petal_package L base rnd package)"
  by (intro metas_leaves stage_leaves) (auto simp: is_meta_def meta_path_def staging_dir_def under_iff)

lemma keeps_metas_place [keeping]: "keeps (metas_ok L base) (place_package L base (staging_dir base rnd) package present)"
  by (intro metas_leaves frame) (auto simp: is_meta_def meta_path_def staging_dir_def package_path_def under_iff)

lemma install_staged_keeps_metas [keeping]:
  assumes "package_lib_ok L" "\<And>m. keeps (metas_ok L base) (prepare m)"
  shows "keeps (metas_ok L base)
    (install_staged_petal_package_with_activation L base busy guard prepare now (staging_dir base rnd) package source)"
  unfolding install_staged_petal_package_with_activation_def before_commit_def record_install_def case_prod_unfold Let_def
  by (intro keeping assms)

lemma keeps_metas_activate [keeping]: "keeps (metas_ok L (d @ [''store''])) (activate L blake3 env cat (d @ [''store'']) meta)"
  by (rule metas_leaves, rule leaves_activate, rule private_roots_apart)
    (auto simp: is_meta_def meta_path_def store_side_def under_iff)

section \<open>The invariant\<close>

definition store_ok :: "package_lib \<Rightarrow> path \<Rightarrow> file_system \<Rightarrow> bool" where
  "store_ok L base fs \<longleftrightarrow> tree_ok fs \<and> metas_ok L base fs"

lemma store_okI: "keeps tree_ok a \<Longrightarrow> keeps (metas_ok L base) a \<Longrightarrow> keeps (store_ok L base) a"
  by (simp add: keeps_def store_ok_def)

lemma store_okD:
  "store_ok L base fs \<Longrightarrow> tree_ok fs"
  "store_ok L base fs \<Longrightarrow> \<forall>m. load_meta L fs base h = Ok m \<longrightarrow> pm_hash m = h"
  by (simp_all add: store_ok_def metas_ok_def)

lemma store_ok_empty: "store_ok L base []"
  by (simp add: store_ok_def tree_ok_def metas_ok_def load_meta_Ok_iff)

lemma keeps_seq_value:
  assumes "keeps I a" "\<And>w w1 x. a w = (w1, Ok x) \<Longrightarrow> keeps I (k x)"
  shows "keeps I (seq a k)"
  unfolding keeps_def
proof (intro allI impI)
  fix w :: world
  assume i: "I (w_fs w)"
  obtain w1 r where a: "a w = (w1, r)" by (cases "a w")
  have "I (w_fs w1)" using keepsD [OF assms(1) i a] .
  then show "I (w_fs (fst (seq a k w)))"
    using assms(2) [of w w1] a by (cases r) (auto simp: seq_def keeps_def)
qed

lemma install_keeps_store:
  assumes "package_lib_ok L" "\<And>m. keeps tree_ok (prepare m)" "\<And>m. keeps (metas_ok L base) (prepare m)"
  shows "keeps (store_ok L base) (install_petal_package L base busy guard prepare now rnd package source)"
  unfolding install_petal_package_def
proof (rule keeps_seq_value)
  show "keeps (store_ok L base) (stage_petal_package L base rnd package)" by (intro store_okI keeping)
  show "keeps (store_ok L base) (install_staged_petal_package_with_activation L base busy guard prepare now tmp package source)"
    if "stage_petal_package L base rnd package w = (w1, Ok tmp)" for w w1 tmp
    unfolding stage_Ok(1) [OF that] by (intro store_okI keeping assms)
qed

lemma prepare_store_keeps:
  "keeps (store_ok L (d @ [''store''])) (prepare_private_store L blake3 env cat (d @ [''store'']) prepared hash account)"
proof (rule store_okI)
  have "leaves False (is_meta (d @ [''store''])) (carry_private_store blake3 env cat (d @ [''store'']) meta account)" for meta
    by (rule leaves_carry_private_store, rule private_roots_apart) (auto simp: is_meta_def meta_path_def store_side_def under_iff)
  from metas_leaves [OF this] show "keeps (metas_ok L (d @ [''store''])) (prepare_private_store L blake3 env cat (d @ [''store'']) prepared hash account)"
    unfolding prepare_private_store_def by (intro keeping)
qed (intro keeping)

end
