(* ===== verification/Petal_Upgrade.thy ===== *)
theory Petal_Upgrade
  imports Petal_Invariant
begin

text \<open>
  Replacing an installed petal, from the daemon's commit of a package
  (\<open>crates/bloom-daemon/src/ipc.rs\<close>, \<open>commit_petal_package\<close>) through the runner and the store, to
  the next start of the daemon.
\<close>

section \<open>The commit of a package\<close>

text \<open>
  The operation's context: the cancellation flag at each look, the turns of the loop that waits for
  the mutation lock (the flag at each turn, up to the one that gets the lock; \<open>None\<close> without a
  lock), the sessions scoped to a package at each check, and the override of the session guard.
\<close>

record commit_context =
  cc_cancelled :: "nat \<Rightarrow> bool"
  cc_wait :: "bool list option"
  cc_sessions :: "(nat \<Rightarrow> string \<Rightarrow> string list) option"
  cc_force :: bool

definition unless_cancelled :: "bool \<Rightarrow> (petal_error, unit) result" where
  "unless_cancelled c = (if c then Err (P_Vm [S ''Petal install cancelled'']) else Ok ())"

definition commit_check ::
  "package_lib \<Rightarrow> loaded_catalog \<Rightarrow> path \<Rightarrow> commit_context \<Rightarrow> string \<Rightarrow> string \<Rightarrow> string option option \<Rightarrow> nat \<Rightarrow>
   file_system \<Rightarrow> (petal_error, unit) result" where
  "commit_check L cat base ctx hash name expected i fs =
     and_then (unless_cancelled (cc_cancelled ctx i)) (\<lambda>_.
     and_then (case expected of
         None \<Rightarrow> Ok ()
       | Some owner \<Rightarrow>
           and_then (resolve_petal_owner L fs base name) (\<lambda>current.
             if current \<noteq> owner
             then Err (P_Vm [S ''Petal '', S name, S '' owner changed during acquisition; refusing stale install''])
             else Ok ())) (\<lambda>_.
     and_then (check_activation L cat fs base hash name) (\<lambda>_.
       case (cc_sessions ctx, resolve_petal_owner L fs base name) of
         (Some active, Inr (Some outgoing)) \<Rightarrow>
           if \<not> cc_force ctx \<and> active i outgoing \<noteq> []
           then Err (P_Vm [S (''refusing to replace petal '' @ [CHR 0x27]), S name,
             S ([CHR 0x27] @ '' while its sessions are active or pending: ''),
             S (join '', '' (active i outgoing)),
             S ''. Stop them (wallets/<w>/<n>/sessions/<petal>/<slot>/stop) or install with force''])
           else Ok ()
       | _ \<Rightarrow> Ok ())))"

definition wait_for_lock :: "commit_context \<Rightarrow> (petal_error, unit) result" where
  "wait_for_lock ctx =
     (case cc_wait ctx of None \<Rightarrow> Ok () | Some turns \<Rightarrow> unless_cancelled (True \<in> set turns))"

definition commit_petal_package ::
  "package_lib \<Rightarrow> (string \<Rightarrow> string) \<Rightarrow> carry_env \<Rightarrow> loaded_catalog \<Rightarrow> path \<Rightarrow> commit_context \<Rightarrow> bool \<Rightarrow> nat \<Rightarrow> string \<Rightarrow>
   prepared_package \<Rightarrow> source_provenance option \<Rightarrow> string option option \<Rightarrow>
   (petal_error, install_result \<times> petal_meta \<times> route_index) act" where
  "commit_petal_package L blake3 env cat base ctx busy now rnd package source expected =
     (let check = commit_check L cat base ctx (pp_hash package) (pp_name package) expected in
      seq (give (unless_cancelled (cc_cancelled ctx 0))) (\<lambda>_.
      seq (stage_petal_package L base rnd package) (\<lambda>tmp w.
        case and_then (wait_for_lock ctx) (\<lambda>_. check 1 (w_fs w)) of
          Inl e \<Rightarrow> dropping tmp (give (Err e)) w
        | Inr _ \<Rightarrow> install_staged_petal_package L blake3 env cat base busy (\<lambda>i. check (i + 2)) now tmp package source w)))"

text \<open>\<open>PreparedReleasePetal::commit\<close> checks a bundled release first.\<close>

definition commit_release ::
  "package_lib \<Rightarrow> (string \<Rightarrow> string) \<Rightarrow> carry_env \<Rightarrow> loaded_catalog \<Rightarrow> path \<Rightarrow> commit_context \<Rightarrow> bool \<Rightarrow> nat \<Rightarrow> string \<Rightarrow>
   prepared_package \<Rightarrow> source_provenance option \<Rightarrow> string option option \<Rightarrow>
   (petal_error, install_result \<times> petal_meta \<times> route_index) act" where
  "commit_release L blake3 env cat base ctx busy now rnd package source expected =
     seq (reading (\<lambda>fs. check_default_activation L cat fs base (pp_hash package) (pp_name package))) (\<lambda>_.
       commit_petal_package L blake3 env cat base ctx busy now rnd package source expected)"

section \<open>A commit is an installation\<close>

lemma commit_runs:
  assumes run: "commit_petal_package L blake3 env cat base ctx busy now rnd package source expected w = (w', r)"
  shows "w' = w \<and> \<not> is_ok r \<or>
    (\<exists>b r'. install_petal_package L base b (\<lambda>i. commit_check L cat base ctx (pp_hash package) (pp_name package) expected (i + 2))
       (activate L blake3 env cat base) now rnd package source w = (w', r') \<and> is_ok r' = is_ok r \<and> (is_ok r \<longrightarrow> r' = r))"
proof (cases "cc_cancelled ctx 0")
  case True
  then show ?thesis using run by (auto simp: commit_petal_package_def Let_def seq_def give_def unless_cancelled_def)
next
  case False
  let ?check = "commit_check L cat base ctx (pp_hash package) (pp_name package) expected"
  obtain w0 rs where s: "stage_petal_package L base rnd package w = (w0, rs)"
    by (cases "stage_petal_package L base rnd package w")
  note unf = commit_petal_package_def Let_def seq_def [of "give _"] give_def unless_cancelled_def
    seq_def [of "stage_petal_package L base rnd package"] s install_petal_package_def install_staged_petal_package_def
  show ?thesis
  proof (cases rs)
    case (Inl e)
    then show ?thesis using run False by (auto simp: unf)
  next
    case (Inr tmp)
    let ?staged = "\<lambda>b. install_staged_petal_package_with_activation L base b (\<lambda>i. ?check (i + 2)) (activate L blake3 env cat base)
      now tmp package source w0"
    show ?thesis
    proof (cases "and_then (wait_for_lock ctx) (\<lambda>_. ?check 1 (w_fs w0))")
      case (Inl e)
      then have d: "dropping tmp (give (Err e)) w0 = (w', r)" using run False Inr by (simp add: unf)
      have "\<exists>e'. ?staged True = (w', Err e')"
        using d by (auto simp: install_staged_petal_package_with_activation_def dropping_def give_def seq_def mutation_guard_def)
      moreover have "\<not> is_ok r" using d by (auto simp: dropping_def give_def)
      ultimately show ?thesis using Inr by (auto simp: unf intro!: exI [of _ True])
    next
      case (Inr _)
      then have "?staged busy = (w', r)" using run False \<open>rs = Inr tmp\<close> by (simp add: unf)
      then show ?thesis using \<open>rs = Inr tmp\<close> by (auto simp: unf intro!: exI [of _ busy])
    qed
  qed
qed

text \<open>Every operation on the store, each with the failures it meets.\<close>

datatype store_event =
    Reopen
  | Commit carry_env loaded_catalog commit_context bool nat string prepared_package "source_provenance option" "string option option"
  | Release carry_env loaded_catalog commit_context bool nat string prepared_package "source_provenance option" "string option option"
  | Install_Wasm nat string "string option" "capability set" petal_mode
  | Uninstall bool string
  | Prepare carry_env loaded_catalog "string set" string "(string \<times> 32 word) option"

fun run_event :: "package_lib \<Rightarrow> (string \<Rightarrow> string) \<Rightarrow> path \<Rightarrow> store_event \<Rightarrow> world \<Rightarrow> world" where
  "run_event L blake3 base Reopen w = fst (open_packages L base w)"
| "run_event L blake3 base (Commit env cat ctx busy now rnd package source expected) w =
     fst (commit_petal_package L blake3 env cat base ctx busy now rnd package source expected w)"
| "run_event L blake3 base (Release env cat ctx busy now rnd package source expected) w =
     fst (commit_release L blake3 env cat base ctx busy now rnd package source expected w)"
| "run_event L blake3 base (Install_Wasm now wasm name caps mode) w = fst (install_wasm L base now wasm name caps mode w)"
| "run_event L blake3 base (Uninstall busy hash) w = fst (uninstall L base busy hash w)"
| "run_event L blake3 base (Prepare env cat prepared hash account) w =
     fst (prepare_private_store L blake3 env cat base prepared hash account w)"

definition store_step ::
  "package_lib \<Rightarrow> (string \<Rightarrow> string) \<Rightarrow> path \<Rightarrow> (nat \<Rightarrow> call_fault option) \<times> store_event \<Rightarrow> file_system \<Rightarrow> file_system" where
  "store_step L blake3 base e fs = w_fs (run_event L blake3 base (snd e) \<lparr>w_fs = fs, w_plan = fst e\<rparr>)"

lemma commit_keeps_store:
  assumes "package_lib_ok L"
  shows "keeps (store_ok L (d @ [''store'']))
    (commit_petal_package L blake3 env cat (d @ [''store'']) ctx busy now rnd package source expected)"
proof -
  have "store_ok L (d @ [''store'']) (w_fs w')"
    if ok: "store_ok L (d @ [''store'']) (w_fs w)"
      and run: "commit_petal_package L blake3 env cat (d @ [''store'']) ctx busy now rnd package source expected w = (w', r)" for w w' r
    using commit_runs [OF run]
  proof (elim disjE exE conjE)
    assume "w' = w"
    then show ?thesis using ok by simp
  next
    fix b r'
    assume i: "install_petal_package L (d @ [''store'']) b (\<lambda>i. commit_check L cat (d @ [''store'']) ctx (pp_hash package) (pp_name package)
      expected (i + 2)) (activate L blake3 env cat (d @ [''store''])) now rnd package source w = (w', r')"
    show ?thesis by (rule keepsD [OF install_keeps_store [OF assms] ok i]) (intro keeping)+
  qed
  then show ?thesis unfolding keeps_def by (metis prod.collapse)
qed

lemma run_event_ok:
  assumes lib: "package_lib_ok L" and ok: "store_ok L (d @ [''store'']) (w_fs w)"
  shows "store_ok L (d @ [''store'']) (w_fs (run_event L blake3 (d @ [''store'']) e w))"
proof (cases e)
  case Release
  have "keeps (store_ok L (d @ [''store''])) (commit_release L blake3 env cat (d @ [''store'']) ctx busy now rnd package source expected)"
    for env cat ctx busy now rnd package source expected
    unfolding commit_release_def by (intro keeping commit_keeps_store lib)
  then show ?thesis using ok unfolding Release keeps_def by simp
qed (use ok commit_keeps_store [OF lib] prepare_store_keeps store_okI [OF keeps_tree_operations(1) keeps_metas_open]
      store_okI [OF keeps_tree_operations(2) keeps_metas_uninstall] store_okI [OF keeps_tree_operations(3) keeps_metas_wasm [OF lib]]
    in \<open>simp_all add: keeps_def\<close>)

interpretation store_runs: op_machine "store_step L blake3 (d @ [''store''])" "store_ok L (d @ [''store''])" "\<lambda>_. package_lib_ok L"
  by unfold_locales (simp add: store_step_def run_event_ok)

section \<open>The last look of the guard\<close>

lemma same_at_weaken: "same_at True P fs fs' \<Longrightarrow> (\<And>q. Q q \<Longrightarrow> P q) \<Longrightarrow> same_at exact Q fs fs'"
  unfolding same_at_def unchanged_def by blast

lemma same_at_subset: "same_at exact P fs fs' \<Longrightarrow> (\<And>q. Q q \<Longrightarrow> P q) \<Longrightarrow> same_at exact Q fs fs'"
  unfolding same_at_def by blast

lemma resolve_before_drop:
  assumes "resolve_petal_owner L (w_fs (fst (sys_remove_dir_all (staging_dir base rnd) w))) base m = Ok (Some h)"
  shows "resolve_petal_owner L (w_fs w) base m = Ok (Some h)"
proof -
  have "\<not> under (staging_dir base rnd) (owner_path base m)" by (auto simp: under_iff staging_dir_def owner_path_def)
  moreover have "\<not> under (staging_dir base rnd) (package_path base h)"
    using assms staging_not_hash [of h base rnd "[]"] by (auto simp: resolve_Ok_iff)
  ultimately show ?thesis using assms by (simp add: resolve_Ok_iff is_dir_def remove_dir_leaves)
qed

context activation
begin

lemma before_commit_guard_free:
  "before_commit L base (guard(2 := g)) prepare now tmp package source = before_commit L base guard prepare now tmp package source"
  by (simp add: before_commit_def record_install_def)

lemma install_guarded:
  assumes run: "install_petal_package L base busy guard prepare now rnd package source w = (w', r)" "is_ok r"
    and tree: "tree_ok (w_fs w)" and valid: "is_valid_hex_hash (pp_hash package)"
    and old: "resolve_petal_owner L (w_fs w) base (pp_name package) = Ok (Some h0)"
  shows "\<exists>fs. guard 2 fs = Ok () \<and> resolve_petal_owner L fs base (pp_name package) = Ok (Some h0)"
proof -
  let ?t = "staging_dir base rnd" and ?g = "guard(2 := (\<lambda>_. Err CapMismatch))"
  obtain w0 w2 present meta where s: "stage_petal_package L base rnd package w = (w0, Ok ?t)"
    and b: "before_commit L base guard prepare now ?t package source w0 = (w2, Ok (present, meta))"
    using install_stages [OF run(1)] run(2) by auto
  have idle: "mutation_guard busy = Ok ()" and g: "guard 2 (w_fs w2) = Ok ()"
    using run s b
    by (auto simp: install_petal_package_def seq_def install_staged_petal_package_with_activation_def dropping_def
        give_def reading_def is_ok_iff mutation_guard_def split: sum.splits prod.splits if_splits)
  have "install_petal_package L base busy ?g prepare now rnd package source w =
      (fst (sys_remove_dir_all ?t w2), Err CapMismatch)"
    using s b idle by (simp add: install_petal_package_def seq_def install_staged_petal_package_with_activation_def
        dropping_def give_def reading_def before_commit_guard_free)
  from install_resolve [OF this tree valid, of "pp_name package"] old
  have "resolve_petal_owner L (w_fs (fst (sys_remove_dir_all ?t w2))) base (pp_name package) = Ok (Some h0)" by auto
  from resolve_before_drop [OF this] g show ?thesis by blast
qed

lemma record_install_steps:
  assumes "record_install L base guard prepare now package source existing w = (w', Ok meta)"
  shows "\<exists>c w1. resolve_petal_owner L (w_fs w) base (pp_name package) = Ok c \<and>
    meta = installed_meta L now package source existing c \<and> write_meta L base meta w = (w1, Ok ()) \<and> prepare meta w1 = (w', Ok ())"
  using assms unfolding record_install_def
  by (auto simp: seq_def reading_def give_def Let_def split: sum.splits prod.splits)

text \<open>
  The activation inside a successful installation: on which package it works, and that outside the
  store nothing changes before and after it.
\<close>

lemma install_activates:
  assumes run: "install_petal_package L base busy guard prepare now rnd package source w = (w', r)" "is_ok r"
    and tree: "tree_ok (w_fs w)" and valid: "is_valid_hex_hash (pp_hash package)"
    and named: "\<forall>m. load_meta L (w_fs w) base (pp_hash package) = Ok m \<longrightarrow> pm_hash m = pp_hash package"
    and old: "resolve_petal_owner L (w_fs w) base (pp_name package) = Ok (Some h0)"
  shows "\<exists>v v' meta. prepare meta v = (v', Ok ()) \<and> pm_hash meta = pp_hash package \<and> pm_name meta = Some (pp_name package) \<and>
    (h0 \<noteq> pp_hash package \<longrightarrow> pm_replaced meta = Some h0) \<and>
    same_at False (\<lambda>q. \<not> under base q) (w_fs w) (w_fs v) \<and>
    same_at True (\<lambda>q. \<not> under base q \<and> \<not> prefix q base) (w_fs w) (w_fs v) \<and>
    same_at True (\<lambda>q. \<not> under base q) (w_fs v') (w_fs w')"
proof -
  let ?t = "staging_dir base rnd" and ?g = "guard(1 := (\<lambda>_. Err CapMismatch))" and ?O = "\<lambda>q. \<not> under base q"
  obtain w0 w1 w2 present meta ro where s: "stage_petal_package L base rnd package w = (w0, Ok ?t)"
    and b: "before_commit L base guard prepare now ?t package source w0 = (w2, Ok (present, meta))"
    and o: "write_petal_owner L base (pp_name package) (pp_hash package) w2 = (w1, ro)"
    and d: "w' = fst (sys_remove_dir_all ?t w1)"
    using install_stages [OF run(1)] run(2) by auto
  obtain existing v1 where e: "existing_meta L (w_fs w0) base (pp_hash package) = Ok existing"
      "place_package L base ?t package present w0 = (v1, Ok ())"
      "record_install L base guard prepare now package source existing v1 = (w2, Ok meta)"
      "present = exists_at (w_fs w0) (package_path base (pp_hash package))"
    using before_commit_Ok [OF b] by blast
  obtain c v2 where c: "resolve_petal_owner L (w_fs v1) base (pp_name package) = Ok c"
      "meta = installed_meta L now package source existing c" "write_meta L base meta v1 = (v2, Ok ())"
      "prepare meta v2 = (w2, Ok ())"
    using record_install_steps [OF e(3)] by blast
  have t: "under base (?t @ x)" "under base (package_path base h @ x)" "under base (owner_path base h)" "under base (meta_path base h)"
      "under base (temporary (owner_path base h))" "under base (temporary (meta_path base h))" for h x
    by (auto simp: under_iff staging_dir_def package_path_def owner_path_def meta_path_def temporary_def butlast_append)
  have in_base: "under p q \<Longrightarrow> under base p \<Longrightarrow> under base q" for p q by (auto simp: under_iff)
  have stop: "install_petal_package L base busy ?g prepare now rnd package source w = (fst (sys_remove_dir_all ?t v1), Err CapMismatch)"
  proof -
    have "mutation_guard busy = Ok ()" "guard 0 (w_fs w0) = Ok ()"
      using run s b
      by (auto simp: install_petal_package_def seq_def install_staged_petal_package_with_activation_def dropping_def
          before_commit_def give_def reading_def is_ok_iff mutation_guard_def split: sum.splits prod.splits if_splits)
    then show ?thesis using s e c
      by (simp add: install_petal_package_def seq_def install_staged_petal_package_with_activation_def
          dropping_def give_def reading_def before_commit_def record_install_def)
  qed
  have "c = Some h0"
  proof -
    have "resolve_petal_owner L (w_fs (fst (sys_remove_dir_all ?t v1))) base (pp_name package) = Ok (Some h0)"
      using install_resolve [OF stop tree valid, of "pp_name package"] old by simp
    from resolve_before_drop [OF this] c(1) show ?thesis by simp
  qed
  have m0: "\<forall>m. load_meta L (w_fs w0) base (pp_hash package) = Ok m \<longrightarrow> pm_hash m = pp_hash package"
  proof -
    have "map_of (w_fs w0) (meta_path base (pp_hash package)) = map_of (w_fs w) (meta_path base (pp_hash package))"
      by (rule stage_keeps [OF s]) (auto simp: under_iff meta_path_def staging_dir_def)
    then show ?thesis using named by (simp add: load_meta_Ok_iff)
  qed
  have m: "pm_name meta = Some (pp_name package)" "h0 \<noteq> pp_hash package \<longrightarrow> pm_replaced meta = Some h0"
    using \<open>c = Some h0\<close> unfolding c(2) by (simp_all add: installed_meta_def Let_def)
  have mh: "pm_hash meta = pp_hash package" unfolding c(2) by (rule installed_meta_fields(1) [OF e(1) m0])
  have out: "?O q \<Longrightarrow> \<not> under ?t q" "?O q \<Longrightarrow> \<not> under (package_path base h) q" for q h
    using in_base t(1) [of "[]"] t(2) [of h "[]"] by auto
  have l1: "leaves True ?O (place_package L base ?t package present)" by (intro frame) (simp add: out)
  have l2: "leaves True ?O (write_meta L base meta)" by (intro frame) (simp_all add: t)
  have l3: "leaves True ?O (write_petal_owner L base (pp_name package) (pp_hash package))" by (intro frame) (simp_all add: t)
  have l4: "leaves True ?O (sys_remove_dir_all ?t)" by (intro frame) (simp add: out)
  have pre: "prefix q ?t \<Longrightarrow> ?O q \<Longrightarrow> prefix q base" for q
    by (auto simp: staging_dir_def prefix_append under_iff)
  have s1: "leaves False ?O (stage_petal_package L base rnd package)" by (rule stage_leaves) (simp_all add: out)
  have s2: "leaves True (\<lambda>q. ?O q \<and> \<not> prefix q base) (stage_petal_package L base rnd package)"
    by (rule stage_leaves) (use out pre in blast)+
  have x: "same_at True ?O (w_fs w0) (w_fs v2)"
    using same_at_trans [OF leavesD [OF l1 e(2)] leavesD [OF l2 c(3)]] .
  have y: "same_at True ?O (w_fs w2) (w_fs w')"
    using same_at_trans [OF leavesD [OF l3 o] leavesD [OF l4 prod.collapse [symmetric]]] unfolding d .
  have "same_at False ?O (w_fs w) (w_fs v2)"
    by (rule same_at_trans [OF leavesD [OF s1 s] same_at_weaken [OF x]])
  moreover have "same_at True (\<lambda>q. ?O q \<and> \<not> prefix q base) (w_fs w) (w_fs v2)"
    by (rule same_at_trans [OF leavesD [OF s2 s] same_at_weaken [OF x]]) simp
  ultimately show ?thesis using c(4) mh m y by blast
qed

end

section \<open>Private state across an installation\<close>

text \<open>
  When private state may move: both packages have a lineage record in a well-formed catalog, with
  the same publisher and the same lineage, and the active lineage of the successor lists the
  predecessor.
\<close>

definition authorised :: "loaded_catalog \<Rightarrow> string \<Rightarrow> string \<Rightarrow> bool" where
  "authorised cat predecessor hash \<longleftrightarrow> lc_shape_error cat = None \<and>
     (\<exists>r l r0 l0. lineage_record cat hash = Some r \<and> pr_lineage r = Some l \<and>
        lineage_record cat predecessor = Some r0 \<and> pr_lineage r0 = Some l0 \<and>
        ln_active l \<and> predecessor \<in> set (ln_predecessors l) \<and>
        pr_publisher r0 = pr_publisher r \<and> ln_id l0 = ln_id l)"

lemma authorised_iff:
  "authorised cat predecessor hash \<longleftrightarrow> lc_shape_error cat = None \<and>
     (case lineage_record cat hash of
        None \<Rightarrow> False
      | Some r \<Rightarrow> (case pr_lineage r of
          None \<Rightarrow> False
        | Some l \<Rightarrow> ln_active l \<and> predecessor \<in> set (ln_predecessors l) \<and> predecessor_matches cat r l predecessor))"
  by (auto simp: authorised_def predecessor_matches_def split: option.splits)

lemma activate_effect:
  assumes run: "activate L blake3 env cat base meta v = (v', Ok ())"
    and meta: "pm_hash meta = hash" "pm_replaced meta = Some h0"
  shows "if authorised cat h0 hash
    then \<exists>x. carry_forward \<lparr>dk_fs = w_fs v, dk_poisoned = ce_poisoned env\<rparr> (ce_public env) (ce_accounts env)
      (private_data_root base) (private_account_data_root base) h0 hash = (\<lparr>dk_fs = w_fs v', dk_poisoned = ce_poisoned env\<rparr>, Ok x)
    else w_fs v' = w_fs v"
proof -
  obtain x where c: "carry_private_store blake3 env cat base meta None v = (v', Ok x)"
    using run by (auto simp: activate_def seq_def give_def reading_def split: option.splits sum.splits prod.splits)
  have locked: "dk_poisoned (fst (carry_forward e pf af D R a b)) = dk_poisoned e" for e pf af D R a b
    by (auto simp: carry_forward_def split: sum.splits prod.splits)
  show ?thesis
  proof (cases "authorised cat h0 hash")
    case True
    then obtain r l where "lineage_record cat hash = Some r" "pr_lineage r = Some l" "lc_shape_error cat = None"
        "ln_active l" "h0 \<in> set (ln_predecessors l)" "predecessor_matches cat r l h0"
      by (auto simp: authorised_iff split: option.splits)
    moreover from this have "lineage_record cat h0 \<noteq> None" by (auto simp: predecessor_matches_def split: option.splits)
    ultimately have "seq (carrying env base h0 hash) (\<lambda>_. give (Ok True)) v = (v', Ok x)"
      using c by (auto simp: carry_private_store_def Let_def meta)
    then show ?thesis
      using True locked [of "\<lparr>dk_fs = w_fs v, dk_poisoned = ce_poisoned env\<rparr>" "ce_public env" "ce_accounts env"
          "private_data_root base" "private_account_data_root base" h0 hash]
      by (auto simp: seq_def give_def carrying_def map_err_Ok_iff split: sum.splits prod.splits)
  next
    case False
    then show ?thesis using c
      by (auto simp: carry_private_store_def Let_def meta authorised_iff give_def reading_def predecessor_matches_def
          split: option.splits if_splits)
  qed
qed

lemma store_get_frame:
  assumes "laid_out R D st"
    and "same_at True (\<lambda>q. under R q \<or> under D q) fs fs'" "same_at False (\<lambda>q. strict_prefix q R \<or> strict_prefix q D) fs fs'"
  shows "store_get \<lparr>dk_fs = fs', dk_poisoned = b\<rparr> st h key = store_get \<lparr>dk_fs = fs, dk_poisoned = b\<rparr> st h key"
proof (cases "key_path st h key")
  case (Inl e)
  then show ?thesis by (simp add: store_get_def at_key_def)
next
  case (Inr p)
  then have "is_valid_hex_hash h" by (auto simp: key_path_def petal_dir_def and_then_Ok_iff split: if_splits)
  with key_path_shift [OF Inr _ assms(1)] obtain X rel where p: "X \<in> {R, D}" "p = X @ h # rel" by blast
  have "tree_read fs' p = tree_read fs p"
  proof (rule tree_read_same)
    show "same_at True (\<lambda>q. q = p) fs fs'"
      by (rule same_at_weaken [OF assms(2)]) (use p in \<open>auto simp: under_iff\<close>)
    have "strict_prefix q p \<Longrightarrow> (under R q \<or> under D q) \<or> (strict_prefix q R \<or> strict_prefix q D)" for q
      using p by (auto simp: strict_prefix_def prefix_append under_iff)
    then show "same_at False (\<lambda>q. strict_prefix q p) fs fs'"
      using same_at_weaken [OF assms(2), of "\<lambda>q. under R q \<or> under D q" False] assms(3) unfolding same_at_def by blast
  qed
  then show ?thesis by (simp add: store_get_path [OF Inr])
qed

lemma private_outside:
  assumes "X \<in> {private_data_root (d @ [''store'']), private_account_data_root (d @ [''store''])}"
  shows "under X q \<Longrightarrow> \<not> under (d @ [''store'']) q \<and> \<not> prefix q (d @ [''store''])"
    and "strict_prefix q X \<Longrightarrow> \<not> under (d @ [''store'']) q"
  using assms
  by (auto simp: private_data_root_def private_account_data_root_def under_iff strict_prefix_def prefix_def append_eq_append_conv2
      Cons_eq_append_conv)

lemma install_private_state:
  fixes d defines "base \<equiv> d @ [''store'']"
  defines "D \<equiv> private_data_root base" and "R \<equiv> private_account_data_root base"
  assumes run: "install_petal_package L base busy guard (activate L blake3 env cat base) now rnd package source w = (w', r)" "is_ok r"
    and tree: "tree_ok (w_fs w)" and valid: "is_valid_hex_hash (pp_hash package)"
    and named: "\<forall>m. load_meta L (w_fs w) base (pp_hash package) = Ok m \<longrightarrow> pm_hash m = pp_hash package"
    and old: "resolve_petal_owner L (w_fs w) base (pp_name package) = Ok (Some h0)" "h0 \<noteq> pp_hash package"
    and st: "laid_out R D st" and absent: "map_of (w_fs w) (R @ [pp_hash package]) = None" "map_of (w_fs w) (D @ [pp_hash package]) = None"
  shows "store_get \<lparr>dk_fs = w_fs w', dk_poisoned = False\<rparr> st (pp_hash package) key =
      store_get \<lparr>dk_fs = w_fs w, dk_poisoned = False\<rparr> st (if authorised cat h0 (pp_hash package) then h0 else pp_hash package) key \<and>
    store_get \<lparr>dk_fs = w_fs w', dk_poisoned = False\<rparr> st h0 key = store_get \<lparr>dk_fs = w_fs w, dk_poisoned = False\<rparr> st h0 key"
proof -
  let ?h = "pp_hash package" and ?get = "\<lambda>fs h. store_get \<lparr>dk_fs = fs, dk_poisoned = False\<rparr> st h key"
  note run' = run [unfolded base_def] and named' = named [unfolded base_def] and old' = old [unfolded base_def]
  obtain v v' meta where p: "activate L blake3 env cat base meta v = (v', Ok ())" "pm_hash meta = ?h" "pm_replaced meta = Some h0"
    and sf: "same_at False (\<lambda>q. \<not> under base q) (w_fs w) (w_fs v)"
    and s: "same_at True (\<lambda>q. \<not> under base q \<and> \<not> prefix q base) (w_fs w) (w_fs v)"
    and s': "same_at True (\<lambda>q. \<not> under base q) (w_fs v') (w_fs w')"
    using runner.install_activates [OF run' tree valid named' old'(1)] old(2) unfolding base_def by blast
  have po: "under X q \<Longrightarrow> \<not> under base q \<and> \<not> prefix q base" "strict_prefix q X \<Longrightarrow> \<not> under base q" if "X \<in> {R, D}" for X q
    using private_outside [of X d q] that unfolding D_def R_def base_def by auto
  have v: "?get (w_fs v) h = ?get (w_fs w) h" for h
    by (rule store_get_frame [OF st same_at_weaken [OF s] same_at_subset [OF sf]]) (use po in blast)+
  have v': "?get (w_fs w') h = ?get (w_fs v') h" for h
    by (rule store_get_frame [OF st same_at_weaken [OF s'] same_at_weaken [OF s']]) (use po in auto)
  have vh: "is_valid_hex_hash h0" using old(1) by (simp add: resolve_Ok_iff)
  show ?thesis
  proof (cases "authorised cat h0 ?h")
    case False
    then show ?thesis using activate_effect [OF p] v v' by simp
  next
    case True
    then obtain x where c: "carry_forward \<lparr>dk_fs = w_fs v, dk_poisoned = ce_poisoned env\<rparr> (ce_public env) (ce_accounts env) D R h0 ?h =
        (\<lparr>dk_fs = w_fs v', dk_poisoned = ce_poisoned env\<rparr>, Ok x)"
      using activate_effect [OF p] unfolding D_def R_def by auto
    then have pz: "\<not> ce_poisoned env" by (auto simp: carry_forward_def store_op_guard_def split: if_splits)
    have eq: "map_of (w_fs v) (X @ rel) = map_of (w_fs w) (X @ rel)" if "X \<in> {R, D}" for X rel
      by (rule same_at_eq [OF s]) (use po(1) [OF that] in \<open>auto simp: under_iff\<close>)
    have "rooted (w_fs v) (X @ [h])" if "X \<in> {R, D}" for X h
      using eq [OF that] tree_ok_absent [OF tree, of "X @ [h]"] by (simp add: rooted_def)
    then have rooted: "\<forall>X\<in>{R, D}. rooted (w_fs v) (X @ [h0]) \<and> rooted (w_fs v) (X @ [?h])" by blast
    have par: "R \<parallel> D" by (auto simp: R_def D_def base_def private_data_root_def private_account_data_root_def parallel_def prefix_def)
    from carry_forward_get [OF c par st vh valid old(2), of key] rooted pz absent eq
    have "?get (w_fs v') h0 = ?get (w_fs v) h0" "?get (w_fs v') ?h = ?get (w_fs v) h0" by simp_all
    then show ?thesis using v v' True by simp
  qed
qed

section \<open>A sample library\<close>

fun enc_str :: "string \<Rightarrow> string" where
  "enc_str [] = ''0''"
| "enc_str (c # s) = CHR ''1'' # c # enc_str s"

fun dec_strs :: "string \<Rightarrow> string \<Rightarrow> string list" where
  "dec_strs acc [] = []"
| "dec_strs acc [x] = [rev acc]"
| "dec_strs acc (x # c # s) = (if x = CHR ''0'' then rev acc # dec_strs [] (c # s) else dec_strs (c # acc) s)"

definition enc_strs :: "string list \<Rightarrow> string" where
  "enc_strs ss = concat (map enc_str ss)"

lemma dec_enc_str: "dec_strs acc (enc_str t @ rest) = (rev acc @ t) # dec_strs [] rest"
  by (induction t arbitrary: acc) (cases rest, simp_all)

lemma dec_enc_strs [simp]: "dec_strs [] (enc_strs ss) = ss"
  by (induction ss) (simp_all add: enc_strs_def dec_enc_str)

fun enc_opt :: "string option \<Rightarrow> string" where
  "enc_opt None = []"
| "enc_opt (Some s) = CHR ''s'' # s"

fun dec_opt :: "string \<Rightarrow> string option" where
  "dec_opt [] = None"
| "dec_opt (_ # s) = Some s"

lemma dec_enc_opt [simp]: "dec_opt (enc_opt x) = x"
  by (cases x) simp_all

definition all_caps :: "capability list" where
  "all_caps = [VfsRead, VfsWrite, NetFetch, Sign, Store, Chain, TxOutbox, KeyDerive]"

definition enc_caps :: "capability set \<Rightarrow> string" where
  "enc_caps cs = map (\<lambda>c. if c \<in> cs then CHR ''1'' else CHR ''0'') all_caps"

definition dec_caps :: "string \<Rightarrow> capability set" where
  "dec_caps s = set (map fst (filter (\<lambda>(_, x). x = CHR ''1'') (zip all_caps s)))"

lemma dec_enc_caps [simp]: "dec_caps (enc_caps cs) = cs"
proof (rule set_eqI)
  show "c \<in> dec_caps (enc_caps cs) \<longleftrightarrow> c \<in> cs" for c
    by (cases c) (simp_all add: dec_caps_def enc_caps_def all_caps_def)
qed

definition enc_app :: "package_meta \<Rightarrow> string" where
  "enc_app a = enc_strs [gm_name a, gm_petal_root a, gm_route_index_schema a]"

definition dec_app :: "string \<Rightarrow> package_meta" where
  "dec_app s = (let f = dec_strs [] s in \<lparr>gm_name = f ! 0, gm_petal_root = f ! 1, gm_route_index_schema = f ! 2\<rparr>)"

definition enc_source :: "source_provenance \<Rightarrow> string" where
  "enc_source a = enc_strs [sp_source_kind a, sp_url a, sp_owner a, sp_repo a, sp_requested_ref a, sp_resolved_commit a,
     enc_opt (sp_selected_tag a), sp_package_hash a]"

definition dec_source :: "string \<Rightarrow> source_provenance" where
  "dec_source s = (let f = dec_strs [] s in
     \<lparr>sp_source_kind = f ! 0, sp_url = f ! 1, sp_owner = f ! 2, sp_repo = f ! 3, sp_requested_ref = f ! 4,
      sp_resolved_commit = f ! 5, sp_selected_tag = dec_opt (f ! 6), sp_package_hash = f ! 7\<rparr>)"

definition enc_meta :: "petal_meta \<Rightarrow> string" where
  "enc_meta m = enc_strs [pm_hash m, replicate (pm_size m) CHR ''1'', replicate (pm_installed_at_ms m) CHR ''1'',
     enc_opt (pm_name m), enc_caps (pm_caps m), enc_opt (map_option enc_app (pm_petal m)),
     enc_opt (map_option enc_source (pm_source m)), enc_opt (pm_replaced m)]"

definition dec_meta :: "string \<Rightarrow> (string, petal_meta) result" where
  "dec_meta s = (let f = dec_strs [] s in
     if length f \<noteq> 8 then Err ''bad meta'' else Ok
     \<lparr>pm_hash = f ! 0, pm_size = length (f ! 1), pm_installed_at_ms = length (f ! 2), pm_name = dec_opt (f ! 3),
      pm_caps = dec_caps (f ! 4), pm_mode = Local, pm_petal = map_option dec_app (dec_opt (f ! 5)),
      pm_source = map_option dec_source (dec_opt (f ! 6)), pm_replaced = dec_opt (f ! 7)\<rparr>)"

lemma dec_enc_app [simp]: "dec_app (enc_app a) = a"
  by (simp add: enc_app_def dec_app_def)

lemma dec_enc_source [simp]: "dec_source (enc_source a) = a"
  by (simp add: enc_source_def dec_source_def numeral_nat)

lemma dec_enc_meta: "dec_meta (enc_meta m) = Ok m"
proof -
  have "pm_mode m = Local" by (cases "pm_mode m")
  then show ?thesis by (simp add: enc_meta_def dec_meta_def numeral_nat option.map_comp comp_def option.map_ident)
qed

definition sample_pkg :: "char \<Rightarrow> prepared_package" where
  "sample_pkg c = \<lparr>pp_hash = sample_hash c, pp_name = ''ab'', pp_files = [\<lparr>nf_path = ''petal.toml'', nf_bytes = [c]\<rparr>],
     pp_index = \<lparr>ri_schema = ''s'', ri_package_hash = sample_hash c, ri_name = ''ab'', ri_petal_root = ''petals/ab'',
       ri_policy_hash = [], ri_routes = []\<rparr>\<rparr>"

definition dec_owner :: "string \<Rightarrow> (string, app_owner) result" where
  "dec_owner s = (let f = dec_strs [] s in
     if length f \<noteq> 2 then Err ''bad owner'' else Ok \<lparr>ao_name = f ! 0, ao_hash = f ! 1\<rparr>)"

definition sample_lib :: package_lib where
  "sample_lib = \<lparr>pl_enc_owner = (\<lambda>x. enc_strs [ao_name x, ao_hash x]), pl_dec_owner = dec_owner,
     pl_enc_meta = enc_meta, pl_dec_meta = dec_meta, pl_enc_index = ri_package_hash,
     pl_dec_index = (\<lambda>s. case s of [] \<Rightarrow> Err ''bad index'' | c # _ \<Rightarrow> Ok (pp_index (sample_pkg c))),
     pl_blake3 = (\<lambda>s. s), pl_hex = (\<lambda>s. s), pl_digest_prefix = ''d'', pl_index_schema = ''s'',
     pl_rebuild = (\<lambda>fs. case fs of [f] \<Rightarrow> Ok (sample_pkg (hd (nf_bytes f))) | _ \<Rightarrow> bad_wasm [S ''files'']),
     pl_artifact = (\<lambda>_ _. bad_wasm [S ''no routes''])\<rparr>"

lemma sample_lib_ok: "package_lib_ok sample_lib"
  by (simp add: package_lib_ok_def sample_lib_def dec_enc_meta dec_owner_def)

definition sample_ctx :: commit_context where
  "sample_ctx = \<lparr>cc_cancelled = (\<lambda>_. False), cc_wait = None, cc_sessions = None, cc_force = False\<rparr>"

definition calm_env :: carry_env where
  "calm_env = \<lparr>ce_poisoned = False, ce_public = no_carry_faults, ce_accounts = no_carry_faults\<rparr>"

definition sample_lineage :: "string list \<Rightarrow> char \<Rightarrow> provenance_record" where
  "sample_lineage preds c = \<lparr>pr_petal = Some (sample_hash c), pr_publisher = ''p'',
     pr_lineage = Some \<lparr>ln_id = ''l'', ln_active = True, ln_predecessors = preds\<rparr>\<rparr>"

definition sample_catalog :: loaded_catalog where
  "sample_catalog = with_provenance_catalog (\<lambda>_. Ok ())
     (Some [sample_lineage [] CHR ''1'', sample_lineage [sample_hash CHR ''1''] CHR ''2''])"

definition sample_base :: path where
  "sample_base = [''p''] @ [''store'']"

definition calm_plan :: "nat \<Rightarrow> call_fault option" where
  "calm_plan = (\<lambda>_. None)"

definition failing_from :: "nat \<Rightarrow> nat \<Rightarrow> call_fault option" where
  "failing_from k i = (if k \<le> i then Some (Call_Fails (Io_Other ''killed'') None []) else None)"

definition sample_commit :: "commit_context \<Rightarrow> char \<Rightarrow> (nat \<Rightarrow> call_fault option) \<Rightarrow> file_system \<Rightarrow>
    world \<times> (petal_error, install_result \<times> petal_meta \<times> route_index) result" where
  "sample_commit ctx c plan fs =
     commit_petal_package sample_lib (\<lambda>s. s) calm_env sample_catalog sample_base ctx False 7 ''x'' (sample_pkg c) None None
       \<lparr>w_fs = fs, w_plan = plan\<rparr>"


text \<open>The store with the first version installed, which has one private key.\<close>

definition sample_meta :: petal_meta where
  "sample_meta = (new_meta (sample_hash CHR ''1'') 1 7 Local)\<lparr>pm_name := Some ''ab'',
     pm_petal := Some \<lparr>gm_name = ''ab'', gm_petal_root = ''petals/ab'', gm_route_index_schema = ''s''\<rparr>\<rparr>"

definition sample_fs :: file_system where
  "sample_fs =
     (let h = sample_hash CHR ''1''; pkg = package_path sample_base h in
      [([''p''], Dir), (sample_base, Dir), (sample_base @ [''objects''], Dir), (sample_base @ [''meta''], Dir),
       (sample_base @ [''packages''], Dir), (sample_base @ [''owners''], Dir), (pkg, Dir), (pkg @ [''source''], Dir),
       (pkg @ [''source'', ''petal.toml''], Reg ''1'' 420), (pkg @ [''route-index.json''], Reg h 420),
       (meta_path sample_base h, Reg (enc_meta sample_meta) 420),
       (owner_path sample_base ''ab'', Reg (enc_strs [''ab'', h]) 420),
       ([''p'', ''data''], Dir), ([''p'', ''data'', h], Dir), ([''p'', ''data'', h, ''k''], Reg ''v'' 384)])"

section \<open>Properties\<close>


lemma sample_hashes: "is_valid_hex_hash (sample_hash CHR ''1'')" "is_valid_hex_hash (sample_hash CHR ''2'')"
  by code_simp+

lemma sample_fs_facts:
  "tree_ok sample_fs"
  "resolve_petal_owner sample_lib sample_fs sample_base ''ab'' = Ok (Some (sample_hash CHR ''1''))"
  "load_route_index sample_lib sample_fs sample_base (sample_hash CHR ''1'') = Ok (pp_index (sample_pkg CHR ''1''))"
  "map_option pm_petal (case load_meta sample_lib sample_fs sample_base (sample_hash CHR ''1'') of Inr m \<Rightarrow> Some m | Inl _ \<Rightarrow> None) =
     Some (Some \<lparr>gm_name = ''ab'', gm_petal_root = ''petals/ab'', gm_route_index_schema = ''s''\<rparr>)"
  by code_simp+

lemma sample_store_ok: "store_ok sample_lib sample_base sample_fs"
proof -
  have "h = sample_hash CHR ''1''" if "is_valid_hex_hash h" "map_of sample_fs (meta_path sample_base h) = Some (Reg b md)" for h b md
    using that(2) by (auto simp: sample_fs_def sample_base_def Let_def meta_path_def package_path_def owner_path_def split: if_splits)
  moreover have "(case load_meta sample_lib sample_fs sample_base (sample_hash CHR ''1'') of Inr m \<Rightarrow> pm_hash m | Inl _ \<Rightarrow> []) = sample_hash CHR ''1''"
    by code_simp
  ultimately have "metas_ok sample_lib sample_base sample_fs"
    unfolding metas_ok_def by (metis load_meta_Ok_iff sum.case(2))
  then show ?thesis using sample_fs_facts(1) by (simp add: store_ok_def)
qed



lemma sample_pkg_fields [simp]: "pp_hash (sample_pkg c) = sample_hash c" "pp_name (sample_pkg c) = ''ab''"
  by (simp_all add: sample_pkg_def)

lemma sample_upgrades:
  "\<not> is_ok (snd (sample_commit sample_ctx CHR ''2'' (failing_from 12) sample_fs))"
  "is_ok (snd (sample_commit sample_ctx CHR ''2'' calm_plan sample_fs))"
  by code_simp+


text \<open>
  C7: the private state follows a replacement exactly within its lineage. A successful commit that
  replaces package \<open>h0\<close> by a package without private data leaves every key of \<open>h0\<close> as it was. The
  new package reads, for every key (package-wide, shared or of an account), what \<open>h0\<close> reads when
  the catalog is well formed and holds an active lineage of the new package that lists \<open>h0\<close>, with
  the same publisher and lineage id on the record of \<open>h0\<close>; otherwise it starts empty.
\<close>

theorem upgrade_carries_state:
  assumes run: "commit_petal_package L blake3 env cat (d @ [''store'']) ctx busy now rnd package source expected w = (w', r)" "is_ok r"
    and ok: "store_ok L (d @ [''store'']) (w_fs w)" and valid: "is_valid_hex_hash (pp_hash package)"
    and old: "resolve_petal_owner L (w_fs w) (d @ [''store'']) (pp_name package) = Ok (Some h0)" "h0 \<noteq> pp_hash package"
    and st: "laid_out (d @ [''data-accounts'']) (d @ [''data'']) st"
    and absent: "map_of (w_fs w) (d @ [''data-accounts'', pp_hash package]) = None" "map_of (w_fs w) (d @ [''data'', pp_hash package]) = None"
  shows "store_get \<lparr>dk_fs = w_fs w', dk_poisoned = False\<rparr> st (pp_hash package) key =
      store_get \<lparr>dk_fs = w_fs w, dk_poisoned = False\<rparr> st (if authorised cat h0 (pp_hash package) then h0 else pp_hash package) key \<and>
    store_get \<lparr>dk_fs = w_fs w', dk_poisoned = False\<rparr> st h0 key = store_get \<lparr>dk_fs = w_fs w, dk_poisoned = False\<rparr> st h0 key"
proof -
  obtain b where "install_petal_package L (d @ [''store'']) b (\<lambda>i. commit_check L cat (d @ [''store'']) ctx (pp_hash package) (pp_name package)
      expected (i + 2)) (activate L blake3 env cat (d @ [''store''])) now rnd package source w = (w', r)"
    using commit_runs [OF run(1)] run(2) by auto
  from install_private_state [OF this run(2) store_okD(1) [OF ok] valid store_okD(2) [OF ok] old, of st key] st absent show ?thesis
    by (simp add: private_data_root_def private_account_data_root_def)
qed

theorem upgrade_carries_state_witness:
  "store_get \<lparr>dk_fs = w_fs (fst (sample_commit sample_ctx CHR ''2'' calm_plan sample_fs)), dk_poisoned = False\<rparr>
     \<lparr>ps_root = [''p'', ''data''], ps_account_digest = None, ps_shared_keys = {}, ps_shared_root = None\<rparr> (sample_hash CHR ''2'') ''k'' = Ok ''v''"
proof -
  let ?st = "\<lparr>ps_root = [''p'', ''data''], ps_account_digest = None, ps_shared_keys = {}, ps_shared_root = None\<rparr>"
  obtain w' r where run: "sample_commit sample_ctx CHR ''2'' calm_plan sample_fs = (w', r)"
    by (cases "sample_commit sample_ctx CHR ''2'' calm_plan sample_fs")
  have st: "laid_out ([''p''] @ [''data-accounts'']) ([''p''] @ [''data'']) ?st" by (simp add: laid_out_def)
  have facts: "map_of sample_fs [''p'', ''data-accounts'', sample_hash CHR ''2''] = None"
    "map_of sample_fs [''p'', ''data'', sample_hash CHR ''2''] = None" "sample_hash CHR ''1'' \<noteq> sample_hash CHR ''2''"
    "store_get \<lparr>dk_fs = sample_fs, dk_poisoned = False\<rparr> ?st (sample_hash CHR ''1'') ''k'' = Ok ''v''"
    by code_simp+
  have may: "authorised sample_catalog (sample_hash CHR ''1'') (sample_hash CHR ''2'')"
    unfolding authorised_iff by code_simp
  from upgrade_carries_state [OF run [unfolded sample_commit_def sample_base_def], folded sample_base_def, of "sample_hash CHR ''1''", OF _ _ _ _ _ st, of "''k''"]
  show ?thesis using sample_upgrades(2) by (simp add: run facts may sample_fs_facts sample_store_ok sample_hashes)
qed

text \<open>
  C8: what a replacement was checked against when it became visible. A commit that replaced package
  \<open>h0\<close> was not cancelled at its last look, \<open>h0\<close> was the owner the caller expected, no session was
  active on \<open>h0\<close> unless the caller forced the install, and, for a different package, the catalog
  was well formed, knew the lineage of the new package where \<open>h0\<close> has one, and knew \<open>h0\<close> where
  the new package's active lineage lists it.
\<close>

theorem replacement_guarded:
  assumes run: "commit_petal_package L blake3 env cat (d @ [''store'']) ctx busy now rnd package source expected w = (w', r)" "is_ok r"
    and ok: "store_ok L (d @ [''store'']) (w_fs w)" and valid: "is_valid_hex_hash (pp_hash package)"
    and old: "resolve_petal_owner L (w_fs w) (d @ [''store'']) (pp_name package) = Ok (Some h0)"
  shows "\<not> cc_cancelled ctx 4 \<and> expected \<in> {None, Some (Some h0)} \<and>
    (cc_force ctx \<or> (case cc_sessions ctx of None \<Rightarrow> True | Some active \<Rightarrow> active 4 h0 = [])) \<and>
    (h0 = pp_hash package \<or> lc_shape_error cat = None \<and>
      (lineage_record cat h0 = None \<or> lineage_record cat (pp_hash package) \<noteq> None) \<and>
      (case lineage_of cat (pp_hash package) of
         None \<Rightarrow> True
       | Some l \<Rightarrow> if ln_active l \<and> h0 \<in> set (ln_predecessors l) then lineage_record cat h0 \<noteq> None else True))"
proof -
  let ?check = "commit_check L cat (d @ [''store'']) ctx (pp_hash package) (pp_name package) expected"
  obtain b where "install_petal_package L (d @ [''store'']) b (\<lambda>i. ?check (i + 2)) (activate L blake3 env cat (d @ [''store'']))
      now rnd package source w = (w', r)"
    using commit_runs [OF run(1)] run(2) by auto
  from runner.install_guarded [OF this run(2) store_okD(1) [OF ok] valid old] obtain fs where
    c: "?check 4 fs = Ok ()" and o: "resolve_petal_owner L fs (d @ [''store'']) (pp_name package) = Ok (Some h0)"
    by auto
  have a: "check_activation L cat fs (d @ [''store'']) (pp_hash package) (pp_name package) = Ok ()"
    using c by (auto simp: commit_check_def and_then_Ok_iff)
  have "\<not> cc_cancelled ctx 4 \<and> expected \<in> {None, Some (Some h0)} \<and>
      (cc_force ctx \<or> (case cc_sessions ctx of None \<Rightarrow> True | Some active \<Rightarrow> active 4 h0 = []))"
    using c by (auto simp: commit_check_def and_then_Ok_iff unless_cancelled_def o split: option.splits if_splits)
  then show ?thesis using a
    by (auto simp: check_activation_def and_then_Ok_iff ensure_catalog_shape_def o split: option.splits if_splits)
qed

theorem replacement_guarded_witness:
  "\<not> cc_cancelled sample_ctx 4 \<and> lineage_record sample_catalog (sample_hash CHR ''2'') \<noteq> None"
proof -
  obtain w' r where run: "sample_commit sample_ctx CHR ''2'' calm_plan sample_fs = (w', r)"
    by (cases "sample_commit sample_ctx CHR ''2'' calm_plan sample_fs")
  have "lineage_record sample_catalog (sample_hash CHR ''1'') \<noteq> None" "sample_hash CHR ''1'' \<noteq> sample_hash CHR ''2''" by code_simp+
  with replacement_guarded [OF run [unfolded sample_commit_def sample_base_def], folded sample_base_def, of "sample_hash CHR ''1''"]
  show ?thesis using sample_upgrades(2) by (auto simp: run sample_fs_facts sample_store_ok sample_hashes)
qed



text \<open>
  C18: every history of the store keeps it well formed. From an empty disk, over any sequence of
  starts, commits, bundled releases, plain installs, removals and preparations of private state,
  each under any failures, every file lies in a directory and the metadata stored for a hash is the
  metadata of that hash.
\<close>

theorem store_stays_well_formed:
  assumes "package_lib_ok L"
  shows "store_ok L (d @ [''store'']) (fold (store_step L blake3 (d @ [''store''])) events [])"
  by (rule store_runs.run_inv [OF store_ok_empty assms])

theorem store_stays_well_formed_witness:
  "store_ok sample_lib ([''p''] @ [''store'']) (fold (store_step sample_lib (\<lambda>s. s) ([''p''] @ [''store'']))
     [(calm_plan, Reopen), (failing_from 9, Commit calm_env sample_catalog sample_ctx False 7 ''x'' (sample_pkg CHR ''1'') None None)] [])"
  using store_stays_well_formed [OF sample_lib_ok] .

end
