(* ===== verification/Spec2Isabelle.thy ===== *)
theory Spec2Isabelle
  imports Audit_Log Outbox Policy_Edit Defi_Policy Valuation Tx_Authorization Mempool_Fees Rpc_Health Operation_Index
    Reconcile Petal_Upgrade
begin

text \<open>
  A verification development of Bloom, a wallet daemon that agents use through a virtual file
  system. Source paths are below \<open>src/crates\<close>.

  \<^bold>\<open>The program.\<close> An agent stages a transaction by writing a file. The engine (\<open>bloom-tx\<close>) checks it
  against the owner's policy (\<open>bloom-proto\<close>), records it in the outbox, lets it be signed when the
  policy approves it without review or a person approves it, broadcasts it and follows it until it
  is final, and writes what it does to a hash-chained journal. Around it: the index of pending
  transactions (\<open>bloom-mempool\<close>), the health of the chain endpoints (\<open>bloom-rpc-common\<close>), the paths,
  pages and operation ids of the virtual file system (\<open>bloom-vfs\<close>), and petals (\<open>bloom-petals\<close>):
  installable WebAssembly packages that serve parts of the virtual file system and run under the
  network, store and capability policies of their manifests.

  \<^bold>\<open>How the code is modelled.\<close> One theory per component, its operations in the order of the source
  and under the names of the source. A \<open>String\<close> is the list of its UTF-8 bytes, a \<open>Result\<close> a sum with
  the error on the left, a message the list of its pieces, a \<open>u32\<close> or \<open>u64\<close> a word or a natural
  number with its bound written out, an \<open>f64\<close> an exact rational with correct rounding (\<open>F64\<close>), a
  \<open>BTreeMap\<close> that is iterated the list of its entries in key order (\<open>BTree_Map\<close>), a \<open>BTreeSet\<close> a set.
  State is passed explicitly; clocks, random names and the contents of other processes' files are
  arguments. Code outside the repository (JSON, TOML, blake3, signatures, addresses, 256-bit
  integers, URL parsing) is a parameter, and what the code relies on of it is a named hypothesis
  (\<open>u256_lib_ok\<close>, \<open>audit_lib_ok\<close>, \<open>package_lib_ok\<close> and others) that every theorem using it states and
  its witness discharges for a concrete function.

  File systems can fail. In \<open>Outbox\<close> and \<open>Petal_Store\<close> every call that can fail has a field in a
  record of failures; in \<open>Petal_Packages\<close> an operation runs under a plan, a function from the number
  of a changing call to its failure, with what the failed call leaves behind: a truncated file, some
  of the directories, a part of a removed tree. A plan that fails every call from some point on is a
  process killed there, so theorems over all plans are theorems about crashes. No model needs fuel:
  every loop of the modelled code recurses over finite data.

  \<^bold>\<open>Shared theories.\<close> \<open>Bloom_Prelude\<close> has the strings, results and messages, and the locale
  \<open>op_machine\<close> (operations that keep an invariant keep it over every run), which is interpreted for
  the index of pending transactions, the endpoint registry, the operation index, the reconciler, the
  journal, the outbox, the component store and the package store. \<open>BTree_Map\<close> has the locale \<open>ordered_map\<close>, interpreted
  for sorted association lists. \<open>Petal_Packages\<close> has the locale \<open>activation\<close>, the contract of the
  step that prepares private state inside an installation (it works outside the store), which
  \<open>Petal_Runner\<close> interprets for the runner's activation.

  \<^bold>\<open>Policy and authorization.\<close> \<open>Units\<close> (\<open>units.rs\<close>, \<open>serde_micro.rs\<close>): parsing and printing amounts,
  inverse to each other. \<open>Policy\<close> (\<open>policy.rs\<close>, \<open>assurance.rs\<close>, \<open>polymarket_policy.rs\<close>): the policy
  document and \<open>evaluate_action_authorization\<close>, with the exact condition of an autonomous approval.
  \<open>Policy_Edit\<close>: \<open>classify_policy_edit\<close>; an edit classified as not expanding grants no autonomy, and
  one kind of edit lifts a denial nevertheless. \<open>Policy_Engine\<close> (\<open>policy_engine.rs\<close>) and \<open>Defi_Policy\<close>
  (\<open>defi_policy.rs\<close>): exactly when a transaction or a route is denied. \<open>Valuation\<close> (\<open>valuation.rs\<close>):
  when a price quote counts. \<open>Tx_Authorization\<close> (\<open>plan.rs\<close>, parts of \<open>outbox.rs\<close> and \<open>tx_engine.rs\<close>)
  composes them: the rolling spend read from the outbox, the authorization of a staged transaction,
  and that the ledger and an autonomously approved transaction together stay within the limits in
  integer micro-USD, for ledgers of at most 2000 entries that sum up to at most 2^40 micro-USD, where
  the \<open>f64\<close> sums of the source round to the exact value.

  \<^bold>\<open>Transactions.\<close> \<open>Outbox\<close> (\<open>outbox.rs\<close> and the dispatch, dependency and nonce parts of
  \<open>tx_engine.rs\<close>): staging, reading, moving, cancelling, expiring and discarding entries under any
  failure; a dispatched entry is never discarded, a failed transition loses no file, cancellation
  and the expiry sweep do exactly what they should, and two processes can collide on an identifier.
  \<open>Reconcile\<close> (\<open>reconcile.rs\<close>): the backoff of receipt lookups. \<open>Mempool_Index\<close> (\<open>index.rs\<close>): the
  bounded index refines a list of records. \<open>Mempool_Fees\<close> (\<open>bump.rs\<close>, \<open>heuristic.rs\<close>,
  \<open>bump_scanner.rs\<close>): replacement fees at 128 bits. \<open>Rpc_Health\<close> (\<open>health.rs\<close>, \<open>retry.rs\<close>): the
  cooldown machine. \<open>Audit_Log\<close> (\<open>audit.rs\<close>): the journal verifies after every successful append,
  tampering is evident up to collisions of the digest, and a reconciliation closes one effect.
  \<open>Operation_Index\<close> (\<open>operation_index.rs\<close>) and \<open>Vfs_Path\<close> (\<open>path.rs\<close>, \<open>paginate.rs\<close>): unique action
  ids, normal paths, pages that partition a listing.

  \<^bold>\<open>Petals.\<close> \<open>Petal_Policy\<close> (\<open>policy.rs\<close>, parts of \<open>package.rs\<close>): a fetch stays within the manifest, up
  to globs on which the two glob functions disagree. \<open>Petal_Store\<close> (\<open>private_store.rs\<close>, the store
  functions of \<open>vm.rs\<close>): atomic writes, isolation of petals and accounts, secret namespaces, carrying
  a partition forward. \<open>Petal_Routes\<close> (\<open>package.rs\<close>, \<open>runner.rs\<close>): patterns, conflicts, matching, and
  a dispatch that never exceeds what was installed. \<open>Petal_Packages\<close> (\<open>store.rs\<close>, parts of
  \<open>package.rs\<close> and \<open>meta.rs\<close>): staging, installation, owner records, recovery and removal; its first
  lemmas are a calculus of what an action leaves alone (\<open>leaves\<close>, the collection \<open>frame\<close>), from
  which the lemmas on installation and recovery follow. \<open>Petal_Runner\<close> (\<open>runner.rs\<close>, \<open>registry.rs\<close>):
  the provenance catalog, activation, names and prefixes. \<open>Petal_Invariant\<close>: what every operation of
  the store keeps (\<open>keeps\<close>, the collection \<open>keeping\<close>): files lie in directories, and the metadata
  stored for a hash names that hash. \<open>Petal_Upgrade\<close> (\<open>commit_petal_package\<close> of
  \<open>bloom-daemon/src/ipc.rs\<close>) composes store, runner and daemon: every history of the store keeps
  that invariant, and from any such store an update is atomic across crashes
  and restarts, carries private state exactly within its lineage and is checked against the
  outgoing package; an uninstalled update can bring the old version back, and a cancelled first
  installation can be published at the next start.

  \<^bold>\<open>Findings.\<close> Theorems whose names state a defect are proved of the code as it is; the properties
  that hold are stated with the side conditions the defects force, and their texts name them.

  \<^bold>\<open>Not modelled.\<close> The command line client, the daemon's wiring and sockets, the machine client,
  the MCP server, the NFS mount, chain and price clients, mempool streams, explorer and revert
  databases, the Solana engine, paid HTTP and the watch executor: asynchronous network and
  operating-system code around types of external crates. The handlers of the virtual file system
  render that state. Of the engine: staging through simulation and broadcasting. Of petals: the
  WebAssembly engine, the host functions other than the store, building and inspecting components
  (the rebuilding of a package and the bytes of a route artifact are parameters of the store model),
  the router, and the cache of runtime metadata. Of the journal: the rotation of its signing key.
  Of file systems: symbolic links, permissions other than the mode of a file, and failing reads.
\<close>

end
